(* ===== verification/Prelude.thy ===== *)
theory Prelude
  imports Main "HOL-Library.Word" "HOL-Library.Monad_Syntax"
begin

text \<open>
  Shared vocabulary of the development.

  \<^item> Rust's \<open>Result<A, E>\<close> is the sum \<open>'e + 'a\<close> with \<open>Err\<close> on the left and \<open>Ok\<close> on the right;
    the \<open>?\<close> operator is \<open>and_then\<close>. A function that can panic (an \<open>assert!\<close>, an \<open>unwrap\<close>, an
    index out of bounds) returns an \<open>option\<close> whose \<open>None\<close> is the panic.
  \<^item> Unsigned machine integers are natural numbers. Where the source's plain \<open>+\<close>, \<open>-\<close> or \<open>*\<close> can
    leave the width, the wrap-around of the release profile is written out with \<open>wadd\<close>, \<open>wsub\<close> and
    \<open>wmul\<close> (the workspace's release profile does not enable overflow checks); \<open>checked_add\<close>,
    \<open>checked_sub\<close> and \<open>div_ceil\<close> are the methods of the same name.
  \<^item> \<open>binary_search\<close> is the search of Rust's slices, as a halving loop, with its documented contract.
\<close>

unbundle bit_operations_syntax

named_theorems rust_arith \<open>machine arithmetic inside its range\<close>
named_theorems result_simps \<open>inversion of Rust results\<close>

subsection \<open>Results\<close>

abbreviation Ok :: "'a \<Rightarrow> 'e + 'a" where
  "Ok \<equiv> Inr"

abbreviation Err :: "'e \<Rightarrow> 'e + 'a" where
  "Err \<equiv> Inl"

definition and_then :: "'e + 'a \<Rightarrow> ('a \<Rightarrow> 'e + 'b) \<Rightarrow> 'e + 'b" where
  "and_then r k = (case r of Inl e \<Rightarrow> Inl e | Inr v \<Rightarrow> k v)"

definition map_err :: "('e \<Rightarrow> 'f) \<Rightarrow> 'e + 'a \<Rightarrow> 'f + 'a" where
  "map_err f r = (case r of Inl e \<Rightarrow> Inl (f e) | Inr v \<Rightarrow> Inr v)"

definition ok_or :: "'e \<Rightarrow> 'a option \<Rightarrow> 'e + 'a" where
  "ok_or e x = (case x of None \<Rightarrow> Inl e | Some v \<Rightarrow> Inr v)"

definition is_ok :: "'e + 'a \<Rightarrow> bool" where
  "is_ok r = (case r of Inl _ \<Rightarrow> False | Inr _ \<Rightarrow> True)"

fun try_for_each :: "('a \<Rightarrow> 'e + unit) \<Rightarrow> 'a list \<Rightarrow> 'e + unit" where
  "try_for_each f [] = Inr ()"
| "try_for_each f (x # xs) = and_then (f x) (\<lambda>_. try_for_each f xs)"

fun try_fold :: "('s \<Rightarrow> 'a \<Rightarrow> 'e + 's) \<Rightarrow> 's \<Rightarrow> 'a list \<Rightarrow> 'e + 's" where
  "try_fold f s [] = Inr s"
| "try_fold f s (x # xs) = and_then (f s x) (\<lambda>s. try_fold f s xs)"

fun collect_results :: "('a \<Rightarrow> 'e + 'b) \<Rightarrow> 'a list \<Rightarrow> 'e + 'b list" where
  "collect_results f [] = Inr []"
| "collect_results f (x # xs) =
     and_then (f x) (\<lambda>y. and_then (collect_results f xs) (\<lambda>ys. Inr (y # ys)))"

text \<open>
  An operation that may panic as well as return an error has the error type \<open>'e fault\<close>. An \<open>Option\<close>
  that the code unwraps panics on \<open>None\<close>.
\<close>

datatype 'e fault = Panic | Fault 'e

definition assert :: "bool \<Rightarrow> 'e fault + unit" where
  "assert b = (if b then Inr () else Inl Panic)"

definition unwrap :: "'a option \<Rightarrow> 'e fault + 'a" where
  "unwrap x = (case x of None \<Rightarrow> Inl Panic | Some v \<Rightarrow> Inr v)"

definition no_panic :: "'e + 'a \<Rightarrow> 'e fault + 'a" where
  "no_panic r = map_err Fault r"

definition slice :: "nat \<Rightarrow> nat \<Rightarrow> 'a list \<Rightarrow> 'a list" where
  "slice s e xs = drop s (take e xs)"

definition windows2 :: "'a list \<Rightarrow> ('a \<times> 'a) list" where
  "windows2 xs = zip xs (tl xs)"

definition last_n :: "nat \<Rightarrow> 'a list \<Rightarrow> 'a list" where
  "last_n n xs = drop (length xs - n) xs"

subsection \<open>Machine arithmetic\<close>

definition wadd :: "nat \<Rightarrow> nat \<Rightarrow> nat \<Rightarrow> nat" where
  "wadd w a b = (a + b) mod 2 ^ w"

definition wsub :: "nat \<Rightarrow> nat \<Rightarrow> nat \<Rightarrow> nat" where
  "wsub w a b = (a + 2 ^ w - b) mod 2 ^ w"

definition wmul :: "nat \<Rightarrow> nat \<Rightarrow> nat \<Rightarrow> nat" where
  "wmul w a b = (a * b) mod 2 ^ w"

definition checked_add :: "nat \<Rightarrow> nat \<Rightarrow> nat \<Rightarrow> nat option" where
  "checked_add w a b = (if a + b < 2 ^ w then Some (a + b) else None)"

definition checked_sub :: "nat \<Rightarrow> nat \<Rightarrow> nat option" where
  "checked_sub a b = (if b \<le> a then Some (a - b) else None)"

definition div_ceil :: "nat \<Rightarrow> nat \<Rightarrow> nat" where
  "div_ceil a b = (if 0 < a mod b then a div b + 1 else a div b)"

definition shl :: "nat \<Rightarrow> nat \<Rightarrow> nat \<Rightarrow> nat" where
  "shl w a n = take_bit w (push_bit n a)"

datatype ordering = Less | Equal | Greater

definition cmp :: "'a::linorder \<Rightarrow> 'a \<Rightarrow> ordering" where
  "cmp a b = (if a < b then Less else if a = b then Equal else Greater)"

subsection \<open>Slice search\<close>

function bsearch_base :: "'a::linorder list \<Rightarrow> 'a \<Rightarrow> nat \<Rightarrow> nat \<Rightarrow> nat" where
  "bsearch_base xs x base sz =
     (if 1 < sz
      then let half = sz div 2; mid = base + half
           in bsearch_base xs x (if x < xs ! mid then base else mid) (sz - half)
      else base)"
  by pat_completeness auto
termination
  by (relation "measure (\<lambda>(xs, x, base, sz). sz)") auto

declare bsearch_base.simps [simp del]

definition binary_search :: "'a::linorder list \<Rightarrow> 'a \<Rightarrow> nat + nat" where
  "binary_search xs x =
     (if xs = [] then Inl 0
      else let base = bsearch_base xs x 0 (length xs)
           in if xs ! base = x then Inr base
              else Inl (base + (if xs ! base < x then 1 else 0)))"

definition vec_insert :: "nat \<Rightarrow> 'a \<Rightarrow> 'a list \<Rightarrow> 'a list" where
  "vec_insert i x xs = take i xs @ x # drop i xs"

definition vec_remove :: "nat \<Rightarrow> 'a list \<Rightarrow> 'a list" where
  "vec_remove i xs = take i xs @ drop (Suc i) xs"

subsection \<open>Facts on results\<close>

lemma and_then_simps [simp]:
  "and_then (Inl e) k = Inl e"
  "and_then (Inr v) k = k v"
  by (simp_all add: and_then_def)

lemma and_then_eq_Inr [result_simps]:
  "and_then r k = Inr b \<longleftrightarrow> (\<exists>v. r = Inr v \<and> k v = Inr b)"
  by (cases r) simp_all

lemma and_then_eq_Inl [result_simps]:
  "and_then r k = Inl e \<longleftrightarrow> r = Inl e \<or> (\<exists>v. r = Inr v \<and> k v = Inl e)"
  by (cases r) simp_all

lemma map_err_simps [simp]:
  "map_err f (Inl e) = Inl (f e)"
  "map_err f (Inr v) = Inr v"
  by (simp_all add: map_err_def)

lemma map_err_eq_Inr [result_simps]: "map_err f r = Inr v \<longleftrightarrow> r = Inr v"
  by (cases r) simp_all

lemma ok_or_simps [simp]:
  "ok_or e None = Inl e"
  "ok_or e (Some v) = Inr v"
  by (simp_all add: ok_or_def)

lemma ok_or_eq_Inr [result_simps]: "ok_or e x = Inr v \<longleftrightarrow> x = Some v"
  by (cases x) simp_all

lemma is_ok_simps [simp]:
  "is_ok (Inr v)"
  "\<not> is_ok (Inl e)"
  by (simp_all add: is_ok_def)

lemma is_ok_iff: "is_ok r \<longleftrightarrow> (\<exists>v. r = Inr v)"
  by (cases r) simp_all

lemma try_for_each_Ok [result_simps]:
  "try_for_each f xs = Inr u \<longleftrightarrow> (\<forall>x \<in> set xs. f x = Inr ())"
  by (induction xs) (auto simp: and_then_eq_Inr)

lemma try_for_each_Err:
  "try_for_each f xs = Inl e \<Longrightarrow> \<exists>x \<in> set xs. f x = Inl e"
  by (induction xs) (auto simp: and_then_eq_Inl)

lemma try_fold_checked_sum:
  assumes "s < 2 ^ w"
  shows "try_fold (\<lambda>s x. and_then (check x) (\<lambda>_. ok_or e (checked_add w s (amt x)))) s xs = Inr t \<longleftrightarrow>
    (\<forall>x \<in> set xs. check x = Inr ()) \<and> s + sum_list (map amt xs) < 2 ^ w \<and> t = s + sum_list (map amt xs)"
  using assms
proof (induction xs arbitrary: s)
  case (Cons x xs)
  show ?case
  proof (cases "check x")
    case (Inr u)
    then show ?thesis
      using Cons.IH [of "s + amt x"] by (auto simp: checked_add_def add.assoc)
  qed simp
qed auto

lemma collect_results_Ok [result_simps]:
  "collect_results f xs = Inr ys \<longleftrightarrow> list_all2 (\<lambda>x y. f x = Inr y) xs ys"
  by (induction xs arbitrary: ys) (auto simp: and_then_eq_Inr list_all2_Cons1)

lemma collect_results_comp: "collect_results f (map g xs) = collect_results (\<lambda>x. f (g x)) xs"
  by (induction xs) simp_all

lemma collect_results_map:
  "(\<And>x. x \<in> set xs \<Longrightarrow> f x = Inr (g x)) \<Longrightarrow> collect_results f xs = Inr (map g xs)"
  by (induction xs) simp_all

lemma assert_simps [simp]:
  "assert True = Inr ()"
  "assert False = Inl Panic"
  by (simp_all add: assert_def)

lemma assert_eq_Inr [result_simps]: "assert b = Inr u \<longleftrightarrow> b"
  by (simp add: assert_def)

lemma unwrap_simps [simp]:
  "unwrap None = Inl Panic"
  "unwrap (Some v) = Inr v"
  by (simp_all add: unwrap_def)

lemma unwrap_eq_Inr [result_simps]: "unwrap x = Inr v \<longleftrightarrow> x = Some v"
  by (cases x) simp_all

lemma no_panic_simps [simp]:
  "no_panic (Inr v) = Inr v"
  "no_panic (Inl e) = Inl (Fault e)"
  by (simp_all add: no_panic_def)

lemma no_panic_eq [result_simps]:
  "no_panic r = Inr v \<longleftrightarrow> r = Inr v"
  "no_panic r = Inl (Fault e) \<longleftrightarrow> r = Inl e"
  by (cases r; simp)+

lemma no_panic_ne_Panic [simp]: "no_panic r \<noteq> Inl Panic"
  by (cases r) simp_all

lemma length_slice [simp]: "length (slice s e xs) = min e (length xs) - s"
  by (simp add: slice_def min.commute)

lemma slice_map: "map f (slice s e xs) = slice s e (map f xs)"
  by (simp add: slice_def drop_map take_map)

lemma slice_append_slice: "s \<le> m \<Longrightarrow> m \<le> e \<Longrightarrow> slice s m xs @ slice m e xs = slice s e xs"
proof -
  assume "s \<le> m" "m \<le> e"
  then have "take m xs = take m (take e xs)" and "drop m (take e xs) = drop (m - s) (drop s (take e xs))"
    by (simp_all add: min_absorb1)
  moreover have "drop s (take m (take e xs)) = take (m - s) (drop s (take e xs))"
    by (rule drop_take)
  ultimately show ?thesis
    unfolding slice_def by (metis append_take_drop_id)
qed

lemma slice_take: "e \<le> n \<Longrightarrow> slice s e (take n xs) = slice s e xs"
  by (simp add: slice_def min_absorb1)

lemma take_slice: "take n (slice s e xs) = slice s (min e (s + n)) xs"
  by (simp add: slice_def take_drop min.commute add.commute)

lemma last_n_slice: "last_n n xs = slice (length xs - n) (length xs) xs"
  by (simp add: last_n_def slice_def)

lemma upt_split: "a \<le> b \<Longrightarrow> b \<le> c \<Longrightarrow> [a..<c] = [a..<b] @ [b..<c]"
  using upt_add_eq_append [of a b "c - b"] by simp

lemma slice_empty [simp]: "e \<le> s \<Longrightarrow> slice s e xs = []"
  by (simp add: slice_def)

lemma slice_snoc: "s \<le> length xs \<Longrightarrow> slice s (Suc (length xs)) (xs @ [x]) = slice s (length xs) xs @ [x]"
  by (simp add: slice_def)

lemma tl_slice: "tl (slice s e xs) = slice (Suc s) e xs"
  by (simp add: slice_def drop_Suc drop_tl)

lemma windows2_simps [simp]:
  "windows2 [] = []"
  "windows2 [x] = []"
  "windows2 (x # y # xs) = (x, y) # windows2 (y # xs)"
  by (simp_all add: windows2_def)

lemma windows2_sorted_wrt:
  assumes "transp R"
  shows "(\<forall>(a, b) \<in> set (windows2 xs). R a b) \<longleftrightarrow> sorted_wrt R xs"
proof (induction xs rule: induct_list012)
  case (3 x y zs)
  then show ?case
    using assms by (auto dest: transpD)
qed simp_all

subsection \<open>Facts on windows\<close>

lemma length_last_n [simp]: "length (last_n n xs) = min n (length xs)"
  by (simp add: last_n_def)

lemma last_n_all: "length xs \<le> n \<Longrightarrow> last_n n xs = xs"
  by (simp add: last_n_def)

lemma last_n_snoc: "last_n n (last_n n xs @ [x]) = last_n n (xs @ [x])"
  by (cases "n \<le> length xs") (auto simp: last_n_def Suc_diff_le)

lemma last_n_last_n: "last_n n (last_n n xs @ ys) = last_n n (xs @ ys)"
  by (cases "length xs \<le> n") (auto simp: last_n_def add.commute)

lemma last_n_append_tl:
  "length xs = n \<Longrightarrow> 0 < n \<Longrightarrow> last_n n (xs @ [x]) = tl xs @ [x]"
  by (cases xs) (auto simp: last_n_def)

lemma last_n_split:
  "n \<le> length xs \<Longrightarrow> xs = take (length xs - n) xs @ last_n n xs"
  by (simp add: last_n_def)

lemma filter_count_list:
  "distinct hs \<Longrightarrow> sum_list (map (count_list xs) hs) = length (filter (\<lambda>x. x \<in> set hs) xs)"
proof (induction xs)
  case Nil
  then show ?case by (simp add: sum_list_0)
next
  case (Cons x xs)
  have "count_list (x # xs) = (\<lambda>h. count_list xs h + (if x = h then 1 else 0))"
    by auto
  then have "sum_list (map (count_list (x # xs)) hs) =
      sum_list (map (count_list xs) hs) + sum_list (map (\<lambda>h. if x = h then 1 else 0) hs)"
    by (simp only: sum_list_addf)
  moreover have "sum_list (map (\<lambda>h. if x = h then 1 else 0) hs) = (if x \<in> set hs then 1 else 0::nat)"
    using Cons.prems by (induction hs) auto
  ultimately show ?case
    using Cons by (simp del: count_list.simps)
qed

lemma sorted_le_last: "sorted xs \<Longrightarrow> x \<in> set xs \<Longrightarrow> x \<le> last xs"
  by (induction xs) (auto simp: sorted_append)

subsection \<open>Facts on machine arithmetic\<close>

lemma wadd_exact [rust_arith]: "a + b < 2 ^ w \<Longrightarrow> wadd w a b = a + b"
  by (simp add: wadd_def)

lemma wsub_exact [rust_arith]: "b \<le> a \<Longrightarrow> a < 2 ^ w \<Longrightarrow> wsub w a b = a - b"
proof -
  assume le: "b \<le> a" and lt: "a < 2 ^ w"
  then have "wsub w a b = ((a - b) + 2 ^ w) mod 2 ^ w"
    by (simp add: wsub_def)
  also have "\<dots> = a - b"
    using lt by simp
  finally show ?thesis .
qed

lemma wsub_wraps: "a < b \<Longrightarrow> b < 2 ^ w \<Longrightarrow> wsub w a b = a + 2 ^ w - b"
  by (simp add: wsub_def)

lemma wmul_exact [rust_arith]: "a * b < 2 ^ w \<Longrightarrow> wmul w a b = a * b"
  by (simp add: wmul_def)

lemma wadd_bound [simp]: "wadd w a b < 2 ^ w"
  and wsub_bound [simp]: "wsub w a b < 2 ^ w"
  and wmul_bound [simp]: "wmul w a b < 2 ^ w"
  by (simp_all add: wadd_def wsub_def wmul_def)

lemma checked_add_eq_Some [result_simps]:
  "checked_add w a b = Some c \<longleftrightarrow> a + b < 2 ^ w \<and> c = a + b"
  by (auto simp: checked_add_def)

lemma checked_sub_eq_Some [result_simps]:
  "checked_sub a b = Some c \<longleftrightarrow> b \<le> a \<and> c = a - b"
  by (auto simp: checked_sub_def)

lemma div_ceil_ge: "0 < b \<Longrightarrow> a \<le> b * div_ceil a b"
proof -
  assume "0 < b"
  then have "a mod b < b"
    by simp
  moreover have "a = b * (a div b) + a mod b"
    by simp
  ultimately have "a \<le> b * (a div b) + b" "a mod b = 0 \<Longrightarrow> a \<le> b * (a div b)"
    by linarith+
  then show ?thesis
    by (simp add: div_ceil_def)
qed

lemma div_ceil_least:
  assumes "0 < b" "a \<le> b * n"
  shows "div_ceil a b \<le> n"
proof (rule ccontr)
  assume "\<not> div_ceil a b \<le> n"
  then have n: "n < div_ceil a b"
    by simp
  have e: "a = b * (a div b) + a mod b"
    by simp
  show False
  proof (cases "0 < a mod b")
    case True
    with n have "n \<le> a div b"
      by (simp add: div_ceil_def)
    then have "b * n \<le> b * (a div b)"
      by simp
    with e True assms(2) show False
      by linarith
  next
    case False
    with n have "n < a div b"
      by (simp add: div_ceil_def)
    then have "b * n < b * (a div b)"
      using assms(1) by simp
    with e assms(2) show False
      by linarith
  qed
qed

lemma shl_exact [rust_arith]: "a * 2 ^ n < 2 ^ w \<Longrightarrow> shl w a n = a * 2 ^ n"
  by (simp add: shl_def push_bit_eq_mult take_bit_nat_eq_self)

lemma shl_one [rust_arith]: "n < w \<Longrightarrow> shl w 1 n = 2 ^ n"
  by (simp add: shl_exact)

lemma and_mask_mod: "(a::nat) AND (2 ^ n - 1) = a mod 2 ^ n"
  by (simp only: mask_eq_exp_minus_1 [symmetric] take_bit_eq_mask [symmetric] take_bit_eq_mod)

subsection \<open>The contract of the slice search\<close>

text \<open>
  The loop keeps \<open>base\<close> inside the window, everything before \<open>base\<close> not above \<open>x\<close> and everything
  from the window's end on above \<open>x\<close>.
\<close>

lemma bsearch_base_inv:
  assumes "sorted xs" "base + sz \<le> length xs" "0 < sz"
    and "base = 0 \<or> xs ! base \<le> x"
    and "\<forall>j < length xs. base + sz \<le> j \<longrightarrow> x < xs ! j"
  defines "r \<equiv> bsearch_base xs x base sz"
  shows "r < length xs \<and> (r = 0 \<or> xs ! r \<le> x) \<and> (\<forall>j < length xs. r < j \<longrightarrow> x < xs ! j)"
  using assms(1-5) unfolding r_def
proof (induction xs x base sz rule: bsearch_base.induct)
  case (1 xs x base sz)
  show ?case
  proof (cases "1 < sz")
    case True
    define half where "half = sz div 2"
    define mid where "mid = base + half"
    have half: "0 < half" "half < sz"
      using True by (auto simp: half_def)
    have mid: "mid < length xs"
      using half 1(3) by (simp add: mid_def)
    have above: "x < xs ! j" if "x < xs ! mid" "mid \<le> j" "j < length xs" for j
      using that sorted_nth_mono [OF 1(2) that(2,3)] by simp
    have unfold: "bsearch_base xs x base sz =
        bsearch_base xs x (if x < xs ! mid then base else mid) (sz - half)"
      using True by (subst bsearch_base.simps) (simp add: half_def mid_def Let_def)
    show ?thesis
      unfolding unfold
    proof (rule 1(1) [OF True half_def mid_def])
      show "sorted xs"
        by (rule 1(2))
      show "(if x < xs ! mid then base else mid) + (sz - half) \<le> length xs"
        using 1(3) half by (auto simp: mid_def)
      show "0 < sz - half"
        using half by simp
      show "(if x < xs ! mid then base else mid) = 0 \<or> xs ! (if x < xs ! mid then base else mid) \<le> x"
        using 1(5) by auto
      have "sz - half = half \<or> sz - half = Suc half"
        unfolding half_def by arith
      then have le: "mid \<le> base + (sz - half)" and eq: "mid + (sz - half) = base + sz"
        using half by (auto simp: mid_def)
      show "\<forall>j < length xs. (if x < xs ! mid then base else mid) + (sz - half) \<le> j \<longrightarrow> x < xs ! j"
      proof (cases "x < xs ! mid")
        case True
        with above le show ?thesis
          by simp
      next
        case False
        with 1(6) eq show ?thesis
          by simp
      qed
    qed
  next
    case False
    then have "sz = 1"
      using 1(4) by simp
    then have "bsearch_base xs x base sz = base"
      by (subst bsearch_base.simps) simp
    with 1(3,5,6) \<open>sz = 1\<close> show ?thesis
      by simp
  qed
qed

lemma binary_search_Ok:
  "binary_search xs x = Inr i \<Longrightarrow> sorted xs \<Longrightarrow> i < length xs \<and> xs ! i = x"
  using bsearch_base_inv [of xs 0 "length xs" x]
  by (simp add: binary_search_def Let_def split: if_splits)

lemma binary_search_Err:
  assumes "binary_search xs x = Inl i" "sorted xs"
  shows "i \<le> length xs" "\<forall>j < i. xs ! j < x" "\<forall>j < length xs. i \<le> j \<longrightarrow> x < xs ! j"
proof -
  have *: "i \<le> length xs \<and> (\<forall>j < i. xs ! j < x) \<and> (\<forall>j < length xs. i \<le> j \<longrightarrow> x < xs ! j)"
  proof (cases "xs = []")
    case True
    with assms show ?thesis
      by (simp add: binary_search_def)
  next
    case False
    define r where "r = bsearch_base xs x 0 (length xs)"
    have r: "r < length xs" "r = 0 \<or> xs ! r \<le> x" "\<forall>j < length xs. r < j \<longrightarrow> x < xs ! j"
      using bsearch_base_inv [of xs 0 "length xs" x] assms(2) False by (auto simp: r_def)
    have ne: "xs ! r \<noteq> x" and i: "i = r + (if xs ! r < x then 1 else 0)"
      using assms(1) False by (auto simp: binary_search_def r_def Let_def split: if_splits)
    have below: "xs ! j < x" if "xs ! r < x" "j \<le> r" for j
      using that sorted_nth_mono [OF assms(2) that(2) r(1)] by simp
    show ?thesis
    proof (cases "xs ! r < x")
      case True
      with r i below show ?thesis
        by (auto simp: less_Suc_eq_le Suc_le_eq)
    next
      case False
      with r(2) ne have "r = 0"
        by auto
      with False r i ne show ?thesis
        by (auto simp: le_eq_less_or_eq)
    qed
  qed
  then show "i \<le> length xs" "\<forall>j < i. xs ! j < x" "\<forall>j < length xs. i \<le> j \<longrightarrow> x < xs ! j"
    by auto
qed

lemma binary_search_found_iff:
  assumes "sorted xs"
  shows "(\<exists>i. binary_search xs x = Inr i) \<longleftrightarrow> x \<in> set xs"
proof
  assume "\<exists>i. binary_search xs x = Inr i"
  then show "x \<in> set xs"
    using binary_search_Ok [OF _ assms] nth_mem by force
next
  assume "x \<in> set xs"
  then obtain j where j: "j < length xs" "xs ! j = x"
    by (auto simp: in_set_conv_nth)
  show "\<exists>i. binary_search xs x = Inr i"
  proof (cases "binary_search xs x")
    case (Inl i)
    show ?thesis
      using binary_search_Err(2,3) [OF Inl assms] j by (cases "j < i") auto
  qed auto
qed

end
