(* ===== verification/Pruning.thy ===== *)
theory Pruning
  imports Prelude
begin

text \<open>
  The pruning mechanism, \<^verbatim>\<open>src/pruning/src/lib.rs\<close>: pruning seeds, their 32-bit encoding, the blocks
  a seed keeps and the searches for the next kept and the next pruned block. Heights and chain heights
  are \<open>usize\<close>, \<open>log_stripes\<close> and \<open>stripe\<close> are \<open>u32\<close>.

  The theorems: encoding and decoding are inverse on every seed with at least one stripe bit; the
  search for the next unpruned block always returns the least kept height; the search for the next
  pruned block is right except at the tip of the chain, where it can name a block that is kept.
\<close>

subsection \<open>Constants and types\<close>

definition MAX_BLOCK_HEIGHT_USIZE :: nat where
  "MAX_BLOCK_HEIGHT_USIZE = 500000000"

definition CRYPTONOTE_PRUNING_LOG_STRIPES :: nat where
  "CRYPTONOTE_PRUNING_LOG_STRIPES = 3"

definition CRYPTONOTE_PRUNING_STRIPE_SIZE :: nat where
  "CRYPTONOTE_PRUNING_STRIPE_SIZE = 4096"

definition CRYPTONOTE_PRUNING_TIP_BLOCKS :: nat where
  "CRYPTONOTE_PRUNING_TIP_BLOCKS = 5500"

definition PRUNING_SEED_LOG_STRIPES_SHIFT :: nat where
  "PRUNING_SEED_LOG_STRIPES_SHIFT = 7"

definition PRUNING_SEED_STRIPE_SHIFT :: nat where
  "PRUNING_SEED_STRIPE_SHIFT = 0"

definition PRUNING_SEED_LOG_STRIPES_MASK :: nat where
  "PRUNING_SEED_LOG_STRIPES_MASK = 7"

definition PRUNING_SEED_STRIPE_MASK :: nat where
  "PRUNING_SEED_STRIPE_MASK = 127"

datatype pruning_error =
    LogStripesOutOfRange
  | StripeOutOfRange
  | BlockHeightTooLarge
  | BlockChainHeightTooLarge
  | CalculatedHeightSmallerThanEnteredBlock
  | SeedDoesNotHaveCorrectLogStripes

record decompressed_pruning_seed =
  log_stripes :: nat
  stripe :: nat

datatype pruning_seed =
    NotPruned
  | Pruned decompressed_pruning_seed

subsection \<open>DecompressedPruningSeed\<close>

definition dps_new :: "nat \<Rightarrow> nat \<Rightarrow> pruning_error + decompressed_pruning_seed" where
  "dps_new st ls =
     (if PRUNING_SEED_LOG_STRIPES_MASK < ls then Err LogStripesOutOfRange
      else if \<not> (0 < st \<and> st \<le> shl 32 1 ls) then Err StripeOutOfRange
      else Ok \<lparr>log_stripes = ls, stripe = st\<rparr>)"

definition dps_decompress :: "nat \<Rightarrow> pruning_error + decompressed_pruning_seed option" where
  "dps_decompress seed =
     (if seed = 0 then Ok None
      else let ls = drop_bit PRUNING_SEED_LOG_STRIPES_SHIFT seed AND PRUNING_SEED_LOG_STRIPES_MASK;
               st = 1 + (drop_bit PRUNING_SEED_STRIPE_SHIFT seed AND PRUNING_SEED_STRIPE_MASK)
           in if shl 32 1 ls < st then Err StripeOutOfRange
              else Ok (Some \<lparr>log_stripes = ls, stripe = st\<rparr>))"

definition dps_compress :: "decompressed_pruning_seed \<Rightarrow> nat" where
  "dps_compress s =
     shl 32 (log_stripes s) PRUNING_SEED_LOG_STRIPES_SHIFT OR
     shl 32 (wsub 32 (stripe s) 1) PRUNING_SEED_STRIPE_SHIFT"

definition dps_cmp :: "decompressed_pruning_seed \<Rightarrow> decompressed_pruning_seed \<Rightarrow> ordering" where
  "dps_cmp a b =
     (case cmp (log_stripes a) (log_stripes b) of
        Equal \<Rightarrow> cmp (stripe a) (stripe b)
      | ord \<Rightarrow> ord)"

definition get_block_pruning_stripe :: "nat \<Rightarrow> nat \<Rightarrow> nat \<Rightarrow> nat option" where
  "get_block_pruning_stripe block_height blockchain_height log_stripe =
     (if blockchain_height \<le> wadd 64 block_height CRYPTONOTE_PRUNING_TIP_BLOCKS then None
      else Some (take_bit 32
             ((block_height div CRYPTONOTE_PRUNING_STRIPE_SIZE AND (shl 32 1 log_stripe - 1)) + 1)))"

definition dps_has_full_block :: "decompressed_pruning_seed \<Rightarrow> nat \<Rightarrow> nat \<Rightarrow> bool" where
  "dps_has_full_block s height blockchain_height =
     (case get_block_pruning_stripe height blockchain_height (log_stripes s) of
        Some block_stripe \<Rightarrow> stripe s = block_stripe
      | None \<Rightarrow> True)"

text \<open>
  The searches panic (\<open>None\<close>) where the source calls \<open>expect\<close>. After the guards every height is at
  most \<open>MAX_BLOCK_HEIGHT_USIZE\<close>, so the sums below stay far from \<open>2 ^ 64\<close> and are written plainly.
\<close>

definition dps_get_next_unpruned_block ::
  "decompressed_pruning_seed \<Rightarrow> nat \<Rightarrow> nat \<Rightarrow> (pruning_error + nat) option" where
  "dps_get_next_unpruned_block s block_height blockchain_height =
     (if MAX_BLOCK_HEIGHT_USIZE < block_height \<or> blockchain_height < block_height
      then Some (Err BlockHeightTooLarge)
      else if MAX_BLOCK_HEIGHT_USIZE < blockchain_height
      then Some (Err BlockChainHeightTooLarge)
      else if blockchain_height \<le> block_height + CRYPTONOTE_PRUNING_TIP_BLOCKS
      then Some (Ok block_height)
      else
        case get_block_pruning_stripe block_height blockchain_height (log_stripes s) of
          None \<Rightarrow> None
        | Some block_pruning_stripe \<Rightarrow>
            if stripe s = block_pruning_stripe then Some (Ok block_height)
            else
              let cycles = drop_bit (log_stripes s) (block_height div CRYPTONOTE_PRUNING_STRIPE_SIZE);
                  cycles_start = cycles + (if block_pruning_stripe < stripe s then 0 else 1);
                  calculated_height =
                    cycles_start * shl 64 CRYPTONOTE_PRUNING_STRIPE_SIZE (log_stripes s)
                    + (stripe s - 1) * CRYPTONOTE_PRUNING_STRIPE_SIZE
              in Some (if blockchain_height < calculated_height + CRYPTONOTE_PRUNING_TIP_BLOCKS
                       then Ok (blockchain_height - CRYPTONOTE_PRUNING_TIP_BLOCKS)
                       else if calculated_height < block_height
                       then Err CalculatedHeightSmallerThanEnteredBlock
                       else Ok calculated_height))"

definition dps_get_next_pruned_block ::
  "decompressed_pruning_seed \<Rightarrow> nat \<Rightarrow> nat \<Rightarrow> (pruning_error + nat option) option" where
  "dps_get_next_pruned_block s block_height blockchain_height =
     (if blockchain_height \<le> wadd 64 block_height CRYPTONOTE_PRUNING_TIP_BLOCKS
      then Some (Ok None)
      else
        case get_block_pruning_stripe block_height blockchain_height (log_stripes s) of
          None \<Rightarrow> None
        | Some block_pruning_stripe \<Rightarrow>
            if stripe s \<noteq> block_pruning_stripe then Some (Ok (Some block_height))
            else
              case dps_new (1 + (stripe s AND (shl 32 1 (log_stripes s) - 1))) (log_stripes s) of
                Inl _ \<Rightarrow> None
              | Inr seed \<Rightarrow>
                  (case dps_get_next_unpruned_block seed block_height blockchain_height of
                     None \<Rightarrow> None
                   | Some (Inl e) \<Rightarrow> Some (Err e)
                   | Some (Inr calculated_height) \<Rightarrow>
                       Some (Ok (if blockchain_height < calculated_height + CRYPTONOTE_PRUNING_TIP_BLOCKS
                                 then None else Some calculated_height))))"

subsection \<open>PruningSeed\<close>

definition new_pruned :: "nat \<Rightarrow> nat \<Rightarrow> pruning_error + pruning_seed" where
  "new_pruned st ls = and_then (dps_new st ls) (\<lambda>s. Ok (Pruned s))"

definition decompress :: "nat \<Rightarrow> pruning_error + pruning_seed" where
  "decompress seed =
     and_then (dps_decompress seed) (\<lambda>s. Ok (case s of None \<Rightarrow> NotPruned | Some d \<Rightarrow> Pruned d))"

definition get_log_stripes :: "pruning_seed \<Rightarrow> nat option" where
  "get_log_stripes s = (case s of NotPruned \<Rightarrow> None | Pruned d \<Rightarrow> Some (log_stripes d))"

definition get_stripe :: "pruning_seed \<Rightarrow> nat option" where
  "get_stripe s = (case s of NotPruned \<Rightarrow> None | Pruned d \<Rightarrow> Some (stripe d))"

definition decompress_p2p_rules :: "nat \<Rightarrow> pruning_error + pruning_seed" where
  "decompress_p2p_rules seed =
     and_then (decompress seed) (\<lambda>s.
       case get_log_stripes s of
         Some ls \<Rightarrow> if ls \<noteq> CRYPTONOTE_PRUNING_LOG_STRIPES then Err LogStripesOutOfRange else Ok s
       | None \<Rightarrow> Ok s)"

definition compress :: "pruning_seed \<Rightarrow> nat" where
  "compress s = (case s of NotPruned \<Rightarrow> 0 | Pruned d \<Rightarrow> dps_compress d)"

definition has_full_block :: "pruning_seed \<Rightarrow> nat \<Rightarrow> nat \<Rightarrow> bool" where
  "has_full_block s height blockchain_height =
     (case s of NotPruned \<Rightarrow> True | Pruned d \<Rightarrow> dps_has_full_block d height blockchain_height)"

definition get_next_pruned_block ::
  "pruning_seed \<Rightarrow> nat \<Rightarrow> nat \<Rightarrow> (pruning_error + nat option) option" where
  "get_next_pruned_block s block_height blockchain_height =
     (case s of
        NotPruned \<Rightarrow> Some (Ok None)
      | Pruned d \<Rightarrow> dps_get_next_pruned_block d block_height blockchain_height)"

definition get_next_unpruned_block ::
  "pruning_seed \<Rightarrow> nat \<Rightarrow> nat \<Rightarrow> (pruning_error + nat) option" where
  "get_next_unpruned_block s block_height blockchain_height =
     (case s of
        NotPruned \<Rightarrow> Some (Ok block_height)
      | Pruned d \<Rightarrow> dps_get_next_unpruned_block d block_height blockchain_height)"

definition pruning_seed_cmp :: "pruning_seed \<Rightarrow> pruning_seed \<Rightarrow> ordering" where
  "pruning_seed_cmp a b =
     (case (a, b) of
        (NotPruned, NotPruned) \<Rightarrow> Equal
      | (NotPruned, Pruned _) \<Rightarrow> Greater
      | (Pruned _, NotPruned) \<Rightarrow> Less
      | (Pruned s1, Pruned s2) \<Rightarrow> dps_cmp s1 s2)"

subsection \<open>Specification\<close>

text \<open>
  The seeds the constructors can produce, and what the two searches promise: the first height from a
  given one on that satisfies a predicate.
\<close>

definition dps_wf :: "decompressed_pruning_seed \<Rightarrow> bool" where
  "dps_wf s \<longleftrightarrow> log_stripes s \<le> 7 \<and> 0 < stripe s \<and> stripe s \<le> 2 ^ log_stripes s"

definition seed_wf :: "pruning_seed \<Rightarrow> bool" where
  "seed_wf s = (case s of NotPruned \<Rightarrow> True | Pruned d \<Rightarrow> dps_wf d)"

definition least_from :: "(nat \<Rightarrow> bool) \<Rightarrow> nat \<Rightarrow> nat \<Rightarrow> bool" where
  "least_from P a h \<longleftrightarrow> a \<le> h \<and> P h \<and> (\<forall>k. a \<le> k \<longrightarrow> k < h \<longrightarrow> \<not> P k)"

lemmas pruning_consts =
  MAX_BLOCK_HEIGHT_USIZE_def CRYPTONOTE_PRUNING_LOG_STRIPES_def CRYPTONOTE_PRUNING_STRIPE_SIZE_def
  CRYPTONOTE_PRUNING_TIP_BLOCKS_def PRUNING_SEED_LOG_STRIPES_SHIFT_def PRUNING_SEED_STRIPE_SHIFT_def
  PRUNING_SEED_LOG_STRIPES_MASK_def PRUNING_SEED_STRIPE_MASK_def

subsection \<open>Lemmas\<close>

lemma stripe_bound: "dps_wf s \<Longrightarrow> stripe s \<le> 128"
proof -
  assume "dps_wf s"
  then have "stripe s \<le> 2 ^ log_stripes s" "log_stripes s \<le> 7"
    by (simp_all add: dps_wf_def)
  moreover from this(2) have "(2::nat) ^ log_stripes s \<le> 2 ^ 7"
    by (rule power_increasing) simp
  ultimately show ?thesis
    by simp
qed

lemma dps_new_Ok:
  "dps_new st ls = Ok s \<longleftrightarrow> s = \<lparr>log_stripes = ls, stripe = st\<rparr> \<and> dps_wf s"
  by (auto simp: dps_new_def dps_wf_def pruning_consts shl_one [simplified])

lemma low_bits:
  "(a::nat) AND 7 = a mod 8" "a AND 127 = a mod 128"
  using and_mask_mod [of a 3] and_mask_mod [of a 7] by simp_all

lemma dps_decompress_Ok:
  "dps_decompress seed = Ok (Some s) \<longleftrightarrow>
     seed \<noteq> 0 \<and> s = \<lparr>log_stripes = seed div 128 mod 8, stripe = 1 + seed mod 128\<rparr> \<and> dps_wf s"
  by (auto simp: dps_decompress_def dps_wf_def pruning_consts low_bits drop_bit_eq_div Let_def
      shl_one [simplified])

lemma decompress_eq:
  "decompress seed =
     (if seed = 0 then Ok NotPruned
      else let ls = seed div 128 mod 8; st = 1 + seed mod 128
           in if 2 ^ ls < st then Err StripeOutOfRange
              else Ok (Pruned \<lparr>log_stripes = ls, stripe = st\<rparr>))"
  by (simp add: decompress_def dps_decompress_def pruning_consts low_bits drop_bit_eq_div Let_def
      shl_one [simplified])

lemma dps_compress_bits:
  assumes "dps_wf s"
  shows "dps_compress s div 128 mod 8 = log_stripes s" "dps_compress s mod 128 = stripe s - 1"
proof -
  have st: "stripe s - 1 < 128" "0 < stripe s"
    using stripe_bound [OF assms] assms by (auto simp: dps_wf_def)
  have ls: "log_stripes s < 8"
    using assms by (simp add: dps_wf_def)
  have c: "dps_compress s = push_bit 7 (log_stripes s) OR (stripe s - 1)"
    using st ls by (simp add: dps_compress_def pruning_consts shl_def push_bit_eq_mult
        take_bit_nat_eq_self rust_arith)
  have "dps_compress s div 128 = drop_bit 7 (dps_compress s)"
    by (simp add: drop_bit_eq_div)
  also have "\<dots> = log_stripes s OR drop_bit 7 (stripe s - 1)"
    by (simp add: c drop_bit_or drop_bit_push_bit)
  also have "drop_bit 7 (stripe s - 1) = 0"
    using st by (simp add: drop_bit_eq_div)
  finally show "dps_compress s div 128 mod 8 = log_stripes s"
    using ls by simp
  have "dps_compress s mod 128 = take_bit 7 (dps_compress s)"
    by (simp add: take_bit_eq_mod)
  also have "\<dots> = take_bit 7 (stripe s - 1)"
    by (simp add: c take_bit_or take_bit_push_bit)
  also have "\<dots> = stripe s - 1"
    using st by (simp add: take_bit_nat_eq_self)
  finally show "dps_compress s mod 128 = stripe s - 1" .
qed

lemma dps_decompress_compress:
  assumes "dps_wf s"
  shows "dps_decompress (dps_compress s) = Ok (if log_stripes s = 0 then None else Some s)"
proof (cases "log_stripes s = 0")
  case True
  with assms have "stripe s = 1"
    by (simp add: dps_wf_def)
  with True show ?thesis
    by (simp add: dps_compress_def dps_decompress_def pruning_consts shl_def rust_arith)
next
  case False
  then have "dps_compress s \<noteq> 0"
    using dps_compress_bits(1) [OF assms] by force
  moreover have "s = \<lparr>log_stripes = log_stripes s, stripe = 1 + (stripe s - 1)\<rparr>"
    using assms by (simp add: dps_wf_def)
  ultimately show ?thesis
    using False assms dps_compress_bits [OF assms] by (simp add: dps_decompress_Ok)
qed

lemma next_residue:
  fixes q L k :: nat
  defines "q' \<equiv> (q div L + (if q mod L < k then 0 else 1)) * L + k"
  assumes "k < L" "k \<noteq> q mod L"
  shows "q < q'" "q' mod L = k" "\<And>j. q \<le> j \<Longrightarrow> j < q' \<Longrightarrow> j mod L \<noteq> k"
proof -
  define d c where "d = q div L" and "c = q mod L"
  have q: "q = d * L + c" and c: "c < L" "k \<noteq> c"
    using assms by (simp_all add: d_def c_def)
  have q': "q' = (if c < k then d * L + k else (d * L + L) + k)"
    by (simp add: q'_def d_def c_def)
  show "q < q'"
    using q c q' by (auto split: if_splits)
  show "q' mod L = k"
    using assms by (simp add: q'_def)
  fix j
  assume j: "q \<le> j" "j < q'"
  show "j mod L \<noteq> k"
  proof
    assume "j mod L = k"
    then have e: "j = j div L * L + k"
      by (metis div_mult_mod_eq)
    show False
    proof (cases "c < k")
      case True
      then have "j < d * L + k"
        using j(2) q' by simp
      then have "j div L * L < d * L"
        using e by linarith
      then have "Suc (j div L) * L \<le> d * L"
        by (intro mult_le_mono1) simp
      with e j(1) q assms(2) show False
        by simp
    next
      case False
      then have "j < Suc d * L + k"
        using j(2) q' by simp
      then have "j div L * L < Suc d * L"
        using e by linarith
      then have "j div L < Suc d"
        by (simp only: mult_less_cancel2)
      then have "j div L * L \<le> d * L"
        by (intro mult_le_mono1) simp
      with e j(1) q c False show False
        by simp
    qed
  qed
qed


lemma block_stripe_eq:
  assumes "ls \<le> 7" "h + 5500 < 2 ^ 64"
  shows "get_block_pruning_stripe h bc ls =
           (if bc \<le> h + 5500 then None else Some (h div 4096 mod 2 ^ ls + 1))"
proof -
  have "h div 4096 mod 2 ^ ls < 2 ^ ls" "(2::nat) ^ ls \<le> 2 ^ 7"
    using power_increasing [OF assms(1), of "2::nat"] by simp_all
  then have "h div 4096 mod 2 ^ ls < 2 ^ 7"
    by (rule less_le_trans)
  then have "Suc (h div 4096 mod 2 ^ ls) < 2 ^ 32"
    by simp
  then show ?thesis
    using assms by (simp add: get_block_pruning_stripe_def pruning_consts rust_arith
        shl_one [simplified] and_mask_mod [simplified] take_bit_nat_eq_self)
qed

lemma dps_has_full_block_iff:
  assumes "dps_wf s" "h + 5500 < 2 ^ 64"
  shows "dps_has_full_block s h bc \<longleftrightarrow>
           bc \<le> h + 5500 \<or> h div 4096 mod 2 ^ log_stripes s = stripe s - 1"
  using assms block_stripe_eq [of "log_stripes s" h bc]
  by (auto simp: dps_has_full_block_def dps_wf_def)

lemma next_stripe_start:
  fixes bh L k :: nat
  assumes "k < L" "k \<noteq> bh div 4096 mod L"
  defines "h \<equiv> (bh div 4096 div L + (if bh div 4096 mod L < k then 0 else 1)) * (4096 * L) + k * 4096"
  shows "least_from (\<lambda>j. j div 4096 mod L = k) bh h"
proof -
  define q' where "q' = (bh div 4096 div L + (if bh div 4096 mod L < k then 0 else 1)) * L + k"
  have h: "h = q' * 4096"
    by (simp add: h_def q'_def algebra_simps)
  note nr = next_residue [OF assms(1,2), folded q'_def]
  have "bh < h"
    using nr(1) unfolding h by (simp add: div_less_iff_less_mult)
  moreover have "j div 4096 mod L \<noteq> k" if "bh \<le> j" "j < h" for j
  proof (rule nr(3))
    show "bh div 4096 \<le> j div 4096"
      using that(1) by (rule div_le_mono)
    show "j div 4096 < q'"
      using that(2) unfolding h by (rule less_mult_imp_div_less)
  qed
  ultimately show ?thesis
    using nr(2) by (simp add: least_from_def h)
qed

lemma dps_next_unpruned:
  assumes wf: "dps_wf s" and bh: "bh \<le> bc" and bc: "bc \<le> MAX_BLOCK_HEIGHT_USIZE"
  shows "\<exists>h. dps_get_next_unpruned_block s bh bc = Some (Ok h) \<and>
             least_from (\<lambda>k. dps_has_full_block s k bc) bh h"
proof (cases "bc \<le> bh + 5500 \<or> bh div 4096 mod 2 ^ log_stripes s = stripe s - 1")
  case True
  have "dps_get_next_unpruned_block s bh bc = Some (Ok bh)"
    using True assms block_stripe_eq [of "log_stripes s" bh bc]
    by (auto simp: dps_get_next_unpruned_block_def pruning_consts dps_wf_def)
  moreover have "dps_has_full_block s bh bc"
    using True assms by (simp add: dps_has_full_block_iff pruning_consts)
  ultimately show ?thesis
    by (auto simp: least_from_def)
next
  case False
  define L where "L = (2::nat) ^ log_stripes s"
  define calc where "calc = (bh div 4096 div L + (if bh div 4096 mod L < stripe s - 1 then 0 else 1))
      * (4096 * L) + (stripe s - 1) * 4096"
  have k: "stripe s - 1 < L" "stripe s - 1 \<noteq> bh div 4096 mod L"
    using wf False by (auto simp: dps_wf_def L_def)
  have lf: "least_from (\<lambda>j. j div 4096 mod L = stripe s - 1) bh calc"
    unfolding calc_def by (rule next_stripe_start [OF k])
  have "L \<le> 2 ^ 7"
    using wf unfolding L_def dps_wf_def by (intro power_increasing) auto
  then have "4096 * 2 ^ log_stripes s < (2::nat) ^ 64"
    by (simp add: L_def)
  then have sh: "shl 64 4096 (log_stripes s) = 4096 * L"
    by (simp add: shl_exact L_def)
  have res: "dps_get_next_unpruned_block s bh bc =
      Some (Ok (if bc < calc + 5500 then bc - 5500 else calc))"
  proof -
    have g: "get_block_pruning_stripe bh bc (log_stripes s) = Some (bh div 4096 mod L + 1)"
      using False assms by (simp add: block_stripe_eq dps_wf_def pruning_consts L_def)
    have ne: "stripe s \<noteq> bh div 4096 mod L + 1"
      and lt: "bh div 4096 mod L < stripe s - 1 \<longleftrightarrow> bh div 4096 mod L + 1 < stripe s"
      using k(2) wf by (auto simp: dps_wf_def)
    have d: "drop_bit (log_stripes s) (bh div 4096) = bh div 4096 div L"
      by (simp add: drop_bit_eq_div L_def)
    have "bh \<le> calc"
      using lf by (simp add: least_from_def)
    then show ?thesis
      using False bh bc ne unfolding dps_get_next_unpruned_block_def g calc_def lt
      by (simp add: pruning_consts Let_def sh d)
  qed
  have full: "dps_has_full_block s j bc \<longleftrightarrow> bc \<le> j + 5500 \<or> j div 4096 mod L = stripe s - 1"
    if "j \<le> bc" for j
    using that bc wf by (simp add: dps_has_full_block_iff pruning_consts L_def)
  show ?thesis
  proof (cases "bc < calc + 5500")
    case True
    then show ?thesis
      using lf False bh res by (auto simp: least_from_def full)
  next
    case False
    then show ?thesis
      using lf bh res by (simp add: least_from_def full)
  qed
qed

lemma dps_new_next_stripe:
  assumes "dps_wf s"
  defines "n \<equiv> \<lparr>log_stripes = log_stripes s, stripe = 1 + stripe s mod 2 ^ log_stripes s\<rparr>"
  shows "dps_new (1 + (stripe s AND (shl 32 1 (log_stripes s) - 1))) (log_stripes s) = Ok n" "dps_wf n"
proof -
  show wf: "dps_wf n"
    using assms by (simp add: dps_wf_def n_def Suc_le_eq)
  have "stripe s AND (shl 32 1 (log_stripes s) - 1) = stripe s mod 2 ^ log_stripes s"
    using assms by (simp add: dps_wf_def shl_one [simplified] and_mask_mod [simplified])
  then show "dps_new (1 + (stripe s AND (shl 32 1 (log_stripes s) - 1))) (log_stripes s) = Ok n"
    using wf by (simp only: dps_new_Ok n_def)
qed

lemma next_stripe_unpruned:
  assumes wf: "dps_wf s" and ls: "0 < log_stripes s"
    and bh: "bh + 5500 < bc" and bc: "bc \<le> MAX_BLOCK_HEIGHT_USIZE"
    and kept: "bh div 4096 mod 2 ^ log_stripes s = stripe s - 1"
    and lf: "least_from (\<lambda>k. dps_has_full_block
        \<lparr>log_stripes = log_stripes s, stripe = 1 + stripe s mod 2 ^ log_stripes s\<rparr> k bc) bh h"
  shows "h \<le> bc - 5500" "\<And>k. bh \<le> k \<Longrightarrow> k < h \<Longrightarrow> k div 4096 mod 2 ^ log_stripes s = stripe s - 1"
    "h < bc - 5500 \<Longrightarrow> h div 4096 mod 2 ^ log_stripes s \<noteq> stripe s - 1"
proof -
  define n where "n = \<lparr>log_stripes = log_stripes s, stripe = 1 + stripe s mod 2 ^ log_stripes s\<rparr>"
  define L where "L = (2::nat) ^ log_stripes s"
  have full: "dps_has_full_block n k bc \<longleftrightarrow> bc \<le> k + 5500 \<or> k div 4096 mod L = stripe s mod L"
    if "k \<le> bc" for k
    using dps_has_full_block_iff [OF dps_new_next_stripe(2) [OF wf], of k bc] that bc
    by (simp add: n_def pruning_consts L_def)
  have lf': "bh \<le> h" "dps_has_full_block n h bc" "\<And>k. bh \<le> k \<Longrightarrow> k < h \<Longrightarrow> \<not> dps_has_full_block n k bc"
    using lf by (auto simp: least_from_def n_def)
  show h: "h \<le> bc - 5500"
  proof (rule ccontr)
    assume "\<not> h \<le> bc - 5500"
    moreover have "bh \<le> bc - 5500" "bc \<le> bc - 5500 + 5500"
      using bh by linarith+
    ultimately show False
      using lf'(3) [of "bc - 5500"] full [of "bc - 5500"] by simp
  qed
  have L: "1 < L"
    using one_less_power [of "2::nat", OF _ ls] by (simp add: L_def)
  have "Suc (bh div 4096) mod L = Suc (stripe s - 1) mod L"
    using mod_Suc_eq [of "bh div 4096" L] kept by (simp add: L_def)
  then have st: "stripe s mod L = (bh div 4096 + 1) mod L"
    using wf by (simp add: dps_wf_def)
  have nxt: "h \<le> (bh div 4096 + 1) * 4096"
  proof (rule ccontr)
    define x where "x = (bh div 4096 + 1) * 4096"
    assume "\<not> h \<le> (bh div 4096 + 1) * 4096"
    then have "x < h" "x \<le> bc"
      using h by (simp_all add: x_def)
    moreover have "bh \<le> x" "x div 4096 = bh div 4096 + 1"
      using dividend_less_div_times [of 4096 bh] by (simp_all add: x_def)
    ultimately show False
      using lf'(3) [of x] full [of x] st by simp
  qed
  show "k div 4096 mod 2 ^ log_stripes s = stripe s - 1" if "bh \<le> k" "k < h" for k
  proof -
    have "bh div 4096 \<le> k div 4096" "k div 4096 < bh div 4096 + 1"
      using that nxt by (auto intro: div_le_mono less_mult_imp_div_less)
    then have "k div 4096 = bh div 4096"
      by simp
    with kept show ?thesis
      by simp
  qed
  assume "h < bc - 5500"
  then have "h \<le> bc" "\<not> bc \<le> h + 5500"
    by linarith+
  then have "h div 4096 mod L = stripe s mod L"
    using lf'(2) full [of h] by blast
  moreover have "stripe s mod L \<noteq> stripe s - 1"
    using wf L by (cases "stripe s = L") (auto simp: dps_wf_def L_def)
  ultimately show "h div 4096 mod 2 ^ log_stripes s \<noteq> stripe s - 1"
    by (simp add: L_def)
qed

lemma dps_next_pruned:
  assumes wf: "dps_wf s" and ls: "0 < log_stripes s"
    and bh: "bh \<le> bc" and bc: "bc \<le> MAX_BLOCK_HEIGHT_USIZE"
  shows "\<exists>r. dps_get_next_pruned_block s bh bc = Some (Ok r) \<and>
           (case r of
              None \<Rightarrow> \<forall>k. bh \<le> k \<longrightarrow> k < bc \<longrightarrow> dps_has_full_block s k bc
            | Some h \<Rightarrow> least_from (\<lambda>k. \<not> dps_has_full_block s k bc) bh h \<or>
                h = bc - 5500 \<and> (\<forall>k. bh \<le> k \<longrightarrow> k < bc \<longrightarrow> dps_has_full_block s k bc))"
proof -
  have full: "dps_has_full_block s k bc \<longleftrightarrow>
      bc \<le> k + 5500 \<or> k div 4096 mod 2 ^ log_stripes s = stripe s - 1" if "k \<le> bc" for k
    using that bc wf by (simp add: dps_has_full_block_iff pruning_consts)
  have tip: "wadd 64 bh 5500 = bh + 5500"
    using bh bc by (simp add: pruning_consts rust_arith)
  consider (tip) "bc \<le> bh + 5500"
    | (pruned) "bh + 5500 < bc" "bh div 4096 mod 2 ^ log_stripes s \<noteq> stripe s - 1"
    | (kept) "bh + 5500 < bc" "bh div 4096 mod 2 ^ log_stripes s = stripe s - 1"
    by linarith
  then show ?thesis
  proof cases
    case tip
    then show ?thesis
      using full \<open>wadd 64 bh 5500 = bh + 5500\<close>
      by (auto simp: dps_get_next_pruned_block_def pruning_consts)
  next
    case pruned
    then have "dps_get_next_pruned_block s bh bc = Some (Ok (Some bh))"
      using wf tip bh bc block_stripe_eq [of "log_stripes s" bh bc]
      by (auto simp: dps_get_next_pruned_block_def pruning_consts dps_wf_def)
    with pruned full bh show ?thesis
      by (auto simp: least_from_def)
  next
    case kept
    define n where "n = \<lparr>log_stripes = log_stripes s, stripe = 1 + stripe s mod 2 ^ log_stripes s\<rparr>"
    obtain h where h: "dps_get_next_unpruned_block n bh bc = Some (Ok h)"
      and lf: "least_from (\<lambda>k. dps_has_full_block n k bc) bh h"
      using dps_next_unpruned [OF dps_new_next_stripe(2) [OF wf] bh bc] unfolding n_def by blast
    note nx = next_stripe_unpruned [OF wf ls kept(1) bc kept(2) lf [unfolded n_def]]
    have "bh \<le> h"
      using lf by (simp add: least_from_def)
    have g: "get_block_pruning_stripe bh bc (log_stripes s) = Some (stripe s)"
      using kept wf bc bh block_stripe_eq [of "log_stripes s" bh bc]
      by (simp add: dps_wf_def pruning_consts)
    have res: "dps_get_next_pruned_block s bh bc = Some (Ok (Some h))"
      using kept(1) tip nx(1) h
      unfolding dps_get_next_pruned_block_def g dps_new_next_stripe(1) [OF wf]
      by (simp add: pruning_consts n_def)
    show ?thesis
    proof (cases "h < bc - 5500")
      case True
      then have "least_from (\<lambda>k. \<not> dps_has_full_block s k bc) bh h"
        using nx \<open>bh \<le> h\<close> by (auto simp: least_from_def full)
      with res show ?thesis
        by simp
    next
      case False
      with nx(1) have eq: "h = bc - 5500"
        by simp
      have "dps_has_full_block s k bc" if "bh \<le> k" "k < bc" for k
      proof (cases "k < h")
        case True
        then show ?thesis
          using nx(2) that by (simp add: full)
      next
        case False
        then have "bc \<le> k + 5500"
          using eq by linarith
        then show ?thesis
          using that by (simp add: full)
      qed
      with res eq show ?thesis
        by simp
    qed
  qed
qed

lemma decompress_wf:
  assumes "decompress seed = Ok s"
  shows "seed_wf s"
proof -
  from assms obtain d where d: "dps_decompress seed = Ok d"
    and s: "s = (case d of None \<Rightarrow> NotPruned | Some x \<Rightarrow> Pruned x)"
    by (auto simp: decompress_def and_then_eq_Inr)
  show ?thesis
  proof (cases d)
    case (Some x)
    with d have "dps_wf x"
      using dps_decompress_Ok [of seed x] by blast
    with s Some show ?thesis
      by (simp add: seed_wf_def)
  qed (simp add: s seed_wf_def)
qed

lemma new_pruned_wf:
  assumes "new_pruned st ls = Ok s"
  shows "seed_wf s"
proof -
  from assms obtain d where "dps_new st ls = Ok d" "s = Pruned d"
    by (auto simp: new_pruned_def and_then_eq_Inr)
  moreover from this(1) have "dps_wf d"
    using dps_new_Ok [of st ls d] by blast
  ultimately show ?thesis
    by (simp add: seed_wf_def)
qed

lemma pruning_seed_cmp_Equal: "pruning_seed_cmp a b = Equal \<longleftrightarrow> a = b"
  by (auto simp: pruning_seed_cmp_def dps_cmp_def cmp_def split: pruning_seed.splits ordering.splits
      if_splits)

text \<open>
  The comment on the seeds' order says that seeds which store more blocks are greater. The order on
  \<open>log_stripes\<close> is the other way round: here a seed that keeps one stripe in eight is greater than one
  that keeps one stripe in two, and every block the greater one keeps is kept by the smaller one.
\<close>

lemma order_prefers_fewer_blocks:
  defines "a \<equiv> \<lparr>log_stripes = 3, stripe = 1\<rparr>" and "b \<equiv> \<lparr>log_stripes = 1, stripe = 1\<rparr>"
  shows "pruning_seed_cmp (Pruned a) (Pruned b) = Greater"
    and "h < bc \<Longrightarrow> bc \<le> MAX_BLOCK_HEIGHT_USIZE \<Longrightarrow>
           has_full_block (Pruned a) h bc \<Longrightarrow> has_full_block (Pruned b) h bc"
    and "\<not> has_full_block (Pruned a) 8192 100000 \<and> has_full_block (Pruned b) 8192 100000"
proof -
  show "pruning_seed_cmp (Pruned a) (Pruned b) = Greater"
    by (simp add: pruning_seed_cmp_def dps_cmp_def cmp_def a_def b_def)
  have wf: "dps_wf a" "dps_wf b"
    by (simp_all add: dps_wf_def a_def b_def)
  show "has_full_block (Pruned b) h bc"
    if "h < bc" "bc \<le> MAX_BLOCK_HEIGHT_USIZE" "has_full_block (Pruned a) h bc"
  proof -
    have "x mod 8 = 0 \<Longrightarrow> x mod 2 = (0::nat)" for x
      by presburger
    with that wf show ?thesis
      by (auto simp: has_full_block_def dps_has_full_block_iff pruning_consts a_def b_def)
  qed
  show "\<not> has_full_block (Pruned a) 8192 100000 \<and> has_full_block (Pruned b) 8192 100000"
    using wf by (simp add: has_full_block_def dps_has_full_block_iff) (simp add: a_def b_def)
qed

text \<open>The equations that evaluate a search on concrete heights.\<close>

lemmas pruning_search_eval =
  get_next_pruned_block_def dps_get_next_pruned_block_def dps_get_next_unpruned_block_def
  has_full_block_def dps_has_full_block_def dps_new_def block_stripe_eq pruning_consts wadd_def shl_def
  push_bit_eq_mult take_bit_eq_mod drop_bit_eq_div Let_def

subsection \<open>Properties\<close>

text \<open>
  C31: for every seed the constructors can build and every chain within the maximum height, the search
  for the next unpruned block returns (it neither fails nor panics) the least height from the given one
  on that a peer with this seed keeps in full.
\<close>

theorem next_unpruned_block_least:
  assumes "seed_wf s" "bh \<le> bc" "bc \<le> MAX_BLOCK_HEIGHT_USIZE"
  shows "\<exists>h. get_next_unpruned_block s bh bc = Some (Ok h) \<and>
             least_from (\<lambda>k. has_full_block s k bc) bh h"
proof (cases s)
  case NotPruned
  then show ?thesis
    by (simp add: get_next_unpruned_block_def has_full_block_def least_from_def)
next
  case (Pruned d)
  with assms(1) have "dps_wf d"
    by (simp add: seed_wf_def)
  from dps_next_unpruned [OF this assms(2,3)] Pruned show ?thesis
    by (simp add: get_next_unpruned_block_def has_full_block_def)
qed

theorem next_unpruned_block_least_witness:
  "\<exists>h. get_next_unpruned_block (Pruned \<lparr>log_stripes = 3, stripe = 4\<rparr>) 5000 100000 = Some (Ok h) \<and>
       least_from (\<lambda>k. has_full_block (Pruned \<lparr>log_stripes = 3, stripe = 4\<rparr>) k 100000) 5000 h"
  by (rule next_unpruned_block_least) (simp_all add: seed_wf_def dps_wf_def pruning_consts)

text \<open>
  For a seed with at least two stripes, the search for the next pruned block returns. A result
  \<open>None\<close> means that no block from the given height on is pruned. A result \<open>Some h\<close> is the least pruned
  height, except that \<open>h\<close> can be the first tip block when nothing from the given height on is pruned.
\<close>

theorem next_pruned_block_spec:
  assumes "dps_wf d" "0 < log_stripes d" "bh \<le> bc" "bc \<le> MAX_BLOCK_HEIGHT_USIZE"
  shows "\<exists>r. get_next_pruned_block (Pruned d) bh bc = Some (Ok r) \<and>
           (case r of
              None \<Rightarrow> \<forall>k. bh \<le> k \<longrightarrow> k < bc \<longrightarrow> has_full_block (Pruned d) k bc
            | Some h \<Rightarrow> least_from (\<lambda>k. \<not> has_full_block (Pruned d) k bc) bh h \<or>
                h = bc - CRYPTONOTE_PRUNING_TIP_BLOCKS \<and>
                (\<forall>k. bh \<le> k \<longrightarrow> k < bc \<longrightarrow> has_full_block (Pruned d) k bc))"
  using dps_next_pruned [OF assms]
  unfolding get_next_pruned_block_def has_full_block_def CRYPTONOTE_PRUNING_TIP_BLOCKS_def
    pruning_seed.case .

theorem next_pruned_block_spec_witness:
  "\<exists>r. get_next_pruned_block (Pruned \<lparr>log_stripes = 3, stripe = 2\<rparr>) 5000 100000 = Some (Ok r) \<and>
     (case r of
        None \<Rightarrow> \<forall>k. 5000 \<le> k \<longrightarrow> k < 100000 \<longrightarrow>
          has_full_block (Pruned \<lparr>log_stripes = 3, stripe = 2\<rparr>) k 100000
      | Some h \<Rightarrow>
          least_from (\<lambda>k. \<not> has_full_block (Pruned \<lparr>log_stripes = 3, stripe = 2\<rparr>) k 100000) 5000 h \<or>
          h = 100000 - CRYPTONOTE_PRUNING_TIP_BLOCKS \<and>
          (\<forall>k. 5000 \<le> k \<longrightarrow> k < 100000 \<longrightarrow>
            has_full_block (Pruned \<lparr>log_stripes = 3, stripe = 2\<rparr>) k 100000))"
  by (rule next_pruned_block_spec) (simp_all add: dps_wf_def pruning_consts)

text \<open>
  That exception does occur, against the comment in the source ("If the calculated height is in
  tip blocks then there is no next block to prune"): on a chain of 9000 blocks the search from block 0
  names block 3500, which is a tip block and kept.
\<close>

lemma next_pruned_block_names_tip_block:
  "get_next_pruned_block (Pruned \<lparr>log_stripes = 3, stripe = 1\<rparr>) 0 9000 = Some (Ok (Some 3500))"
  "has_full_block (Pruned \<lparr>log_stripes = 3, stripe = 1\<rparr>) 3500 9000"
  by (simp_all add: pruning_search_eval)

text \<open>
  With a single stripe (\<open>log_stripes = 0\<close>) nothing is ever pruned, yet the search names the block it
  was given.
\<close>

lemma next_pruned_block_single_stripe:
  "get_next_pruned_block (Pruned \<lparr>log_stripes = 0, stripe = 1\<rparr>) 10 9000 = Some (Ok (Some 10))"
  "has_full_block (Pruned \<lparr>log_stripes = 0, stripe = 1\<rparr>) 10 9000"
  by (simp_all add: pruning_search_eval)

text \<open>
  C32: compressing a seed and decompressing it gives the seed back, except that the seed with a single
  stripe has the encoding of "not pruned".
\<close>

theorem decompress_compress:
  assumes "seed_wf s"
  shows "decompress (compress s) = Ok (if get_log_stripes s = Some 0 then NotPruned else s)"
proof (cases s)
  case NotPruned
  then show ?thesis
    by (simp add: decompress_def compress_def dps_decompress_def get_log_stripes_def)
next
  case (Pruned d)
  with assms have "dps_wf d"
    by (simp add: seed_wf_def)
  from dps_decompress_compress [OF this] Pruned show ?thesis
    by (simp add: decompress_def compress_def get_log_stripes_def)
qed

theorem decompress_compress_witness:
  "decompress (compress (Pruned \<lparr>log_stripes = 3, stripe = 8\<rparr>)) = Ok (Pruned \<lparr>log_stripes = 3, stripe = 8\<rparr>)"
  using decompress_compress [of "Pruned \<lparr>log_stripes = 3, stripe = 8\<rparr>"]
  by (simp add: seed_wf_def dps_wf_def get_log_stripes_def)

text \<open>
  The p2p rules accept exactly 0 (not pruned) and the seeds whose bits 7 to 9 are 3 and whose low
  seven bits are below 8, and they return that stripe; the higher bits are ignored.
\<close>

theorem decompress_p2p_rules_accepts:
  "decompress_p2p_rules seed = Ok s \<longleftrightarrow>
     seed = 0 \<and> s = NotPruned \<or>
     seed div 128 mod 8 = 3 \<and> seed mod 128 < 8 \<and>
     s = Pruned \<lparr>log_stripes = 3, stripe = 1 + seed mod 128\<rparr>"
  unfolding decompress_p2p_rules_def decompress_eq get_log_stripes_def pruning_consts Let_def
  by (cases "seed div 128 mod 8 = 3") auto

end
