(* ===== verification/Medians.thy ===== *)
theory Medians
  imports Prelude "HOL-Library.Multiset"
begin

text \<open>
  Medians: \<^verbatim>\<open>src/helper/src/num.rs\<close> (\<open>get_mid\<close>, \<open>median\<close>) and
  \<^verbatim>\<open>src/helper/src/num/rolling_median.rs\<close> (\<open>RollingMedian\<close>), at the unsigned types the node uses them
  with. A \<open>VecDeque\<close> and a \<open>Vec\<close> are lists; \<open>None\<close> is a panic.

  The locale \<open>rolling_window\<close> is what a client of a rolling window relies on: which list the window is
  after each operation. Its derived lemmas (many pushes, many pops, pops followed by an append at the
  front) are proved there once and reach the block-weight cache through the interpretation on
  \<open>RollingMedian\<close>. The theorems: \<open>get_mid\<close> is the rounded-down mean with no overflow, \<open>median\<close> splits
  the values in halves, and the sorted copy \<open>RollingMedian\<close> keeps is always the sorted window.
\<close>

subsection \<open>get_mid and median\<close>

definition get_mid :: "nat \<Rightarrow> nat \<Rightarrow> nat" where
  "get_mid a b = a div 2 + b div 2 + ((a - 2 * (a div 2)) + (b - 2 * (b div 2))) div 2"

text \<open>On an empty slice \<open>mid - 1\<close> is out of bounds and the index panics.\<close>

definition median :: "nat list \<Rightarrow> nat option" where
  "median array =
     (let len = length array; mid = len div 2 in
      if len = 1 then Some (array ! 0)
      else if len mod 2 = 0
      then (if len = 0 then None else Some (get_mid (array ! (mid - 1)) (array ! mid)))
      else Some (array ! mid))"

subsection \<open>RollingMedian\<close>

record rolling_median =
  window :: "nat list"
  sorted_window :: "nat list"
  target_window :: nat

definition rm_new :: "nat \<Rightarrow> rolling_median" where
  "rm_new t = \<lparr>window = [], sorted_window = [], target_window = t\<rparr>"

definition rm_from_vec :: "nat list \<Rightarrow> nat \<Rightarrow> rolling_median option" where
  "rm_from_vec vec t =
     (if length vec \<le> t
      then Some \<lparr>window = vec, sorted_window = sort vec, target_window = t\<rparr>
      else None)"

definition rm_pop_front :: "rolling_median \<Rightarrow> rolling_median option" where
  "rm_pop_front m =
     (case window m of
        [] \<Rightarrow> Some m
      | item # w \<Rightarrow>
          (case binary_search (sorted_window m) item of
             Inr idx \<Rightarrow> Some (m\<lparr>window := w, sorted_window := vec_remove idx (sorted_window m)\<rparr>)
           | Inl _ \<Rightarrow> None))"

definition rm_pop_back :: "rolling_median \<Rightarrow> rolling_median option" where
  "rm_pop_back m =
     (if window m = [] then Some m
      else case binary_search (sorted_window m) (last (window m)) of
             Inr idx \<Rightarrow> Some (m\<lparr>window := butlast (window m), sorted_window := vec_remove idx (sorted_window m)\<rparr>)
           | Inl _ \<Rightarrow> None)"

definition insert_sorted :: "nat \<Rightarrow> nat list \<Rightarrow> nat list" where
  "insert_sorted item s = (case binary_search s item of Inr idx \<Rightarrow> vec_insert idx item s | Inl idx \<Rightarrow> vec_insert idx item s)"

definition rm_push :: "rolling_median \<Rightarrow> nat \<Rightarrow> rolling_median option" where
  "rm_push m item =
     do {
       m \<leftarrow> (if target_window m \<le> length (window m) then rm_pop_front m else Some m);
       Some (m\<lparr>window := window m @ [item], sorted_window := insert_sorted item (sorted_window m)\<rparr>)
     }"

definition rm_push_front :: "rolling_median \<Rightarrow> nat \<Rightarrow> rolling_median option" where
  "rm_push_front m item =
     (let m = m\<lparr>window := item # window m, sorted_window := insert_sorted item (sorted_window m)\<rparr>
      in if target_window m < length (window m) then rm_pop_back m else Some m)"

fun rm_append_front_rev :: "rolling_median \<Rightarrow> nat list \<Rightarrow> rolling_median option" where
  "rm_append_front_rev m [] = Some m"
| "rm_append_front_rev m (item # items) = do { m \<leftarrow> rm_push_front m item; rm_append_front_rev m items }"

definition rm_append_front :: "rolling_median \<Rightarrow> nat list \<Rightarrow> rolling_median option" where
  "rm_append_front m items = rm_append_front_rev m (rev items)"

definition rm_window_len :: "rolling_median \<Rightarrow> nat" where
  "rm_window_len m = length (window m)"

definition rm_median :: "rolling_median \<Rightarrow> nat option" where
  "rm_median m = median (sorted_window m)"

text \<open>The invariant: the sorted copy is the sorted window.\<close>

definition rm_wf :: "rolling_median \<Rightarrow> bool" where
  "rm_wf m \<longleftrightarrow> sorted_window m = sort (window m)"

text \<open>A sequence of operations on a rolling median, and what each does to the window.\<close>

datatype rm_op = Push nat | PopFront | PopBack | AppendFront "nat list"

fun rm_apply :: "rolling_median \<Rightarrow> rm_op \<Rightarrow> rolling_median option" where
  "rm_apply m (Push x) = rm_push m x"
| "rm_apply m PopFront = rm_pop_front m"
| "rm_apply m PopBack = rm_pop_back m"
| "rm_apply m (AppendFront xs) = rm_append_front m xs"

fun rm_run :: "rolling_median \<Rightarrow> rm_op list \<Rightarrow> rolling_median option" where
  "rm_run m [] = Some m"
| "rm_run m (op # ops) = do { m \<leftarrow> rm_apply m op; rm_run m ops }"

fun window_spec :: "nat \<Rightarrow> nat list \<Rightarrow> rm_op \<Rightarrow> nat list" where
  "window_spec t w (Push x) = last_n t (w @ [x])"
| "window_spec t w PopFront = tl w"
| "window_spec t w PopBack = butlast w"
| "window_spec t w (AppendFront xs) = take t (xs @ w)"

subsection \<open>The contract of a rolling window\<close>

locale rolling_window =
  fixes valid :: "'m \<Rightarrow> bool"
    and items :: "'m \<Rightarrow> 'a list"
    and target :: "'m \<Rightarrow> nat"
    and push :: "'m \<Rightarrow> 'a \<Rightarrow> 'm option"
    and pop_back :: "'m \<Rightarrow> 'm option"
    and append_front :: "'m \<Rightarrow> 'a list \<Rightarrow> 'm option"
  assumes push_law: "valid m \<Longrightarrow> 0 < target m \<Longrightarrow> length (items m) \<le> target m \<Longrightarrow>
      \<exists>m'. push m x = Some m' \<and> valid m' \<and> target m' = target m \<and> items m' = last_n (target m) (items m @ [x])"
    and pop_back_law: "valid m \<Longrightarrow>
      \<exists>m'. pop_back m = Some m' \<and> valid m' \<and> target m' = target m \<and> items m' = butlast (items m)"
    and append_front_law: "valid m \<Longrightarrow> length (items m) \<le> target m \<Longrightarrow>
      \<exists>m'. append_front m xs = Some m' \<and> valid m' \<and> target m' = target m \<and> items m' = take (target m) (xs @ items m)"
begin

primrec pushes :: "'m \<Rightarrow> 'a list \<Rightarrow> 'm option" where
  "pushes m [] = Some m"
| "pushes m (x # xs) = Option.bind (push m x) (\<lambda>m. pushes m xs)"

primrec pops :: "nat \<Rightarrow> 'm \<Rightarrow> 'm option" where
  "pops 0 m = Some m"
| "pops (Suc n) m = Option.bind (pop_back m) (pops n)"

lemma pushes_items:
  "valid m \<Longrightarrow> 0 < target m \<Longrightarrow> length (items m) \<le> target m \<Longrightarrow>
   \<exists>m'. pushes m xs = Some m' \<and> valid m' \<and> target m' = target m \<and> items m' = last_n (target m) (items m @ xs)"
proof (induction xs arbitrary: m)
  case Nil
  then show ?case
    by (simp add: last_n_all)
next
  case (Cons x xs)
  obtain m1 where m1: "push m x = Some m1" "valid m1" "target m1 = target m"
      "items m1 = last_n (target m) (items m @ [x])"
    using push_law [OF Cons.prems] by blast
  obtain m2 where "pushes m1 xs = Some m2" "valid m2" "target m2 = target m"
      "items m2 = last_n (target m) (last_n (target m) (items m @ [x]) @ xs)"
    using Cons.IH [of m1] m1 Cons.prems(2) by auto
  with m1(1) show ?case
    by (simp add: last_n_last_n)
qed

lemma pops_items:
  "valid m \<Longrightarrow>
   \<exists>m'. pops n m = Some m' \<and> valid m' \<and> target m' = target m \<and> items m' = take (length (items m) - n) (items m)"
proof (induction n arbitrary: m)
  case (Suc n)
  obtain m1 where m1: "pop_back m = Some m1" "valid m1" "target m1 = target m" "items m1 = butlast (items m)"
    using pop_back_law [OF Suc.prems] by blast
  have "take (length (butlast (items m)) - n) (butlast (items m)) = take (length (items m) - Suc n) (items m)"
    by (simp add: butlast_conv_take)
  with Suc.IH [OF m1(2)] m1 show ?case
    by simp
qed simp

text \<open>Popping from the back and refilling at the front, the pattern of a reorganisation.\<close>

lemma pops_append_front:
  assumes "valid m" "length (items m) \<le> target m"
    and "length xs + (length (items m) - n) \<le> target m"
  shows "\<exists>m'. Option.bind (pops n m) (\<lambda>m. append_front m xs) = Some m' \<and> valid m' \<and>
    target m' = target m \<and> items m' = xs @ take (length (items m) - n) (items m)"
proof -
  obtain m1 where m1: "pops n m = Some m1" "valid m1" "target m1 = target m"
      "items m1 = take (length (items m) - n) (items m)"
    using pops_items [OF assms(1)] by blast
  have "length (items m1) \<le> target m1"
    using assms(2) m1 by simp
  then obtain m2 where "append_front m1 xs = Some m2" "valid m2" "target m2 = target m1"
      "items m2 = take (target m1) (xs @ items m1)"
    using append_front_law [OF m1(2)] by blast
  then show ?thesis
    using m1 assms(2,3) by auto
qed

end

subsection \<open>Facts on medians\<close>

lemma get_mid_mean: "get_mid a b = (a + b) div 2"
  by (simp add: get_mid_def minus_mult_div_eq_mod) presburger

lemma get_mid_bounds: "a \<le> b \<Longrightarrow> a \<le> get_mid a b \<and> get_mid a b \<le> b"
  by (simp add: get_mid_mean) presburger

lemma median_None_iff: "median xs = None \<longleftrightarrow> xs = []"
  by (simp add: median_def Let_def)

text \<open>The two neighbours of the middle that enclose the median.\<close>

lemma median_between:
  assumes "sorted xs" "median xs = Some m"
  shows "xs \<noteq> []" "xs ! ((length xs - 1) div 2) \<le> m" "m \<le> xs ! (length xs div 2)"
proof -
  show ne: "xs \<noteq> []"
    using assms(2) by (auto simp: median_def)
  consider "length xs = 1" | "length xs mod 2 = 0" "length xs \<noteq> 0" | "length xs mod 2 = 1" "length xs \<noteq> 1"
    using ne not_mod_2_eq_0_eq_1 [of "length xs"] by (metis length_0_conv)
  then have "xs ! ((length xs - 1) div 2) \<le> m \<and> m \<le> xs ! (length xs div 2)"
  proof cases
    case 1
    then show ?thesis
      using assms(2) by (simp add: median_def)
  next
    case 2
    then have half: "(length xs - 1) div 2 = length xs div 2 - 1" "length xs div 2 < length xs"
      by presburger+
    then have "xs ! (length xs div 2 - 1) \<le> xs ! (length xs div 2)"
      using sorted_nth_mono [OF assms(1), of "length xs div 2 - 1" "length xs div 2"] by simp
    moreover have "m = get_mid (xs ! (length xs div 2 - 1)) (xs ! (length xs div 2))"
    proof -
      have "length xs \<noteq> 1"
        using 2 by auto
      then show ?thesis
        using assms(2) 2 unfolding median_def Let_def by simp
    qed
    ultimately show ?thesis
      using get_mid_bounds half(1) by simp
  next
    case 3
    then have "(length xs - 1) div 2 = length xs div 2"
      by presburger
    with 3 show ?thesis
      using assms(2) by (auto simp: median_def Let_def split: if_splits)
  qed
  then show "xs ! ((length xs - 1) div 2) \<le> m" "m \<le> xs ! (length xs div 2)"
    by auto
qed

lemma sorted_count_less:
  assumes "sorted xs" "k < length xs" "m \<le> xs ! k"
  shows "length (filter (\<lambda>x. x < m) xs) \<le> k"
proof -
  have "m \<le> x" if x: "x \<in> set (drop k xs)" for x
  proof -
    obtain i where "k + i < length xs" "x = xs ! (k + i)"
      using x assms(2) by (metis in_set_conv_nth length_drop less_diff_conv add.commute nth_drop less_imp_le)
    then show ?thesis
      using assms(3) sorted_nth_mono [OF assms(1), of k "k + i"] by simp
  qed
  then have "filter (\<lambda>x. x < m) (drop k xs) = []"
    by (auto simp: filter_empty_conv not_less)
  then have "filter (\<lambda>x. x < m) xs = filter (\<lambda>x. x < m) (take k xs)"
    by (metis append_Nil2 append_take_drop_id filter_append)
  then show ?thesis
    by (metis length_filter_le length_take min.cobounded2 min.commute order_trans)
qed

lemma sorted_count_greater:
  assumes "sorted xs" "k < length xs" "xs ! k \<le> m"
  shows "length (filter (\<lambda>x. m < x) xs) \<le> length xs - Suc k"
proof -
  have "x \<le> m" if x: "x \<in> set (take (Suc k) xs)" for x
  proof -
    obtain i where "i \<le> k" "x = xs ! i"
      using x by (metis in_set_conv_nth length_take less_Suc_eq_le min_less_iff_conj nth_take)
    then show ?thesis
      using assms(2,3) sorted_nth_mono [OF assms(1), of i k] by simp
  qed
  then have "filter (\<lambda>x. m < x) (take (Suc k) xs) = []"
    by (auto simp: filter_empty_conv not_less)
  then have "filter (\<lambda>x. m < x) xs = filter (\<lambda>x. m < x) (drop (Suc k) xs)"
    by (metis append_Nil append_take_drop_id filter_append)
  then show ?thesis
    by (metis length_drop length_filter_le)
qed

subsection \<open>Facts on RollingMedian\<close>

lemma vec_remove_mset: "i < length xs \<Longrightarrow> mset (vec_remove i xs) = mset xs - {#xs ! i#}"
proof -
  assume "i < length xs"
  then have "mset xs = mset (take i xs @ xs ! i # drop (Suc i) xs)"
    by (metis id_take_nth_drop)
  then show ?thesis
    by (simp add: vec_remove_def)
qed

lemma sorted_vec_remove: "sorted xs \<Longrightarrow> sorted (vec_remove i xs)"
proof -
  assume "sorted xs"
  then have "sorted (take i xs @ drop i xs)"
    by simp
  then have "sorted (take i xs @ tl (drop i xs))"
    unfolding sorted_append by (cases "drop i xs") auto
  then show ?thesis
    by (simp add: vec_remove_def drop_Suc drop_tl)
qed

lemma mset_vec_insert: "mset (vec_insert i x xs) = add_mset x (mset xs)"
proof -
  have "mset xs = mset (take i xs) + mset (drop i xs)"
    by (metis append_take_drop_id mset_append)
  then show ?thesis
    by (simp add: vec_insert_def)
qed

lemma sorted_vec_insert:
  assumes "sorted xs" "i \<le> length xs" "\<forall>j < i. xs ! j \<le> x" "\<forall>j < length xs. i \<le> j \<longrightarrow> x \<le> xs ! j"
  shows "sorted (vec_insert i x xs)"
proof -
  have "\<forall>y \<in> set (take i xs). y \<le> x" "\<forall>y \<in> set (drop i xs). x \<le> y"
    using assms(2-4) by (auto simp: in_set_conv_nth)
  moreover have "sorted (take i xs @ drop i xs)"
    using assms(1) by simp
  ultimately show ?thesis
    unfolding vec_insert_def sorted_append by auto
qed

lemma insert_sorted_sort: "insert_sorted x (sort xs) = sort (x # xs)"
proof -
  have "\<exists>i. insert_sorted x (sort xs) = vec_insert i x (sort xs) \<and> sorted (vec_insert i x (sort xs))"
  proof (cases "binary_search (sort xs) x")
    case (Inl i)
    from binary_search_Err [OF this] show ?thesis
      by (intro exI [of _ i] conjI sorted_vec_insert) (auto simp: insert_sorted_def Inl less_imp_le)
  next
    case (Inr i)
    then have i: "i < length (sort xs)" "sort xs ! i = x"
      using binary_search_Ok [OF Inr] by auto
    have "\<forall>j < i. sort xs ! j \<le> x" "\<forall>j < length (sort xs). i \<le> j \<longrightarrow> x \<le> sort xs ! j"
      using i sorted_nth_mono [of "sort xs"] by auto
    then show ?thesis
      using i by (intro exI [of _ i] conjI sorted_vec_insert) (auto simp: insert_sorted_def Inr)
  qed
  then show ?thesis
    using properties_for_sort [of "insert_sorted x (sort xs)" "x # xs"] by (auto simp: mset_vec_insert)
qed

lemma remove_sorted_sort:
  assumes "x \<in> set xs"
  shows "\<exists>i. binary_search (sort xs) x = Inr i \<and> (\<forall>ys. mset ys = mset xs - {#x#} \<longrightarrow> vec_remove i (sort xs) = sort ys)"
proof -
  obtain i where bs: "binary_search (sort xs) x = Inr i"
    using assms binary_search_found_iff [of "sort xs" x] by auto
  then have "i < length (sort xs)" "sort xs ! i = x"
    using binary_search_Ok [OF bs] by auto
  then have "mset (vec_remove i (sort xs)) = mset xs - {#x#}"
    by (simp add: vec_remove_mset)
  then show ?thesis
    using bs properties_for_sort [of "vec_remove i (sort xs)"] by (auto simp: sorted_vec_remove)
qed

lemma rm_pop_front_eq:
  assumes "rm_wf m"
  shows "rm_pop_front m = Some (m\<lparr>window := tl (window m), sorted_window := sort (tl (window m))\<rparr>)"
proof (cases "window m")
  case Nil
  with assms show ?thesis
    by (simp add: rm_pop_front_def rm_wf_def)
next
  case (Cons x w)
  then obtain i where "binary_search (sort (x # w)) x = Inr i" "vec_remove i (sort (x # w)) = sort w"
    using remove_sorted_sort [of x "x # w"] by auto
  with assms Cons show ?thesis
    by (simp add: rm_pop_front_def rm_wf_def del: sort_key_simps)
qed

lemma rm_pop_back_eq:
  assumes "rm_wf m"
  shows "rm_pop_back m = Some (m\<lparr>window := butlast (window m), sorted_window := sort (butlast (window m))\<rparr>)"
proof (cases "window m" rule: rev_cases)
  case Nil
  with assms show ?thesis
    by (simp add: rm_pop_back_def rm_wf_def)
next
  case (snoc w x)
  then obtain i where "binary_search (sort (w @ [x])) x = Inr i" "vec_remove i (sort (w @ [x])) = sort w"
    using remove_sorted_sort [of x "w @ [x]"] by auto
  with assms snoc show ?thesis
    by (simp add: rm_pop_back_def rm_wf_def)
qed

lemma sort_snoc_Cons: "sort (x # xs) = sort (xs @ [x])"
  by (rule properties_for_sort) simp_all

lemma rm_push_eq:
  assumes "rm_wf m"
  shows "rm_push m x =
    (let w = (if target_window m \<le> length (window m) then tl (window m) else window m) @ [x]
     in Some (m\<lparr>window := w, sorted_window := sort w\<rparr>))"
  using assms rm_pop_front_eq [OF assms]
  by (auto simp: rm_push_def rm_wf_def Let_def insert_sorted_sort sort_snoc_Cons simp del: sort_key_simps)

lemma rm_push_front_eq:
  assumes "rm_wf m" "length (window m) \<le> target_window m"
  shows "rm_push_front m x =
    (let w = take (target_window m) (x # window m) in Some (m\<lparr>window := w, sorted_window := sort w\<rparr>))"
proof -
  define m' where "m' = m\<lparr>window := x # window m, sorted_window := insert_sorted x (sorted_window m)\<rparr>"
  have wf: "rm_wf m'"
    using assms(1) by (simp add: m'_def rm_wf_def insert_sorted_sort del: sort_key_simps)
  show ?thesis
  proof (cases "target_window m < length (window m')")
    case True
    then have "length (window m) = target_window m"
      using assms(2) by (simp add: m'_def)
    then have "butlast (window m') = take (target_window m) (x # window m)"
      by (simp add: m'_def butlast_conv_take)
    then show ?thesis
      using True rm_pop_back_eq [OF wf] unfolding m'_def rm_push_front_def Let_def by simp
  next
    case False
    then show ?thesis
      using wf unfolding m'_def rm_push_front_def Let_def rm_wf_def by simp
  qed
qed

lemma rm_append_front_eq:
  assumes "rm_wf m" "length (window m) \<le> target_window m"
  shows "rm_append_front m xs =
    (let w = take (target_window m) (xs @ window m) in Some (m\<lparr>window := w, sorted_window := sort w\<rparr>))"
proof -
  have "rm_append_front_rev m ys =
      (let w = take (target_window m) (rev ys @ window m) in Some (m\<lparr>window := w, sorted_window := sort w\<rparr>))" for ys
    using assms
  proof (induction ys arbitrary: m)
    case Nil
    then show ?case
      by (simp add: rm_wf_def)
  next
    case (Cons y ys)
    let ?w = "take (target_window m) (y # window m)"
    let ?m = "m\<lparr>window := ?w, sorted_window := sort ?w\<rparr>"
    have "take (target_window m) (rev ys @ ?w) = take (target_window m) (rev ys @ y # window m)"
      by simp
    then show ?case
      using Cons.IH [of ?m] Cons.prems by (simp add: rm_push_front_eq rm_wf_def Let_def del: sort_key_simps)
  qed
  then show ?thesis
    by (simp add: rm_append_front_def)
qed

interpretation rm: rolling_window rm_wf window target_window rm_push rm_pop_back rm_append_front
proof
  fix m x
  assume m: "rm_wf m" "0 < target_window m" "length (window m) \<le> target_window m"
  then have "(if target_window m \<le> length (window m) then tl (window m) else window m) @ [x] =
      last_n (target_window m) (window m @ [x])"
    by (auto simp: last_n_append_tl last_n_all)
  then show "\<exists>m'. rm_push m x = Some m' \<and> rm_wf m' \<and> target_window m' = target_window m \<and>
      window m' = last_n (target_window m) (window m @ [x])"
    by (simp add: rm_push_eq [OF m(1)] Let_def rm_wf_def)
qed (auto simp: rm_pop_back_eq rm_append_front_eq rm_wf_def Let_def)

lemma rm_from_vec_eq:
  "length v \<le> t \<Longrightarrow> \<exists>m. rm_from_vec v t = Some m \<and> rm_wf m \<and> window m = v \<and> target_window m = t"
  by (simp add: rm_from_vec_def rm_wf_def)

lemma rm_wf_eqI:
  "rm_wf a \<Longrightarrow> rm_wf b \<Longrightarrow> window a = window b \<Longrightarrow> target_window a = target_window b \<Longrightarrow> (a :: rolling_median) = b"
  by (simp add: rm_wf_def)

lemma rm_apply_spec:
  assumes "rm_wf m" "0 < target_window m" "length (window m) \<le> target_window m"
  shows "\<exists>m'. rm_apply m op = Some m' \<and> rm_wf m' \<and> target_window m' = target_window m \<and>
    window m' = window_spec (target_window m) (window m) op \<and> length (window m') \<le> target_window m"
proof (cases op)
  case (Push x)
  then show ?thesis
    using rm.push_law [OF assms, of x] by auto
next
  case PopFront
  then show ?thesis
    using assms by (auto simp: rm_pop_front_eq rm_wf_def)
next
  case PopBack
  then show ?thesis
    using assms(3) rm.pop_back_law [OF assms(1)] by auto
next
  case (AppendFront xs)
  then show ?thesis
    using rm.append_front_law [OF assms(1,3), of xs] by auto
qed

lemma rm_run_spec:
  assumes "rm_wf m" "0 < target_window m" "length (window m) \<le> target_window m"
  shows "\<exists>m'. rm_run m ops = Some m' \<and> rm_wf m' \<and> length (window m') \<le> target_window m \<and>
    window m' = foldl (window_spec (target_window m)) (window m) ops"
  using assms
proof (induction ops arbitrary: m)
  case (Cons op ops)
  from rm_apply_spec [OF Cons.prems, of op] obtain m1 where m1: "rm_apply m op = Some m1" "rm_wf m1"
      "target_window m1 = target_window m" "window m1 = window_spec (target_window m) (window m) op"
      "length (window m1) \<le> target_window m"
    by blast
  with Cons.IH [of m1] Cons.prems(2) show ?case
    by auto
qed simp

subsection \<open>Properties\<close>

text \<open>
  C29: Whatever sequence of pushes, pops and front appends is applied to a \<open>RollingMedian\<close> made by
  \<open>from_vec\<close> with a positive target, nothing panics, the window is the list the operations describe (a push
  keeps the newest \<open>target\<close> items, a front append the oldest), it never exceeds the target, the sorted
  copy is the sorted window, and the median is the median of that window.
\<close>

theorem rolling_median_refines_window:
  assumes "0 < t" "length v \<le> t"
  shows "\<exists>m. Option.bind (rm_from_vec v t) (\<lambda>m. rm_run m ops) = Some m \<and>
    window m = foldl (window_spec t) v ops \<and> length (window m) \<le> t \<and>
    sorted_window m = sort (window m) \<and> rm_median m = median (sort (foldl (window_spec t) v ops))"
proof -
  obtain m where "rm_from_vec v t = Some m" "rm_wf m" "window m = v" "target_window m = t"
    using rm_from_vec_eq [OF assms(2)] by blast
  with rm_run_spec [of m ops] assms show ?thesis
    by (auto simp: rm_wf_def rm_median_def)
qed

theorem rolling_median_refines_window_witness:
  "\<exists>m. Option.bind (rm_from_vec [4, 1] 2) (\<lambda>m. rm_run m [Push 3, PopBack, AppendFront [7, 9]]) = Some m \<and>
    window m = [7, 9] \<and> rm_median m = Some 8"
  using rolling_median_refines_window [of 2 "[4, 1]" "[Push 3, PopBack, AppendFront [7, 9]]"]
  by (auto simp: last_n_def median_def Let_def get_mid_def)

text \<open>
  On a sorted non-empty slice \<open>median\<close> returns (it panics only on an empty one), and at most half of
  the values lie below the returned number and at most half above it.
\<close>

theorem median_splits:
  assumes "sorted xs" "xs \<noteq> []"
  shows "\<exists>m. median xs = Some m \<and>
    2 * length (filter (\<lambda>x. x < m) xs) \<le> length xs \<and> 2 * length (filter (\<lambda>x. m < x) xs) \<le> length xs"
proof -
  obtain m where m: "median xs = Some m"
    using assms(2) median_None_iff [of xs] by (cases "median xs") auto
  note b = median_between [OF assms(1) m]
  have "length (filter (\<lambda>x. x < m) xs) \<le> length xs div 2"
    using sorted_count_less [OF assms(1) _ b(3)] assms(2) by simp
  moreover have "length (filter (\<lambda>x. m < x) xs) \<le> length xs - Suc ((length xs - 1) div 2)"
    using assms(2) by (intro sorted_count_greater [OF assms(1) _ b(2)]) (cases xs; auto)
  ultimately show ?thesis
    using m by (intro exI [of _ m]) linarith
qed

theorem median_splits_witness:
  "\<exists>m. median [1, 2, 3, 4, 5, 6, 7, 8, 9, 10] = Some m \<and>
    2 * length (filter (\<lambda>x. x < m) [1, 2, 3, 4, 5, 6, 7, 8, 9, 10]) \<le> length [1::nat, 2, 3, 4, 5, 6, 7, 8, 9, 10] \<and>
    2 * length (filter (\<lambda>x. m < x) [1, 2, 3, 4, 5, 6, 7, 8, 9, 10]) \<le> length [1::nat, 2, 3, 4, 5, 6, 7, 8, 9, 10]"
  by (rule median_splits) simp_all

end
