(* ===== verification/Hard_Forks.thy ===== *)
theory Hard_Forks
  imports Prelude
begin

text \<open>
  Hard forks and their votes: \<^verbatim>\<open>src/types/types/src/hard_fork.rs\<close> (the \<open>HardFork\<close> enum) and
  \<^verbatim>\<open>src/consensus/rules/src/hard_forks.rs\<close> (\<open>HFInfo\<close>, \<open>HFsInfo\<close>, \<open>HFVotes\<close>). The arrays of sixteen entries are
  lists whose length the invariants fix.

  The theorems: the counters of \<open>HFVotes\<close> always equal the number of votes in the window, the window
  holds the last \<open>window_size\<close> votes, popping blocks and putting the older votes back restores it, and
  \<open>current_fork\<close> stops at the first fork that is not activated; with the main-net table it depends on the
  height alone.
\<close>

subsection \<open>The HardFork enum\<close>

datatype hard_fork =
  V1 | V2 | V3 | V4 | V5 | V6 | V7 | V8 | V9 | V10 | V11 | V12 | V13 | V14 | V15 | V16

datatype hard_fork_error = HardForkUnknown | VersionIncorrect | VoteTooLow

definition VARIANTS :: "hard_fork list" where
  "VARIANTS = [V1, V2, V3, V4, V5, V6, V7, V8, V9, V10, V11, V12, V13, V14, V15, V16]"

fun as_u8 :: "hard_fork \<Rightarrow> nat" where
  "as_u8 V1 = 1" | "as_u8 V2 = 2" | "as_u8 V3 = 3" | "as_u8 V4 = 4"
| "as_u8 V5 = 5" | "as_u8 V6 = 6" | "as_u8 V7 = 7" | "as_u8 V8 = 8"
| "as_u8 V9 = 9" | "as_u8 V10 = 10" | "as_u8 V11 = 11" | "as_u8 V12 = 12"
| "as_u8 V13 = 13" | "as_u8 V14 = 14" | "as_u8 V15 = 15" | "as_u8 V16 = 16"

definition LATEST :: hard_fork where
  "LATEST = VARIANTS ! (length VARIANTS - 1)"

definition from_repr :: "nat \<Rightarrow> hard_fork option" where
  "from_repr v = (if 1 \<le> v \<and> v \<le> 16 then Some (VARIANTS ! (v - 1)) else None)"

definition from_version :: "nat \<Rightarrow> hard_fork_error + hard_fork" where
  "from_version version = (case from_repr version of Some this \<Rightarrow> Ok this | None \<Rightarrow> Err HardForkUnknown)"

definition from_vote :: "nat \<Rightarrow> hard_fork" where
  "from_vote vote =
     (if vote = 0 then V1
      else case from_version vote of Inr hf \<Rightarrow> hf | Inl _ \<Rightarrow> LATEST)"

record block_header =
  hardfork_version :: nat
  hardfork_signal :: nat
  hdr_timestamp :: nat
  previous :: "8 word list"
  nonce :: nat

definition from_block_header :: "block_header \<Rightarrow> hard_fork_error + (hard_fork \<times> hard_fork)" where
  "from_block_header header =
     and_then (from_version (hardfork_version header)) (\<lambda>v. Ok (v, from_vote (hardfork_signal header)))"

definition next_fork :: "hard_fork \<Rightarrow> hard_fork option" where
  "next_fork hf = (case from_version (as_u8 hf + 1) of Inr n \<Rightarrow> Some n | Inl _ \<Rightarrow> None)"

definition BLOCK_TIME_V1 :: nat where
  "BLOCK_TIME_V1 = 60"

definition BLOCK_TIME_V2 :: nat where
  "BLOCK_TIME_V2 = 120"

definition block_time :: "hard_fork \<Rightarrow> nat" where
  "block_time hf = (case hf of V1 \<Rightarrow> BLOCK_TIME_V1 | _ \<Rightarrow> BLOCK_TIME_V2)"

definition is_latest :: "hard_fork \<Rightarrow> bool" where
  "is_latest hf = (hf = LATEST)"

text \<open>The derived \<open>Ord\<close> compares the discriminants.\<close>

lemma as_u8_inject [simp]: "as_u8 a = as_u8 b \<longleftrightarrow> a = b"
  by (cases a; cases b) simp_all

instantiation hard_fork :: linorder
begin

definition less_eq_hard_fork :: "hard_fork \<Rightarrow> hard_fork \<Rightarrow> bool" where
  "less_eq_hard_fork a b \<longleftrightarrow> as_u8 a \<le> as_u8 b"

definition less_hard_fork :: "hard_fork \<Rightarrow> hard_fork \<Rightarrow> bool" where
  "less_hard_fork a b \<longleftrightarrow> as_u8 a < as_u8 b"

instance
  by standard (auto simp: less_eq_hard_fork_def less_hard_fork_def)

end

lemmas hard_fork_order = less_eq_hard_fork_def less_hard_fork_def

subsection \<open>Fork tables\<close>

definition NUMB_OF_HARD_FORKS :: nat where
  "NUMB_OF_HARD_FORKS = 16"

definition check_block_version_vote ::
  "hard_fork \<Rightarrow> hard_fork \<Rightarrow> hard_fork \<Rightarrow> hard_fork_error + unit" where
  "check_block_version_vote hf version vote =
     (if hf \<noteq> version then Err VersionIncorrect
      else if vote < hf then Err VoteTooLow
      else Ok ())"

record hf_info =
  hfi_height :: nat
  hfi_threshold :: nat

definition hf_info_new :: "nat \<Rightarrow> nat \<Rightarrow> hf_info" where
  "hf_info_new h t = \<lparr>hfi_height = h, hfi_threshold = t\<rparr>"

type_synonym hfs_info = "hf_info list"

definition info_for_hf :: "hfs_info \<Rightarrow> hard_fork \<Rightarrow> hf_info" where
  "info_for_hf hfs hf = hfs ! (as_u8 hf - 1)"

definition hfs_main_net :: hfs_info where
  "hfs_main_net =
     [hf_info_new 0 0, hf_info_new 1009827 0, hf_info_new 1141317 0, hf_info_new 1220516 0,
      hf_info_new 1288616 0, hf_info_new 1400000 0, hf_info_new 1546000 0, hf_info_new 1685555 0,
      hf_info_new 1686275 0, hf_info_new 1788000 0, hf_info_new 1788720 0, hf_info_new 1978433 0,
      hf_info_new 2210000 0, hf_info_new 2210720 0, hf_info_new 2688888 0, hf_info_new 2689608 0]"

definition hfs_test_net :: hfs_info where
  "hfs_test_net =
     [hf_info_new 0 0, hf_info_new 624634 0, hf_info_new 800500 0, hf_info_new 801219 0,
      hf_info_new 802660 0, hf_info_new 971400 0, hf_info_new 1057027 0, hf_info_new 1057058 0,
      hf_info_new 1057778 0, hf_info_new 1154318 0, hf_info_new 1155038 0, hf_info_new 1308737 0,
      hf_info_new 1543939 0, hf_info_new 1544659 0, hf_info_new 1982800 0, hf_info_new 1983520 0]"

definition hfs_stage_net :: hfs_info where
  "hfs_stage_net =
     [hf_info_new 0 0, hf_info_new 32000 0, hf_info_new 33000 0, hf_info_new 34000 0,
      hf_info_new 35000 0, hf_info_new 36000 0, hf_info_new 37000 0, hf_info_new 176456 0,
      hf_info_new 177176 0, hf_info_new 269000 0, hf_info_new 269720 0, hf_info_new 454721 0,
      hf_info_new 675405 0, hf_info_new 676125 0, hf_info_new 1151000 0, hf_info_new 1151720 0]"

subsection \<open>HFVotes\<close>

record hf_votes =
  votes :: "nat list"
  vote_list :: "hard_fork list"
  window_size :: nat

definition hf_votes_new :: "nat \<Rightarrow> hf_votes" where
  "hf_votes_new w = \<lparr>votes = replicate NUMB_OF_HARD_FORKS 0, vote_list = [], window_size = w\<rparr>"

text \<open>
  Subtracting from a zero counter wraps in a release build. The counters are decremented only for a vote that leaves the list, and
  that vote was counted when it entered, so this does not happen (\<open>count_pos\<close> below).
\<close>

definition incr_vote :: "hard_fork \<Rightarrow> nat list \<Rightarrow> nat list" where
  "incr_vote hf vs = vs[as_u8 hf - 1 := vs ! (as_u8 hf - 1) + 1]"

definition decr_vote :: "hard_fork \<Rightarrow> nat list \<Rightarrow> nat list" where
  "decr_vote hf vs = vs[as_u8 hf - 1 := (if vs ! (as_u8 hf - 1) = 0 then 2 ^ 64 - 1 else vs ! (as_u8 hf - 1) - 1)]"

definition add_vote_for_hf :: "hf_votes \<Rightarrow> hard_fork \<Rightarrow> hf_votes" where
  "add_vote_for_hf v hf =
     (let vl = vote_list v @ [hf]; vs = incr_vote hf (votes v)
      in if window_size v < length vl
         then v\<lparr>vote_list := tl vl, votes := decr_vote (hd vl) vs\<rparr>
         else v\<lparr>vote_list := vl, votes := vs\<rparr>)"

definition reverse_blocks :: "hf_votes \<Rightarrow> nat \<Rightarrow> hf_votes \<Rightarrow> hf_votes option" where
  "reverse_blocks v numb_blocks old =
     (if \<not> length (vote_list old) \<le> numb_blocks then None
      else if length (vote_list v) < numb_blocks then None
      else
        let keep = length (vote_list v) - numb_blocks;
            vs = fold decr_vote (drop keep (vote_list v)) (votes v)
        in Some (v\<lparr>vote_list := vote_list old @ take keep (vote_list v),
                   votes := fold incr_vote (rev (vote_list old)) vs\<rparr>))"

definition votes_for_hf :: "hf_votes \<Rightarrow> hard_fork \<Rightarrow> nat" where
  "votes_for_hf v hf = sum_list (drop (as_u8 hf - 1) (votes v))"

definition total_votes :: "hf_votes \<Rightarrow> nat" where
  "total_votes v = length (vote_list v)"

definition votes_needed :: "nat \<Rightarrow> nat \<Rightarrow> nat" where
  "votes_needed threshold window = div_ceil (wmul 64 threshold window) 100"

lemma next_fork_eq: "next_fork hf = (if hf = V16 then None else Some (VARIANTS ! as_u8 hf))"
  by (cases hf) (simp_all add: next_fork_def from_version_def from_repr_def VARIANTS_def)

lemma next_fork_as_u8: "next_fork hf = Some n \<Longrightarrow> as_u8 n = as_u8 hf + 1 \<and> as_u8 n \<le> 16"
  by (cases hf) (auto simp: next_fork_eq VARIANTS_def)

function current_fork ::
  "hf_votes \<Rightarrow> hard_fork \<Rightarrow> nat \<Rightarrow> nat \<Rightarrow> hfs_info \<Rightarrow> hard_fork" where
  "current_fork v current_hf current_height window hfs =
     (case next_fork current_hf of
        None \<Rightarrow> current_hf
      | Some next_hf \<Rightarrow>
          let info = info_for_hf hfs next_hf in
          if hfi_height info \<le> current_height \<and>
             votes_needed (hfi_threshold info) window \<le> votes_for_hf v next_hf
          then current_fork v next_hf current_height window hfs
          else current_hf)"
  by pat_completeness auto
termination
  by (relation "measure (\<lambda>(v, hf, h, w, i). 16 - as_u8 hf)") (auto dest: next_fork_as_u8)

declare current_fork.simps [simp del]

text \<open>
  The specification side: the invariant of \<open>HFVotes\<close> (each counter is the number of its votes in the
  window, and the window is not overfull), when a fork is activated, the tables whose thresholds are all
  zero, and the last fork such a table activates by a height.
\<close>

definition votes_wf :: "hf_votes \<Rightarrow> bool" where
  "votes_wf v \<longleftrightarrow> votes v = map (count_list (vote_list v)) VARIANTS \<and> length (vote_list v) \<le> window_size v"

definition activated :: "hf_votes \<Rightarrow> nat \<Rightarrow> nat \<Rightarrow> hfs_info \<Rightarrow> hard_fork \<Rightarrow> bool" where
  "activated v h w hfs f \<longleftrightarrow>
     hfi_height (info_for_hf hfs f) \<le> h \<and>
     votes_needed (hfi_threshold (info_for_hf hfs f)) w \<le> votes_for_hf v f"

definition fork_at_height :: "hfs_info \<Rightarrow> nat \<Rightarrow> hard_fork" where
  "fork_at_height hfs h = last (filter (\<lambda>f. hfi_height (info_for_hf hfs f) \<le> h) VARIANTS)"

definition zero_threshold_table :: "hfs_info \<Rightarrow> bool" where
  "zero_threshold_table hfs \<longleftrightarrow>
     length hfs = NUMB_OF_HARD_FORKS \<and> sorted (map hfi_height hfs) \<and>
     hfi_height (hfs ! 0) = 0 \<and> (\<forall>i \<in> set hfs. hfi_threshold i = 0)"

subsection \<open>Facts\<close>

lemma map_as_u8_VARIANTS: "map as_u8 VARIANTS = [1..<17]"
  by (simp add: VARIANTS_def upt_rec)

lemma length_VARIANTS [simp]: "length VARIANTS = 16"
  by (simp add: VARIANTS_def)

lemma distinct_VARIANTS [simp]: "distinct VARIANTS"
  by (simp add: VARIANTS_def)

lemma as_u8_VARIANTS [simp]: "i < 16 \<Longrightarrow> as_u8 (VARIANTS ! i) = i + 1"
  using arg_cong [OF map_as_u8_VARIANTS, of "\<lambda>xs. xs ! i"] by simp

lemma as_u8_range: "1 \<le> as_u8 hf" "as_u8 hf \<le> 16"
  by (cases hf; simp)+

lemma VARIANTS_as_u8 [simp]: "VARIANTS ! (as_u8 hf - Suc 0) = hf"
  by (cases hf) (simp_all add: VARIANTS_def)

lemma from_version_as_u8: "from_version (as_u8 hf) = Ok hf"
  using as_u8_range [of hf] by (simp add: from_version_def from_repr_def)

lemma mem_drop_VARIANTS: "x \<in> set (drop (as_u8 hf - Suc 0) VARIANTS) \<longleftrightarrow> hf \<le> x"
proof
  assume "x \<in> set (drop (as_u8 hf - Suc 0) VARIANTS)"
  then obtain i where "i < 16 - (as_u8 hf - 1)" "x = VARIANTS ! (as_u8 hf - 1 + i)"
    by (auto simp: in_set_conv_nth)
  then have "as_u8 x = as_u8 hf + i"
    using as_u8_range [of hf] by simp
  then show "hf \<le> x"
    by (simp add: hard_fork_order)
next
  assume "hf \<le> x"
  then have "x = drop (as_u8 hf - Suc 0) VARIANTS ! (as_u8 x - as_u8 hf)"
    "as_u8 x - as_u8 hf < length (drop (as_u8 hf - Suc 0) VARIANTS)"
    using as_u8_range [of hf] as_u8_range [of x] by (auto simp: hard_fork_order)
  then show "x \<in> set (drop (as_u8 hf - Suc 0) VARIANTS)"
    by (metis nth_mem)
qed

lemma incr_counts:
  assumes "\<And>y. c' y = c y + (if y = h then 1 else 0)"
  shows "incr_vote h (map c VARIANTS) = map c' VARIANTS"
proof (rule nth_equalityI)
  fix i
  assume "i < length (incr_vote h (map c VARIANTS))"
  then have i: "i < 16"
    by (simp add: incr_vote_def)
  have "VARIANTS ! i = h \<longleftrightarrow> i = as_u8 h - 1"
    using i as_u8_range [of h] by (auto simp flip: as_u8_inject)
  then show "incr_vote h (map c VARIANTS) ! i = map c' VARIANTS ! i"
    using i as_u8_range [of h] by (auto simp: incr_vote_def nth_list_update assms)
qed (simp add: incr_vote_def)

lemma decr_counts:
  assumes "\<And>y. c y = c' y + (if y = h then 1 else 0)"
  shows "decr_vote h (map c VARIANTS) = map c' VARIANTS"
proof (rule nth_equalityI)
  fix i
  assume "i < length (decr_vote h (map c VARIANTS))"
  then have i: "i < 16"
    by (simp add: decr_vote_def)
  have "VARIANTS ! i = h \<longleftrightarrow> i = as_u8 h - 1"
    using i as_u8_range [of h] by (auto simp flip: as_u8_inject)
  then show "decr_vote h (map c VARIANTS) ! i = map c' VARIANTS ! i"
    using i as_u8_range [of h] by (auto simp: decr_vote_def nth_list_update assms)
qed (simp add: decr_vote_def)

lemma fold_incr_counts:
  "fold incr_vote hs (map (count_list xs) VARIANTS) = map (count_list (hs @ xs)) VARIANTS"
proof (induction hs arbitrary: xs)
  case (Cons h hs)
  have "incr_vote h (map (count_list xs) VARIANTS) = map (count_list (h # xs)) VARIANTS"
    by (rule incr_counts) simp
  with Cons.IH [of "h # xs"] show ?case
    by (simp add: count_list_append cong: map_cong)
qed simp

lemma fold_decr_counts:
  "fold decr_vote hs (map (count_list (xs @ hs)) VARIANTS) = map (count_list xs) VARIANTS"
proof (induction hs)
  case (Cons h hs)
  have "decr_vote h (map (count_list (xs @ h # hs)) VARIANTS) = map (count_list (xs @ hs)) VARIANTS"
    by (rule decr_counts) (simp add: count_list_append)
  with Cons.IH show ?case
    by (simp only: fold_Cons o_apply)
qed simp

lemma count_pos:
  assumes "votes_wf v" "hf \<in> set (vote_list v)"
  shows "0 < votes v ! (as_u8 hf - 1)"
  using assms as_u8_range [of hf] count_list_0_iff [of "vote_list v" hf] by (simp add: votes_wf_def)

lemma votes_wf_new: "votes_wf (hf_votes_new w)"
  by (simp add: votes_wf_def hf_votes_new_def NUMB_OF_HARD_FORKS_def VARIANTS_def numeral_eq_Suc)

lemma add_vote_vote_list:
  assumes "length (vote_list v) \<le> window_size v"
  shows "vote_list (add_vote_for_hf v hf) = last_n (window_size v) (vote_list v @ [hf])"
proof (cases "length (vote_list v) = window_size v")
  case True
  then show ?thesis
    by (cases "vote_list v") (auto simp: add_vote_for_hf_def last_n_def Let_def)
next
  case False
  with assms show ?thesis
    by (simp add: add_vote_for_hf_def last_n_def Let_def)
qed

lemma add_vote_window_size [simp]: "window_size (add_vote_for_hf v hf) = window_size v"
  by (simp add: add_vote_for_hf_def Let_def)

lemma votes_wf_add:
  assumes "votes_wf v"
  shows "votes_wf (add_vote_for_hf v hf)"
proof -
  define vl where "vl = vote_list v @ [hf]"
  have i: "incr_vote hf (votes v) = map (count_list vl) VARIANTS"
    using assms unfolding votes_wf_def vl_def by (simp add: incr_counts count_list_append)
  have d: "decr_vote (hd vl) (map (count_list vl) VARIANTS) = map (count_list (tl vl)) VARIANTS"
    by (rule decr_counts) (cases "vote_list v"; simp add: vl_def)
  show ?thesis
    using assms i d by (auto simp: votes_wf_def add_vote_for_hf_def Let_def simp flip: vl_def) (simp add: vl_def)
qed

lemma votes_for_hf_eq:
  assumes "votes_wf v"
  shows "votes_for_hf v hf = length (filter (\<lambda>x. hf \<le> x) (vote_list v))"
proof -
  have "votes_for_hf v hf = sum_list (map (count_list (vote_list v)) (drop (as_u8 hf - 1) VARIANTS))"
    using assms by (simp add: votes_for_hf_def votes_wf_def drop_map)
  also have "\<dots> = length (filter (\<lambda>x. hf \<le> x) (vote_list v))"
    by (simp add: filter_count_list mem_drop_VARIANTS)
  finally show ?thesis .
qed

lemma add_votes:
  assumes "votes_wf v"
  shows "votes_wf (foldl add_vote_for_hf v hfs)"
    "window_size (foldl add_vote_for_hf v hfs) = window_size v"
    "vote_list (foldl add_vote_for_hf v hfs) = last_n (window_size v) (vote_list v @ hfs)"
proof -
  have "votes_wf (foldl add_vote_for_hf v hfs) \<and>
    window_size (foldl add_vote_for_hf v hfs) = window_size v \<and>
    vote_list (foldl add_vote_for_hf v hfs) = last_n (window_size v) (vote_list v @ hfs)"
  proof (induction hfs rule: rev_induct)
    case Nil
    then show ?case
      using assms by (simp add: votes_wf_def last_n_all)
  next
    case (snoc h hfs)
    let ?w = "foldl add_vote_for_hf v hfs"
    have "vote_list (add_vote_for_hf ?w h) = last_n (window_size v) (vote_list ?w @ [h])"
      using snoc by (simp add: add_vote_vote_list votes_wf_def)
    with snoc show ?case
      using last_n_snoc [of "window_size v" "vote_list v @ hfs" h] by (simp add: votes_wf_add)
  qed
  then show "votes_wf (foldl add_vote_for_hf v hfs)"
    "window_size (foldl add_vote_for_hf v hfs) = window_size v"
    "vote_list (foldl add_vote_for_hf v hfs) = last_n (window_size v) (vote_list v @ hfs)"
    by auto
qed

lemma reverse_blocks_eq:
  assumes "votes_wf v" "n \<le> length (vote_list v)" "length (vote_list old) \<le> n"
  defines "vl \<equiv> vote_list old @ take (length (vote_list v) - n) (vote_list v)"
  shows "reverse_blocks v n old = Some (v\<lparr>vote_list := vl, votes := map (count_list vl) VARIANTS\<rparr>)"
proof -
  define keep where "keep = length (vote_list v) - n"
  have "fold decr_vote (drop keep (vote_list v)) (votes v) = map (count_list (take keep (vote_list v))) VARIANTS"
    using assms(1) fold_decr_counts [of "drop keep (vote_list v)" "take keep (vote_list v)"]
    by (simp add: votes_wf_def)
  moreover have "map (count_list (rev (vote_list old) @ take keep (vote_list v))) VARIANTS = map (count_list vl) VARIANTS"
    by (simp add: vl_def keep_def count_list_append)
  ultimately show ?thesis
    using assms(2,3) by (simp add: reverse_blocks_def Let_def fold_incr_counts vl_def flip: keep_def)
qed

lemma reverse_undoes_adds:
  assumes "votes_wf v" "length ys \<le> window_size v"
    and old: "vote_list old = take (length (vote_list v) + length ys - window_size v) (vote_list v)"
  shows "reverse_blocks (foldl add_vote_for_hf v ys) (length ys) old = Some v"
proof -
  let ?w = "window_size v" and ?vl = "vote_list v"
  define d where "d = length ?vl + length ys - ?w"
  define v' where "v' = foldl add_vote_for_hf v ys"
  note av = add_votes [OF assms(1), of ys, folded v'_def]
  have le: "length ?vl \<le> ?w"
    using assms(1) by (simp add: votes_wf_def)
  have d: "d \<le> length ?vl" "d \<le> length ys"
    using assms(2) le by (auto simp: d_def)
  have vl': "vote_list v' = drop d ?vl @ ys"
    using d av(3) by (simp add: last_n_def d_def)
  have keep: "take (length (vote_list v') - length ys) (vote_list v') = drop d ?vl"
    by (simp add: vl')
  have "reverse_blocks v' (length ys) old =
      Some (v'\<lparr>vote_list := ?vl, votes := map (count_list ?vl) VARIANTS\<rparr>)"
    using reverse_blocks_eq [OF av(1), of "length ys" old] d
    by (simp add: keep old vl' flip: d_def)
  also have "v'\<lparr>vote_list := ?vl, votes := map (count_list ?vl) VARIANTS\<rparr> = v"
    using assms(1) av(2) by (simp add: votes_wf_def)
  finally show ?thesis
    by (simp add: v'_def)
qed

lemma current_fork_spec:
  "hf \<le> current_fork v hf h w hfs \<and>
   (\<forall>f. hf < f \<longrightarrow> f \<le> current_fork v hf h w hfs \<longrightarrow> activated v h w hfs f) \<and>
   (\<forall>n. next_fork (current_fork v hf h w hfs) = Some n \<longrightarrow> \<not> activated v h w hfs n)"
proof (induction v hf h w hfs rule: current_fork.induct)
  case (1 v hf h w hfs)
  show ?case
  proof (cases "next_fork hf")
    case None
    then have "current_fork v hf h w hfs = hf"
      by (subst current_fork.simps) simp
    with None show ?thesis
      by (auto dest: leD)
  next
    case (Some n)
    show ?thesis
    proof (cases "activated v h w hfs n")
      case True
      then have eq: "current_fork v hf h w hfs = current_fork v n h w hfs"
        using Some by (subst current_fork.simps) (simp add: activated_def Let_def)
      have IH: "n \<le> current_fork v n h w hfs \<and>
          (\<forall>f. n < f \<longrightarrow> f \<le> current_fork v n h w hfs \<longrightarrow> activated v h w hfs f) \<and>
          (\<forall>m. next_fork (current_fork v n h w hfs) = Some m \<longrightarrow> \<not> activated v h w hfs m)"
        by (rule 1 [OF Some refl]) (use True in \<open>simp add: activated_def\<close>)
      have step: "hf < f \<longleftrightarrow> n \<le> f" for f
        using next_fork_as_u8 [OF Some] by (auto simp: hard_fork_order)
      have "activated v h w hfs f" if "hf < f" "f \<le> current_fork v n h w hfs" for f
        using that IH True step [of f] order_le_imp_less_or_eq [of n f] by blast
      with IH step [of "current_fork v n h w hfs"] show ?thesis
        unfolding eq using less_imp_le by blast
    next
      case False
      then have "current_fork v hf h w hfs = hf"
        using Some by (subst current_fork.simps) (auto simp add: activated_def Let_def)
      with False Some show ?thesis
        by (auto dest: leD)
    qed
  qed
qed

lemma sorted_VARIANTS: "sorted VARIANTS"
  by (simp add: VARIANTS_def hard_fork_order)

lemma mem_VARIANTS [simp]: "hf \<in> set VARIANTS"
  by (cases hf) (simp_all add: VARIANTS_def)

lemma V1_least [simp]: "V1 \<le> hf"
  using as_u8_range [of hf] by (simp add: hard_fork_order)

lemma V16_greatest [simp]: "hf \<le> V16"
  using as_u8_range [of hf] by (simp add: hard_fork_order)

lemma network_tables:
  "zero_threshold_table hfs_main_net" "zero_threshold_table hfs_test_net"
  "zero_threshold_table hfs_stage_net"
  by (simp_all add: zero_threshold_table_def hfs_main_net_def hfs_test_net_def hfs_stage_net_def
      hf_info_new_def NUMB_OF_HARD_FORKS_def)

lemma fork_at_height_iff:
  assumes "zero_threshold_table hfs"
  shows "hfi_height (info_for_hf hfs f) \<le> h \<longleftrightarrow> f \<le> fork_at_height hfs h"
proof -
  let ?P = "\<lambda>f. hfi_height (info_for_hf hfs f) \<le> h"
  let ?m = "fork_at_height hfs h"
  have len: "length hfs = 16" and srt: "sorted (map hfi_height hfs)"
    using assms by (simp_all add: zero_threshold_table_def NUMB_OF_HARD_FORKS_def)
  have down: "?P g \<Longrightarrow> f \<le> g \<Longrightarrow> ?P f" for f g
  proof -
    assume g: "?P g" and "f \<le> g"
    then have "hfi_height (hfs ! (as_u8 f - 1)) \<le> hfi_height (hfs ! (as_u8 g - 1))"
      using sorted_nth_mono [OF srt, of "as_u8 f - 1" "as_u8 g - 1"] as_u8_range [of g] len
      by (simp add: hard_fork_order)
    with g show "?P f"
      by (simp add: info_for_hf_def)
  qed
  have "?P V1"
    using assms by (simp add: zero_threshold_table_def info_for_hf_def)
  then have "V1 \<in> set (filter ?P VARIANTS)"
    by simp
  then have "?m \<in> set (filter ?P VARIANTS)"
    unfolding fork_at_height_def by (intro last_in_set) (metis empty_iff empty_set)
  then have "?P ?m"
    by simp
  moreover have "f \<le> ?m" if "?P f"
    using that sorted_le_last [of "filter ?P VARIANTS" f] sorted_VARIANTS sorted_filter [of id VARIANTS ?P]
    by (simp add: fork_at_height_def)
  ultimately show ?thesis
    using down by blast
qed

lemma current_fork_by_height:
  assumes "zero_threshold_table hfs"
  shows "current_fork v hf h w hfs = max hf (fork_at_height hfs h)"
proof -
  let ?r = "current_fork v hf h w hfs" and ?m = "fork_at_height hfs h"
  have thr: "hfi_threshold (info_for_hf hfs f) = 0" for f
    using assms as_u8_range [of f]
    by (simp add: zero_threshold_table_def info_for_hf_def NUMB_OF_HARD_FORKS_def)
  have act: "activated v h w hfs f \<longleftrightarrow> f \<le> ?m" for f
    by (simp add: activated_def thr votes_needed_def wmul_def div_ceil_def fork_at_height_iff [OF assms])
  have spec: "hf \<le> ?r" "\<And>f. hf < f \<Longrightarrow> f \<le> ?r \<Longrightarrow> f \<le> ?m" "\<And>n. next_fork ?r = Some n \<Longrightarrow> \<not> n \<le> ?m"
    using current_fork_spec [of hf v h w hfs] by (auto simp: act)
  have "?m \<le> ?r"
  proof (cases "next_fork ?r")
    case None
    then have "?r = V16"
      by (simp add: next_fork_eq split: if_splits)
    then show ?thesis
      by simp
  next
    case (Some n)
    then show ?thesis
      using spec(3) [OF Some] next_fork_as_u8 [OF Some] by (simp add: hard_fork_order)
  qed
  moreover have "?r = hf \<or> ?r \<le> ?m"
    using spec(1) spec(2) [of ?r] by (cases "hf = ?r") auto
  ultimately show ?thesis
    using spec(1) by (auto simp: max_def)
qed

subsection \<open>Properties\<close>

text \<open>
  C26: Starting from \<open>HFVotes::new(w)\<close>, after any sequence of votes the list holds exactly the last \<open>w\<close> of
  them, every counter equals the number of its votes in that window, and \<open>votes_for_hf\<close> is the number of
  votes in the window for the fork or a later one.
\<close>

theorem votes_window_refines:
  "vote_list (foldl add_vote_for_hf (hf_votes_new w) hfs) = last_n w hfs \<and>
   votes (foldl add_vote_for_hf (hf_votes_new w) hfs) = map (count_list (last_n w hfs)) VARIANTS \<and>
   votes_for_hf (foldl add_vote_for_hf (hf_votes_new w) hfs) hf =
     length (filter (\<lambda>x. hf \<le> x) (last_n w hfs))"
proof -
  let ?v = "foldl add_vote_for_hf (hf_votes_new w) hfs"
  note av = add_votes [OF votes_wf_new, of w hfs]
  have "vote_list ?v = last_n w hfs"
    using av(3) by (simp add: hf_votes_new_def)
  then show ?thesis
    using av(1) votes_for_hf_eq [OF av(1)] by (simp add: votes_wf_def)
qed

text \<open>
  C27: \<open>reverse_blocks\<close> is the inverse of adding votes: after adding \<open>n\<close> votes, at most a window of them,
  reversing \<open>n\<close> blocks with the votes that had left the window restores the votes, the counters and the
  window exactly, and does not panic.
\<close>

theorem reverse_blocks_undoes_adds:
  assumes "votes_wf v" "length ys \<le> window_size v"
    and "vote_list old = take (length (vote_list v) + length ys - window_size v) (vote_list v)"
  shows "reverse_blocks (foldl add_vote_for_hf v ys) (length ys) old = Some v"
  using assms by (rule reverse_undoes_adds)

theorem reverse_blocks_undoes_adds_witness:
  "reverse_blocks (foldl add_vote_for_hf (foldl add_vote_for_hf (hf_votes_new 3) [V1, V1, V2]) [V3, V4])
     (length [V3, V4]) (foldl add_vote_for_hf (hf_votes_new 2) [V1, V1]) =
   Some (foldl add_vote_for_hf (hf_votes_new 3) [V1, V1, V2])"
  by (rule reverse_blocks_undoes_adds)
    (simp_all add: add_votes [OF votes_wf_new] hf_votes_new_def last_n_def add_vote_for_hf_def
      incr_vote_def decr_vote_def Let_def votes_wf_new [unfolded hf_votes_new_def] votes_wf_def
      VARIANTS_def NUMB_OF_HARD_FORKS_def numeral_eq_Suc)

text \<open>
  C28: \<open>current_fork\<close> never goes back, every fork after the old one up to the new one has reached its
  height and its votes, and the fork after the new one has not.
\<close>

theorem current_fork_stops_at_first_inactive:
  "hf \<le> current_fork v hf h w hfs \<and>
   (\<forall>f. hf < f \<longrightarrow> f \<le> current_fork v hf h w hfs \<longrightarrow> activated v h w hfs f) \<and>
   (\<forall>n. next_fork (current_fork v hf h w hfs) = Some n \<longrightarrow> \<not> activated v h w hfs n)"
  by (rule current_fork_spec)

theorem current_fork_stops_at_first_inactive_witness:
  "V1 \<le> current_fork (hf_votes_new 3) V1 1141317 3 hfs_main_net \<and>
   activated (hf_votes_new 3) 1141317 3 hfs_main_net V3 \<and>
   \<not> activated (hf_votes_new 3) 1141317 3 hfs_main_net V4"
proof -
  have "current_fork (hf_votes_new 3) V1 1141317 3 hfs_main_net = V3"
    unfolding current_fork_by_height [OF network_tables(1)]
    by (simp add: fork_at_height_def VARIANTS_def info_for_hf_def
        hfs_main_net_def hf_info_new_def hard_fork_order max_def)
  then show ?thesis
    using current_fork_stops_at_first_inactive [of V1 "hf_votes_new 3" 1141317 3 hfs_main_net]
    by (simp add: hard_fork_order next_fork_eq VARIANTS_def)
qed

text \<open>
  C37: With the tables of the three networks, whose thresholds are zero, the votes play no part: the fork
  at a height is the last one of the table whose height has been reached, or the old fork if that is later.
\<close>

theorem current_fork_on_networks:
  "current_fork v hf h w hfs_main_net = max hf (fork_at_height hfs_main_net h) \<and>
   current_fork v hf h w hfs_test_net = max hf (fork_at_height hfs_test_net h) \<and>
   current_fork v hf h w hfs_stage_net = max hf (fork_at_height hfs_stage_net h)"
  by (simp add: current_fork_by_height network_tables)

end
