(* ===== verification/Monero_Types.thy ===== *)
theory Monero_Types
  imports Hard_Forks Pruning "HOL-Library.List_Lexorder"
begin

text \<open>
  The data the consensus rules and the database work on, and small conversions on it:
  \<^verbatim>\<open>src/types/types/src/transaction_verification_data.rs\<close> (\<open>TxVersion\<close>, \<open>CachedVerificationState\<close>),
  \<^verbatim>\<open>src/types/types/src/types.rs\<close> (\<open>ExtendedBlockHeader\<close>, \<open>Chain\<close>),
  \<^verbatim>\<open>src/helper/src/map.rs\<close>, \<^verbatim>\<open>src/helper/src/tx.rs\<close>, \<^verbatim>\<open>src/helper/src/time.rs\<close> and
  \<^verbatim>\<open>src/consensus/rules/src/decomposed_amount.rs\<close>.

  Transactions and blocks are types of the \<open>monero_oxide\<close> library; they appear here with the variants and
  fields the source matches on, their cryptographic parts as byte strings. What that library computes on
  them (point decompression, signature verification, hashes, serialisation) is a field of the record
  \<open>oxide\<close>, an argument of every definition that needs it.

  The theorems: the low/high split of a \<open>u128\<close>, the timelock encoding and the IPv4 encoding round trip,
  the decomposed-amount table holds exactly the one-digit multiples of powers of ten below \<open>2\<^sup>6\<^sup>4\<close>, and the
  clock functions stay in their ranges.
\<close>

subsection \<open>Transactions and blocks\<close>

type_synonym bytes = "8 word list"

datatype timelock = TNone | TBlock nat | TTime nat

datatype input = Gen nat | ToKey (in_amount: "nat option") (key_offsets: "nat list") (key_image: bytes)

record tx_output =
  amount :: "nat option"
  out_key :: bytes
  view_tag :: "nat option"

record tx_prefix =
  additional_timelock :: timelock
  inputs :: "input list"
  outputs :: "tx_output list"
  extra :: bytes

datatype rct_type =
  AggregateMlsagBorromean | MlsagBorromean | MlsagBulletproofs | MlsagBulletproofsCompactAmount
| ClsagBulletproof | ClsagBulletproofPlus

record rct_base =
  rct_fee :: nat
  base_pseudo_outs :: "bytes list"
  encrypted_amounts :: "bytes list"
  commitments :: "bytes list"

datatype rct_prunable =
  PAggregateMlsagBorromean (agg_mlsag: bytes) (agg_borromean: "bytes list")
| PMlsagBorromean (b_mlsags: "bytes list") (b_borromean: "bytes list")
| PMlsagBulletproofs (bp_mlsags: "bytes list") (bp_pseudo_outs: "bytes list") (bp_bulletproof: bytes)
| PMlsagBulletproofsCompactAmount (ca_mlsags: "bytes list") (ca_pseudo_outs: "bytes list") (ca_bulletproof: bytes)
| PClsag (clsags: "bytes list") (cl_pseudo_outs: "bytes list") (cl_bulletproof: bytes)

record rct_proofs =
  rct_base :: rct_base
  prunable :: rct_prunable

datatype transaction =
  TxV1 (prefix: tx_prefix) (signatures: "bytes list")
| TxV2 (prefix: tx_prefix) (proofs: "rct_proofs option")

record block =
  header :: block_header
  miner_transaction :: transaction
  transactions :: "bytes list"

text \<open>
  The functions of \<open>monero_oxide\<close> and \<open>curve25519_dalek\<close> the rules call; \<open>'p\<close> is a decompressed point.
\<close>

record 'p oxide =
  decompress_point :: "bytes \<Rightarrow> 'p option"
  is_torsion_free :: "'p \<Rightarrow> bool"
  point_zero :: 'p
  point_add :: "'p \<Rightarrow> 'p \<Rightarrow> 'p"
  amount_times_H :: "nat \<Rightarrow> 'p"
  tx_version :: "transaction \<Rightarrow> nat"
  signature_hash :: "transaction \<Rightarrow> bytes option"
  rct_type_of :: "rct_proofs \<Rightarrow> rct_type"
  borromean_verify :: "bytes \<Rightarrow> bytes \<Rightarrow> bool"
  bulletproof_verify :: "bytes \<Rightarrow> bytes list \<Rightarrow> bool"
  ring_signature_verify :: "bytes \<Rightarrow> bytes \<Rightarrow> bytes list \<Rightarrow> bytes \<Rightarrow> bool"
  aggregate_mlsag_verify :: "bytes \<Rightarrow> bytes list \<Rightarrow> nat \<Rightarrow> (bytes \<times> bytes) list list \<Rightarrow> bytes \<Rightarrow> bytes list \<Rightarrow> string + unit"
  mlsag_verify :: "bytes \<Rightarrow> bytes \<Rightarrow> (bytes \<times> bytes) list \<Rightarrow> bytes \<Rightarrow> bytes \<Rightarrow> string + unit"
  clsag_verify :: "bytes \<Rightarrow> (bytes \<times> bytes) list \<Rightarrow> bytes \<Rightarrow> bytes \<Rightarrow> bytes \<Rightarrow> string + unit"

subsection \<open>TxVersion and verification states\<close>

datatype tx_version_t = RingSignatures | RingCT

definition tx_version_from_raw :: "nat \<Rightarrow> tx_version_t option" where
  "tx_version_from_raw v = (if v = 1 then Some RingSignatures else if v = 2 then Some RingCT else None)"

text \<open>The derived order: \<open>RingSignatures < RingCT\<close>.\<close>

definition tx_version_less :: "tx_version_t \<Rightarrow> tx_version_t \<Rightarrow> bool" where
  "tx_version_less a b \<longleftrightarrow> a = RingSignatures \<and> b = RingCT"

datatype cached_verification_state =
  NotVerified
| OnlySemantic hard_fork
| ValidAtHashAndHF bytes hard_fork
| ValidAtHashAndHFWithTimeBasedLock bytes hard_fork timelock

fun verified_at_block_hash :: "cached_verification_state \<Rightarrow> bytes option" where
  "verified_at_block_hash NotVerified = None"
| "verified_at_block_hash (OnlySemantic _) = None"
| "verified_at_block_hash (ValidAtHashAndHF h _) = Some h"
| "verified_at_block_hash (ValidAtHashAndHFWithTimeBasedLock h _ _) = Some h"

subsection \<open>Headers and chains\<close>

record ext_header =
  eh_version :: hard_fork
  eh_vote :: nat
  eh_timestamp :: nat
  eh_cumulative_difficulty :: nat
  eh_block_weight :: nat
  eh_long_term_weight :: nat

datatype chain = Main | Alt nat

subsection \<open>Conversions\<close>

definition split_u128_into_low_high_bits :: "nat \<Rightarrow> nat \<times> nat" where
  "split_u128_into_low_high_bits v = (take_bit 64 v, take_bit 64 (drop_bit 64 v))"

definition combine_low_high_bits_to_u128 :: "nat \<Rightarrow> nat \<Rightarrow> nat" where
  "combine_low_high_bits_to_u128 low high = shl 128 high 64 OR low"

text \<open>An \<open>Ipv4Addr\<close> is its four octets; \<open>to_le_bytes\<close> and \<open>from_le_bytes\<close> at width 32.\<close>

definition ipv4_from_u32 :: "nat \<Rightarrow> nat \<times> nat \<times> nat \<times> nat" where
  "ipv4_from_u32 ip = (ip mod 256, ip div 256 mod 256, ip div 65536 mod 256, ip div 16777216 mod 256)"

definition u32_from_ipv4 :: "nat \<times> nat \<times> nat \<times> nat \<Rightarrow> nat" where
  "u32_from_ipv4 ip = (case ip of (a, b, c, d) \<Rightarrow> a + 256 * b + 65536 * c + 16777216 * d)"

definition u64_to_timelock :: "nat \<Rightarrow> timelock" where
  "u64_to_timelock u =
     (if u = 0 then TNone
      else if u < MAX_BLOCK_HEIGHT_USIZE then TBlock u
      else TTime u)"

definition timelock_to_u64 :: "timelock \<Rightarrow> nat" where
  "timelock_to_u64 t = (case t of TNone \<Rightarrow> 0 | TBlock u \<Rightarrow> u | TTime u \<Rightarrow> u)"

subsection \<open>Fees and clocks\<close>

fun sum_input_amounts :: "nat \<Rightarrow> input list \<Rightarrow> nat option option" where
  "sum_input_amounts fee [] = Some (Some fee)"
| "sum_input_amounts fee (Gen _ # _) = Some None"
| "sum_input_amounts fee (ToKey a _ _ # ins) =
     (case checked_add 64 fee (case a of None \<Rightarrow> 0 | Some v \<Rightarrow> v) of
        None \<Rightarrow> None
      | Some fee \<Rightarrow> sum_input_amounts fee ins)"

fun sub_output_amounts :: "nat \<Rightarrow> tx_output list \<Rightarrow> nat option" where
  "sub_output_amounts fee [] = Some fee"
| "sub_output_amounts fee (out # outs) =
     (case checked_sub fee (case amount out of None \<Rightarrow> 0 | Some v \<Rightarrow> v) of
        None \<Rightarrow> None
      | Some fee \<Rightarrow> sub_output_amounts fee outs)"

text \<open>
  The outer \<open>None\<close> is the panic of an \<open>unwrap\<close>; a \<open>Gen\<close> input makes the loop return \<open>0\<close> at once
  (the inner \<open>None\<close> of \<open>sum_input_amounts\<close>).
\<close>

definition tx_fee :: "transaction \<Rightarrow> nat option" where
  "tx_fee tx =
     (case tx of
        TxV1 pre _ \<Rightarrow>
          (case sum_input_amounts 0 (inputs pre) of
             None \<Rightarrow> None
           | Some None \<Rightarrow> Some 0
           | Some (Some fee) \<Rightarrow> sub_output_amounts fee (outputs pre))
      | TxV2 _ prfs \<Rightarrow> map_option (\<lambda>p. rct_fee (rct_base p)) prfs)"

definition unix_clock :: "nat \<Rightarrow> nat" where
  "unix_clock s = s mod 86400"

definition secs_to_hms :: "nat \<Rightarrow> nat \<times> nat \<times> nat" where
  "secs_to_hms s = (s div 3600, (s mod 3600) div 60, (s mod 3600) mod 60)"

definition secs_to_clock :: "nat \<Rightarrow> nat \<times> nat \<times> nat" where
  "secs_to_clock s = (let s = s mod 86400; (h, m, s) = secs_to_hms s in (h mod 256, m, s))"

subsection \<open>Decomposed amounts\<close>

definition DECOMPOSED_AMOUNTS :: "nat list" where
  "DECOMPOSED_AMOUNTS =
     [1, 2, 3, 4, 5, 6, 7, 8, 9,
      10, 20, 30, 40, 50, 60, 70, 80, 90,
      100, 200, 300, 400, 500, 600, 700, 800, 900,
      1000, 2000, 3000, 4000, 5000, 6000, 7000, 8000, 9000,
      10000, 20000, 30000, 40000, 50000, 60000, 70000, 80000, 90000,
      100000, 200000, 300000, 400000, 500000, 600000, 700000, 800000, 900000,
      1000000, 2000000, 3000000, 4000000, 5000000, 6000000, 7000000, 8000000, 9000000,
      10000000, 20000000, 30000000, 40000000, 50000000, 60000000, 70000000, 80000000, 90000000,
      100000000, 200000000, 300000000, 400000000, 500000000, 600000000, 700000000, 800000000, 900000000,
      1000000000, 2000000000, 3000000000, 4000000000, 5000000000, 6000000000, 7000000000, 8000000000, 9000000000,
      10000000000, 20000000000, 30000000000, 40000000000, 50000000000, 60000000000, 70000000000, 80000000000, 90000000000,
      100000000000, 200000000000, 300000000000, 400000000000, 500000000000, 600000000000, 700000000000, 800000000000, 900000000000,
      1000000000000, 2000000000000, 3000000000000, 4000000000000, 5000000000000, 6000000000000, 7000000000000, 8000000000000, 9000000000000,
      10000000000000, 20000000000000, 30000000000000, 40000000000000, 50000000000000, 60000000000000, 70000000000000, 80000000000000, 90000000000000,
      100000000000000, 200000000000000, 300000000000000, 400000000000000, 500000000000000, 600000000000000, 700000000000000, 800000000000000, 900000000000000,
      1000000000000000, 2000000000000000, 3000000000000000, 4000000000000000, 5000000000000000, 6000000000000000, 7000000000000000, 8000000000000000, 9000000000000000,
      10000000000000000, 20000000000000000, 30000000000000000, 40000000000000000, 50000000000000000, 60000000000000000, 70000000000000000, 80000000000000000, 90000000000000000,
      100000000000000000, 200000000000000000, 300000000000000000, 400000000000000000, 500000000000000000, 600000000000000000, 700000000000000000, 800000000000000000, 900000000000000000,
      1000000000000000000, 2000000000000000000, 3000000000000000000, 4000000000000000000, 5000000000000000000, 6000000000000000000, 7000000000000000000, 8000000000000000000, 9000000000000000000,
      10000000000000000000]"

definition is_decomposed_amount :: "nat \<Rightarrow> bool" where
  "is_decomposed_amount a = is_ok (binary_search DECOMPOSED_AMOUNTS a)"

subsection \<open>Facts\<close>

lemma decomposed_table:
  "DECOMPOSED_AMOUNTS = concat (map (\<lambda>k. map (\<lambda>d. d * 10 ^ k) [1..<10]) [0..<19]) @ [10 ^ 19]"
  by (simp add: DECOMPOSED_AMOUNTS_def upt_rec)

lemma sorted_decomposed: "sorted_wrt (<) DECOMPOSED_AMOUNTS"
proof -
  have "\<forall>(a, b) \<in> set (windows2 DECOMPOSED_AMOUNTS). a < b"
    unfolding DECOMPOSED_AMOUNTS_def windows2_simps by simp
  then show ?thesis
    using windows2_sorted_wrt [of "(<)" DECOMPOSED_AMOUNTS] by (simp add: transp_on_def)
qed

lemma is_decomposed_iff: "is_decomposed_amount a \<longleftrightarrow> a \<in> set DECOMPOSED_AMOUNTS"
  using binary_search_found_iff [of DECOMPOSED_AMOUNTS a] sorted_decomposed
  by (simp add: is_decomposed_amount_def is_ok_iff strict_sorted_iff)

lemma ipv4_round_trip:
  assumes "ip < 2 ^ 32"
  shows "u32_from_ipv4 (ipv4_from_u32 ip) = ip"
proof -
  have split: "ip div 65536 = ip div 256 div 256" "ip div 16777216 = ip div 256 div 256 div 256"
    by (simp_all flip: div_mult2_eq)
  have "ip div 16777216 mod 256 = ip div 16777216"
    using assms by simp
  then show ?thesis
    using div_mult_mod_eq [of ip 256] div_mult_mod_eq [of "ip div 256" 256]
      div_mult_mod_eq [of "ip div 256 div 256" 256]
    unfolding u32_from_ipv4_def ipv4_from_u32_def split prod.case by linarith
qed

lemma timelock_round_trip: "timelock_to_u64 (u64_to_timelock u) = u"
  by (simp add: timelock_to_u64_def u64_to_timelock_def)

lemma split_combine_u128:
  assumes "v < 2 ^ 128"
  shows "(case split_u128_into_low_high_bits v of (l, h) \<Rightarrow> combine_low_high_bits_to_u128 l h) = v"
proof -
  have "drop_bit 64 v < 2 ^ 64"
    using assms by (simp add: drop_bit_eq_div)
  then have "combine_low_high_bits_to_u128 (take_bit 64 v) (take_bit 64 (drop_bit 64 v)) = push_bit 64 (drop_bit 64 v) OR take_bit 64 v"
    using assms by (simp add: combine_low_high_bits_to_u128_def shl_def take_bit_nat_eq_self push_bit_eq_mult drop_bit_eq_div)
  also have "\<dots> = v"
    by (rule bit_eqI) (auto simp: bit_or_iff bit_push_bit_iff bit_drop_bit_eq bit_take_bit_iff)
  finally show ?thesis
    by (simp add: split_u128_into_low_high_bits_def)
qed

lemma u64_to_timelock_onto:
  "(case t of TNone \<Rightarrow> True | TBlock u \<Rightarrow> 0 < u \<and> u < MAX_BLOCK_HEIGHT_USIZE | TTime u \<Rightarrow> MAX_BLOCK_HEIGHT_USIZE \<le> u) \<Longrightarrow>
   u64_to_timelock (timelock_to_u64 t) = t"
  by (cases t) (auto simp: timelock_to_u64_def u64_to_timelock_def MAX_BLOCK_HEIGHT_USIZE_def)

lemma secs_to_clock_range:
  "secs_to_clock s = (h, m, t) \<Longrightarrow> h < 24 \<and> m < 60 \<and> t < 60 \<and> 3600 * h + 60 * m + t = unix_clock s"
proof -
  assume "secs_to_clock s = (h, m, t)"
  moreover define r where "r = s mod 86400"
  moreover have "r div 3600 < 24" "(r mod 3600) div 60 < 60" "r mod 3600 mod 60 < 60"
    by (auto simp: r_def less_mult_imp_div_less)
  moreover have "3600 * (r div 3600) + 60 * ((r mod 3600) div 60) + r mod 3600 mod 60 = r"
    by (metis add.assoc mult.commute div_mult_mod_eq)
  ultimately show ?thesis
    by (auto simp: secs_to_clock_def secs_to_hms_def unix_clock_def Let_def)
qed

subsection \<open>Properties\<close>

text \<open>
  \<open>is_decomposed_amount\<close> accepts exactly the amounts of 64 bits that are one non-zero decimal digit
  followed by zeros: the table is sorted, so the binary search finds every entry, and it misses none.
\<close>

theorem is_decomposed_amount_spec:
  "is_decomposed_amount a \<and> a < 2 ^ 64 \<longleftrightarrow> (\<exists>d k. 1 \<le> d \<and> d \<le> 9 \<and> a = d * 10 ^ k) \<and> a < 2 ^ 64"
proof (intro iffI conjI; elim conjE)
  assume "is_decomposed_amount a"
  then consider k d where "d \<in> {1..<10}" "a = d * 10 ^ k" | "a = 1 * 10 ^ 19"
    unfolding is_decomposed_iff decomposed_table by auto
  then show "\<exists>d k. 1 \<le> d \<and> d \<le> 9 \<and> a = d * 10 ^ k"
    by cases (force, metis order.refl one_le_numeral)
next
  assume "\<exists>d k. 1 \<le> d \<and> d \<le> 9 \<and> a = d * 10 ^ k" "a < 2 ^ 64"
  then obtain d k where dk: "1 \<le> d" "d \<le> 9" "a = d * 10 ^ k" "d * 10 ^ k < 2 ^ 64"
    by auto
  have "k < 20"
  proof (rule ccontr)
    assume "\<not> k < 20"
    then have "(10::nat) ^ 20 \<le> 10 ^ k"
      by (intro power_increasing) auto
    moreover have "1 * 10 ^ k \<le> d * 10 ^ k"
      using dk(1) by (rule mult_le_mono1)
    ultimately have "(10::nat) ^ 20 < 2 ^ 64"
      using dk(4) by linarith
    then show False
      by simp
  qed
  moreover have "d = 1" if "k = 19"
    using dk that by simp
  ultimately have "a = 10 ^ 19 \<or> k \<in> {0..<19} \<and> d \<in> {1..<10}"
    using dk(1-3) by (cases "k = 19") auto
  then have "a = 10 ^ 19 \<or> a \<in> (\<Union>k \<in> {0..<19}. (\<lambda>d. d * 10 ^ k) ` {1..<10})"
    using dk(3) by blast
  then show "is_decomposed_amount a"
    unfolding is_decomposed_iff decomposed_table by auto
qed simp_all

end
