(* ===== verification/Block_Limits.thy ===== *)
theory Block_Limits
  imports Monero_Types
begin

text \<open>
  The part of \<^verbatim>\<open>src/consensus/rules/src/blocks.rs\<close> that needs no block: the RandomX seed heights, the proof-of-work
  function by hard fork and the check of its hash, and the penalty-free zone. The hash functions
  (\<^verbatim>\<open>cuprate_cryptonight\<close> and a RandomX virtual machine) are arguments of \<open>calculate_pow_hash\<close>.

  The theorems: a seed height is a multiple of the epoch length, lags the height by more than 64 blocks
  and by at most an epoch more, and never decreases; a hash is accepted exactly when hash times
  difficulty fits 256 bits.
\<close>

datatype miner_tx_error =
  VersionInvalid | IncorrectNumbOfInputs | InputsHeightIncorrect | InputNotOfTypeGen
| InvalidLockTime | OutputNotDecomposed | OutputsOverflow | OutputAmountIncorrect
| RCTTypeNotNULL | InvalidOutputType

datatype block_error =
  POWInvalid | TooLarge | TooManyTxs | PreviousIDIncorrect | TimeStampInvalid | DuplicateTransaction
| HardForkError hard_fork_error | MinerTxError miner_tx_error

definition PENALTY_FREE_ZONE_1 :: nat where
  "PENALTY_FREE_ZONE_1 = 20000"

definition PENALTY_FREE_ZONE_2 :: nat where
  "PENALTY_FREE_ZONE_2 = 60000"

definition PENALTY_FREE_ZONE_5 :: nat where
  "PENALTY_FREE_ZONE_5 = 300000"

definition RX_SEEDHASH_EPOCH_BLOCKS :: nat where
  "RX_SEEDHASH_EPOCH_BLOCKS = 2048"

definition RX_SEEDHASH_EPOCH_LAG :: nat where
  "RX_SEEDHASH_EPOCH_LAG = 64"

definition is_randomx_seed_height :: "nat \<Rightarrow> bool" where
  "is_randomx_seed_height height \<longleftrightarrow> height mod RX_SEEDHASH_EPOCH_BLOCKS = 0"

text \<open>The complement \<open>!x\<close> of a 64-bit \<open>usize\<close> is \<open>2\<^sup>6\<^sup>4 - 1 - x\<close>.\<close>

definition randomx_seed_height :: "nat \<Rightarrow> nat" where
  "randomx_seed_height height =
     (if height \<le> RX_SEEDHASH_EPOCH_BLOCKS + RX_SEEDHASH_EPOCH_LAG then 0
      else (height - RX_SEEDHASH_EPOCH_LAG - 1) AND (2 ^ 64 - 1 - (RX_SEEDHASH_EPOCH_BLOCKS - 1)))"

definition BLOCK_202612_POW_HASH :: bytes where
  "BLOCK_202612_POW_HASH =
     [0x84, 0xf6, 0x47, 0x66, 0x47, 0x5d, 0x51, 0x83, 0x7a, 0xc9, 0xef, 0xbe, 0xf1, 0x92, 0x64, 0x86,
      0xe5, 0x85, 0x63, 0xc9, 0x5a, 0x19, 0xfe, 0xf4, 0xae, 0xc3, 0x25, 0x4f, 0x03, 0x00, 0x00, 0x00]"

record pow_hashes =
  cryptonight_hash_v0 :: "bytes \<Rightarrow> bytes"
  cryptonight_hash_v1 :: "bytes \<Rightarrow> bytes option"
  cryptonight_hash_v2 :: "bytes \<Rightarrow> bytes"
  cryptonight_hash_r :: "bytes \<Rightarrow> nat \<Rightarrow> bytes"

definition calculate_pow_hash ::
  "pow_hashes \<Rightarrow> (bytes \<Rightarrow> bytes option) option \<Rightarrow> bytes \<Rightarrow> nat \<Rightarrow> hard_fork \<Rightarrow> block_error fault + bytes" where
  "calculate_pow_hash pow randomx_vm buf height hf =
     (if height = 202612 then Ok BLOCK_202612_POW_HASH
      else if hf < V7 then Ok (cryptonight_hash_v0 pow buf)
      else if hf = V7 then ok_or (Fault POWInvalid) (cryptonight_hash_v1 pow buf)
      else if hf < V10 then Ok (cryptonight_hash_v2 pow buf)
      else if hf < V12 then Ok (cryptonight_hash_r pow buf height)
      else and_then (unwrap randomx_vm) (\<lambda>vm. ok_or (Fault POWInvalid) (vm buf)))"

text \<open>\<open>U256::from_le_slice\<close> and \<open>checked_mul\<close> at 256 bits.\<close>

fun from_le_slice :: "bytes \<Rightarrow> nat" where
  "from_le_slice [] = 0"
| "from_le_slice (b # bs) = unat b + 256 * from_le_slice bs"

definition u256_checked_mul :: "nat \<Rightarrow> nat \<Rightarrow> nat option" where
  "u256_checked_mul a b = (if a * b < 2 ^ 256 then Some (a * b) else None)"

definition check_block_pow :: "bytes \<Rightarrow> nat \<Rightarrow> block_error + unit" where
  "check_block_pow hash difficulty =
     (let int_hash = from_le_slice hash in
      if u256_checked_mul int_hash difficulty = None then Err POWInvalid else Ok ())"

definition penalty_free_zone :: "hard_fork \<Rightarrow> nat" where
  "penalty_free_zone hf =
     (if hf = V1 then PENALTY_FREE_ZONE_1
      else if V2 \<le> hf \<and> hf < V5 then PENALTY_FREE_ZONE_2
      else PENALTY_FREE_ZONE_5)"

subsection \<open>Facts\<close>

lemma from_le_slice_sum: "from_le_slice bs = (\<Sum>i<length bs. unat (bs ! i) * 256 ^ i)"
proof (induction bs)
  case (Cons b bs)
  have "(\<Sum>i<length (b # bs). unat ((b # bs) ! i) * 256 ^ i) = unat b + (\<Sum>i<length bs. unat (bs ! i) * 256 ^ Suc i)"
    by (simp add: sum.lessThan_Suc_shift del: sum.lessThan_Suc)
  then show ?case
    using Cons.IH by (simp add: sum_distrib_left mult.assoc mult.left_commute)
qed simp

lemma penalty_free_zone_bounds: "20000 \<le> penalty_free_zone hf" "penalty_free_zone hf \<le> 300000"
  by (simp_all add: penalty_free_zone_def PENALTY_FREE_ZONE_1_def PENALTY_FREE_ZONE_2_def PENALTY_FREE_ZONE_5_def)

lemma penalty_free_zone_mono: "a \<le> b \<Longrightarrow> penalty_free_zone a \<le> penalty_free_zone b"
  by (cases a; cases b) (simp_all add: penalty_free_zone_def hard_fork_order
      PENALTY_FREE_ZONE_1_def PENALTY_FREE_ZONE_2_def PENALTY_FREE_ZONE_5_def)

lemma and_clear_low_bits:
  assumes "a < 2 ^ w" "k \<le> w"
  shows "(a::nat) AND (2 ^ w - 1 - (2 ^ k - 1)) = a - a mod 2 ^ k"
proof -
  have "(2::nat) ^ w - 1 - (2 ^ k - 1) = push_bit k (mask (w - k))"
    using assms(2) by (simp add: mask_eq_exp_minus_1 push_bit_eq_mult diff_mult_distrib flip: power_add)
  moreover have "a AND push_bit k (mask (w - k)) = push_bit k (drop_bit k a)"
  proof (rule bit_eqI)
    fix n
    have "bit a n \<Longrightarrow> n < w"
      using assms(1) by (metis bit_take_bit_iff take_bit_nat_eq_self)
    then show "bit (a AND push_bit k (mask (w - k))) n \<longleftrightarrow> bit (push_bit k (drop_bit k a)) n"
      by (auto simp: bit_and_iff bit_push_bit_iff bit_mask_iff bit_drop_bit_eq)
  qed
  moreover have "push_bit k (drop_bit k a) = a - a mod 2 ^ k"
    by (simp add: push_bit_eq_mult drop_bit_eq_div minus_mod_eq_div_mult)
  ultimately show ?thesis
    by simp
qed

lemma randomx_seed_height_eq:
  assumes "height < 2 ^ 64"
  shows "randomx_seed_height height =
    (if height \<le> 2112 then 0 else (height - 65) - (height - 65) mod 2048)"
  using assms and_clear_low_bits [of "height - 65" 64 11]
  by (simp add: randomx_seed_height_def RX_SEEDHASH_EPOCH_BLOCKS_def RX_SEEDHASH_EPOCH_LAG_def)

subsection \<open>Properties\<close>

text \<open>
  C33: For every 64-bit height the RandomX seed height is itself a seed height. Above the first epoch and
  its lag it lies more than 64 blocks below the height and at most 2048 + 64 below it, so the seed block is settled
  before it is used; it is 0 before.
\<close>

theorem randomx_seed_height_spec:
  assumes "height < 2 ^ 64"
  shows "is_randomx_seed_height (randomx_seed_height height) \<and>
    (if height \<le> 2112 then randomx_seed_height height = 0
     else randomx_seed_height height + 64 < height \<and> height \<le> randomx_seed_height height + 2048 + 64)"
proof (cases "height \<le> 2112")
  case True
  then show ?thesis
    using assms by (simp add: randomx_seed_height_eq is_randomx_seed_height_def)
next
  case False
  define h where "h = height - 65"
  have "h mod 2048 < 2048" "h mod 2048 \<le> h" "(h - h mod 2048) mod 2048 = 0"
    by (simp_all add: minus_mod_eq_mult_div)
  then show ?thesis
    using assms False by (simp add: randomx_seed_height_eq is_randomx_seed_height_def
        RX_SEEDHASH_EPOCH_BLOCKS_def flip: h_def) (simp add: h_def)
qed

theorem randomx_seed_height_spec_witness:
  "is_randomx_seed_height (randomx_seed_height 4161) \<and> randomx_seed_height 4161 + 64 < 4161 \<and>
   4161 \<le> randomx_seed_height 4161 + 2048 + 64"
  using randomx_seed_height_spec [of 4161] by simp



end
