(* ===== verification/Tx_Rules.thy ===== *)
theory Tx_Rules
  imports Block_Limits
begin

text \<open>
  The transaction rules: \<^verbatim>\<open>src/consensus/rules/src/transactions.rs\<close> and its modules \<^verbatim>\<open>contextual_data.rs\<close>,
  \<^verbatim>\<open>ring_ct.rs\<close> and \<^verbatim>\<open>ring_signatures.rs\<close>, function by function. Signature and range-proof verification and the
  curve arithmetic belong to libraries and come from the record \<open>oxide\<close>. A function the source can
  panic in returns \<open>transaction_error fault\<close>; the others return \<open>transaction_error\<close>. The parallel iterators
  of the \<open>rayon\<close> feature return the same verdict as the sequential ones and are lists here.

  The theorems: an accepted transaction creates no coins and has pairwise different key images, the
  fee recomputed later is the accepted one, ring members are unique as long as the offsets do not
  overflow (and not beyond), the decoy rules of every fork, an accepted transaction has all its locks open
  and all its signatures verified, and the contextual check cannot panic when called as promised.
\<close>

subsection \<open>Errors\<close>

datatype ring_ct_error =
  TypeNotAllowed | SimpleAmountDoNotBalance | BorromeanRangeInvalid | BulletproofsRangeInvalid
| RingInvalid | MLSAGError string | CLSAGError string

datatype transaction_error =
  TransactionVersionInvalid | TooBig
| OutputNotValidPoint | OutputTypeInvalid | ZeroOutputForV1 | NonZeroOutputForV2 | AmountNotDecomposed
| TxOutputsOverflow | OutputsTooHigh | InvalidNumberOfOutputs
| InputDoesNotHaveExpectedNumbDecoys | MoreThanOneMixableInputWithUnmixable
| KeyImageIsNotInPrimeSubGroup | KeyImageSpent | IncorrectInputType | DuplicateRingMember
| InputsAreNotOrdered | OneOrMoreRingMembersLocked | InputsOverflow | NoInputs
| RingMemberNotFoundOrInvalid | RingSignatureIncorrect | RingCTError ring_ct_error

datatype consensus_error = BlockErr block_error | TransactionErr transaction_error

definition MAX_BULLETPROOFS_OUTPUTS :: nat where
  "MAX_BULLETPROOFS_OUTPUTS = 16"

definition MAX_TX_BLOB_SIZE :: nat where
  "MAX_TX_BLOB_SIZE = 1000000"

abbreviation unwrap_or_0 :: "nat option \<Rightarrow> nat" where
  "unwrap_or_0 a \<equiv> (case a of None \<Rightarrow> 0 | Some v \<Rightarrow> v)"

subsection \<open>Outputs\<close>

definition check_output_keys :: "'p oxide \<Rightarrow> tx_output list \<Rightarrow> transaction_error + unit" where
  "check_output_keys X outs =
     try_for_each (\<lambda>out. if decompress_point X (out_key out) = None then Err OutputNotValidPoint else Ok ()) outs"

definition check_output_types :: "tx_output list \<Rightarrow> hard_fork \<Rightarrow> transaction_error + unit" where
  "check_output_types outs hf =
     (if hf = V15
      then try_for_each
             (\<lambda>(a, b). if (view_tag a \<noteq> None) \<noteq> (view_tag b \<noteq> None) then Err OutputTypeInvalid else Ok ())
             (windows2 outs)
      else try_for_each
             (\<lambda>out. if hf \<le> V14 \<and> view_tag out \<noteq> None \<or> V16 \<le> hf \<and> view_tag out = None
                    then Err OutputTypeInvalid else Ok ())
             outs)"

definition check_output_amount_v1 :: "nat \<Rightarrow> hard_fork \<Rightarrow> transaction_error + unit" where
  "check_output_amount_v1 a hf =
     (if a = 0 then Err ZeroOutputForV1
      else if V2 \<le> hf \<and> \<not> is_decomposed_amount a then Err AmountNotDecomposed
      else Ok ())"

definition check_output_amount_v2 :: "nat \<Rightarrow> transaction_error + unit" where
  "check_output_amount_v2 a = (if a = 0 then Ok () else Err NonZeroOutputForV2)"

definition sum_outputs :: "tx_output list \<Rightarrow> hard_fork \<Rightarrow> tx_version_t \<Rightarrow> transaction_error + nat" where
  "sum_outputs outs hf ver =
     try_fold
       (\<lambda>sum out. and_then
          (case ver of
             RingSignatures \<Rightarrow> check_output_amount_v1 (unwrap_or_0 (amount out)) hf
           | RingCT \<Rightarrow> check_output_amount_v2 (unwrap_or_0 (amount out)))
          (\<lambda>_. ok_or TxOutputsOverflow (checked_add 64 sum (unwrap_or_0 (amount out)))))
       0 outs"

definition check_number_of_outputs ::
  "nat \<Rightarrow> hard_fork \<Rightarrow> tx_version_t \<Rightarrow> bool \<Rightarrow> transaction_error + unit" where
  "check_number_of_outputs n hf ver bp_or_bpp =
     (if ver = RingSignatures then Ok ()
      else if V12 \<le> hf \<and> n < 2 then Err InvalidNumberOfOutputs
      else if bp_or_bpp \<and> MAX_BULLETPROOFS_OUTPUTS < n then Err InvalidNumberOfOutputs
      else Ok ())"

definition check_outputs_semantics ::
  "'p oxide \<Rightarrow> tx_output list \<Rightarrow> hard_fork \<Rightarrow> tx_version_t \<Rightarrow> bool \<Rightarrow> transaction_error + nat" where
  "check_outputs_semantics X outs hf ver bp_or_bpp =
     and_then (check_output_types outs hf) (\<lambda>_.
     and_then (check_output_keys X outs) (\<lambda>_.
     and_then (check_number_of_outputs (length outs) hf ver bp_or_bpp) (\<lambda>_.
     sum_outputs outs hf ver)))"

subsection \<open>Time locks\<close>

definition check_block_time_lock :: "nat \<Rightarrow> nat \<Rightarrow> bool" where
  "check_block_time_lock unlock_height current_chain_height \<longleftrightarrow> unlock_height \<le> current_chain_height"

definition check_timestamp_time_lock :: "nat \<Rightarrow> nat \<Rightarrow> hard_fork \<Rightarrow> bool" where
  "check_timestamp_time_lock unlock_timestamp now hf \<longleftrightarrow> unlock_timestamp \<le> wadd 64 now (block_time hf)"

definition output_unlocked :: "timelock \<Rightarrow> nat \<Rightarrow> nat \<Rightarrow> hard_fork \<Rightarrow> bool" where
  "output_unlocked time_lock current_chain_height now hf =
     (case time_lock of
        TNone \<Rightarrow> True
      | TBlock unlock_height \<Rightarrow> check_block_time_lock unlock_height current_chain_height
      | TTime unlock_time \<Rightarrow> check_timestamp_time_lock unlock_time now hf)"

definition check_all_time_locks ::
  "timelock list \<Rightarrow> nat \<Rightarrow> nat \<Rightarrow> hard_fork \<Rightarrow> transaction_error + unit" where
  "check_all_time_locks time_locks current_chain_height now hf =
     try_for_each
       (\<lambda>t. if output_unlocked t current_chain_height now hf then Ok () else Err OneOrMoreRingMembersLocked)
       time_locks"

subsection \<open>Decoys and ring members\<close>

record decoy_info =
  mixable :: nat
  not_mixable :: nat
  min_decoys :: nat
  max_decoys :: nat

datatype rings = Legacy "bytes list list" | RingCTRings "(bytes \<times> bytes) list list"

record tx_ring_members_info =
  tx_rings :: rings
  ring_decoy_info :: "decoy_info option"
  youngest_used_out_height :: nat
  time_locked_outs :: "timelock list"

text \<open>\<open>minimum_decoys\<close> panics for the first fork.\<close>

definition minimum_decoys :: "hard_fork \<Rightarrow> nat option" where
  "minimum_decoys hf =
     (case hf of
        V1 \<Rightarrow> None
      | V2 \<Rightarrow> Some 2 | V3 \<Rightarrow> Some 2 | V4 \<Rightarrow> Some 2 | V5 \<Rightarrow> Some 2
      | V6 \<Rightarrow> Some 4
      | V7 \<Rightarrow> Some 6
      | V8 \<Rightarrow> Some 10 | V9 \<Rightarrow> Some 10 | V10 \<Rightarrow> Some 10 | V11 \<Rightarrow> Some 10 | V12 \<Rightarrow> Some 10
      | V13 \<Rightarrow> Some 10 | V14 \<Rightarrow> Some 10
      | V15 \<Rightarrow> Some 15 | V16 \<Rightarrow> Some 15)"

definition decoy_step ::
  "(nat \<Rightarrow> nat) \<Rightarrow> nat \<Rightarrow> decoy_info \<Rightarrow> input \<Rightarrow> transaction_error + decoy_info" where
  "decoy_step outputs_with_amount minimum d inp =
     (case inp of
        Gen _ \<Rightarrow> Err IncorrectInputType
      | ToKey a offsets _ \<Rightarrow>
          let d = (case a of
                     Some a \<Rightarrow> (if outputs_with_amount a \<le> minimum
                                 then d\<lparr>not_mixable := not_mixable d + 1\<rparr>
                                 else d\<lparr>mixable := mixable d + 1\<rparr>)
                   | None \<Rightarrow> d\<lparr>mixable := mixable d + 1\<rparr>)
          in and_then (ok_or InputDoesNotHaveExpectedNumbDecoys (checked_sub (length offsets) 1)) (\<lambda>n.
             Ok (d\<lparr>min_decoys := min (min_decoys d) n, max_decoys := max (max_decoys d) n\<rparr>)))"

definition decoy_info_new ::
  "input list \<Rightarrow> (nat \<Rightarrow> nat) \<Rightarrow> hard_fork \<Rightarrow> transaction_error fault + decoy_info" where
  "decoy_info_new ins outputs_with_amount hf =
     and_then (unwrap (minimum_decoys hf)) (\<lambda>minimum.
     no_panic (try_fold (decoy_step outputs_with_amount minimum)
       \<lparr>mixable = 0, not_mixable = 0, min_decoys = 2 ^ 64 - 1, max_decoys = 0\<rparr> ins))"

fun absolute_offsets_from :: "nat \<Rightarrow> nat list \<Rightarrow> nat list" where
  "absolute_offsets_from prev [] = []"
| "absolute_offsets_from prev (r # rs) = (let a = wadd 64 prev r in a # absolute_offsets_from a rs)"

definition get_absolute_offsets :: "nat list \<Rightarrow> transaction_error + nat list" where
  "get_absolute_offsets relative =
     (case relative of
        [] \<Rightarrow> Err InputDoesNotHaveExpectedNumbDecoys
      | r # rs \<Rightarrow> Ok (r # absolute_offsets_from r rs))"

text \<open>
  \<open>IndexMap<u64, IndexSet<u64>>\<close> keeps its keys and members in insertion order: an association list with
  distinct keys and distinct lists. The map is borrowed mutably, so its state is returned next to the
  result, also on an error; the entry of an input is created before its offsets are computed.
\<close>

fun index_set_extend :: "nat list \<Rightarrow> nat list \<Rightarrow> nat list" where
  "index_set_extend s [] = s"
| "index_set_extend s (x # xs) = index_set_extend (if x \<in> set s then s else s @ [x]) xs"

fun index_map_extend :: "nat \<Rightarrow> nat list \<Rightarrow> (nat \<times> nat list) list \<Rightarrow> (nat \<times> nat list) list" where
  "index_map_extend k xs [] = [(k, index_set_extend [] xs)]"
| "index_map_extend k xs ((k', s) # m) =
     (if k = k' then (k', index_set_extend s xs) # m else (k', s) # index_map_extend k xs m)"

fun insert_ring_members :: "input list \<Rightarrow> (nat \<times> nat list) list \<Rightarrow> (nat \<times> nat list) list \<times> (transaction_error + unit)" where
  "insert_ring_members [] m = (m, Ok ())"
| "insert_ring_members (Gen _ # ins) m = (m, Err IncorrectInputType)"
| "insert_ring_members (ToKey a offsets _ # ins) m =
     (case get_absolute_offsets offsets of
        Inl e \<Rightarrow> (index_map_extend (unwrap_or_0 a) [] m, Err e)
      | Inr ids \<Rightarrow> insert_ring_members ins (index_map_extend (unwrap_or_0 a) ids m))"

definition insert_ring_member_ids ::
  "input list \<Rightarrow> (nat \<times> nat list) list \<Rightarrow> (nat \<times> nat list) list \<times> (transaction_error + unit)" where
  "insert_ring_member_ids ins m = (if ins = [] then (m, Err NoInputs) else insert_ring_members ins m)"

subsection \<open>Inputs\<close>

definition check_decoy_info_single :: "decoy_info \<Rightarrow> hard_fork \<Rightarrow> transaction_error fault + unit" where
  "check_decoy_info_single d hf =
     and_then (unwrap (minimum_decoys hf)) (\<lambda>current_minimum_decoys.
     and_then
       (if min_decoys d < current_minimum_decoys
        then (if not_mixable d = 0 then Err (Fault InputDoesNotHaveExpectedNumbDecoys)
              else if 1 < mixable d then Err (Fault MoreThanOneMixableInputWithUnmixable)
              else Ok ())
        else if V8 \<le> hf \<and> min_decoys d \<noteq> current_minimum_decoys
             then Err (Fault InputDoesNotHaveExpectedNumbDecoys)
             else Ok ()) (\<lambda>_.
     if V12 \<le> hf \<and> min_decoys d \<noteq> max_decoys d then Err (Fault InputDoesNotHaveExpectedNumbDecoys)
     else Ok ()))"

text \<open>Fork 15 tries the rules of fork 14 and, when they reject, those of fork 16.\<close>

definition check_decoy_info :: "decoy_info \<Rightarrow> hard_fork \<Rightarrow> transaction_error fault + unit" where
  "check_decoy_info d hf =
     (if hf = V15
      then (case check_decoy_info_single d V14 of
              Inl (Fault _) \<Rightarrow> check_decoy_info_single d V16
            | r \<Rightarrow> r)
      else check_decoy_info_single d hf)"

definition check_key_images :: "'p oxide \<Rightarrow> input \<Rightarrow> transaction_error + unit" where
  "check_key_images X inp =
     (case inp of
        ToKey _ _ ki \<Rightarrow>
          (case decompress_point X ki of
             Some p \<Rightarrow> (if is_torsion_free X p then Ok () else Err KeyImageIsNotInPrimeSubGroup)
           | None \<Rightarrow> Err KeyImageIsNotInPrimeSubGroup)
      | Gen _ \<Rightarrow> Err IncorrectInputType)"

definition check_input_type :: "input \<Rightarrow> transaction_error + unit" where
  "check_input_type inp = (case inp of ToKey _ _ _ \<Rightarrow> Ok () | Gen _ \<Rightarrow> Err IncorrectInputType)"

definition check_input_has_decoys :: "input \<Rightarrow> transaction_error + unit" where
  "check_input_has_decoys inp =
     (case inp of
        ToKey _ offsets _ \<Rightarrow> (if offsets = [] then Err InputDoesNotHaveExpectedNumbDecoys else Ok ())
      | Gen _ \<Rightarrow> Err IncorrectInputType)"

definition check_ring_members_unique :: "input \<Rightarrow> hard_fork \<Rightarrow> transaction_error + unit" where
  "check_ring_members_unique inp hf =
     (if V6 \<le> hf
      then (case inp of
              ToKey _ offsets _ \<Rightarrow>
                try_for_each (\<lambda>offset. if offset = 0 then Err DuplicateRingMember else Ok ()) (drop 1 offsets)
            | Gen _ \<Rightarrow> Err IncorrectInputType)
      else Ok ())"

definition get_ki :: "input \<Rightarrow> transaction_error + bytes" where
  "get_ki inp = (case inp of ToKey _ _ ki \<Rightarrow> Ok ki | Gen _ \<Rightarrow> Err IncorrectInputType)"

definition check_inputs_sorted :: "input list \<Rightarrow> hard_fork \<Rightarrow> transaction_error + unit" where
  "check_inputs_sorted ins hf =
     (if V7 \<le> hf
      then try_for_each
             (\<lambda>(a, b). and_then (get_ki a) (\<lambda>ka. and_then (get_ki b) (\<lambda>kb.
                if ka \<le> kb then Err InputsAreNotOrdered else Ok ())))
             (windows2 ins)
      else Ok ())"

definition check_10_block_lock :: "nat \<Rightarrow> nat \<Rightarrow> hard_fork \<Rightarrow> transaction_error + unit" where
  "check_10_block_lock youngest current_chain_height hf =
     (if V12 \<le> hf
      then (if current_chain_height < wadd 64 youngest 10 then Err OneOrMoreRingMembersLocked else Ok ())
      else Ok ())"

definition sum_inputs_check_overflow :: "input list \<Rightarrow> transaction_error + nat" where
  "sum_inputs_check_overflow ins =
     try_fold
       (\<lambda>sum inp.
          case inp of
            ToKey a _ _ \<Rightarrow> ok_or InputsOverflow (checked_add 64 sum (unwrap_or_0 a))
          | Gen _ \<Rightarrow> Err IncorrectInputType)
       0 ins"

definition check_inputs_semantics :: "input list \<Rightarrow> hard_fork \<Rightarrow> transaction_error + nat" where
  "check_inputs_semantics ins hf =
     (if ins = [] then Err NoInputs
      else
        and_then
          (try_for_each
             (\<lambda>inp. and_then (check_input_type inp) (\<lambda>_.
                    and_then (check_input_has_decoys inp) (\<lambda>_.
                    check_ring_members_unique inp hf)))
             ins) (\<lambda>_.
        and_then (check_inputs_sorted ins hf) (\<lambda>_.
        sum_inputs_check_overflow ins)))"

definition check_inputs_contextual ::
  "'p oxide \<Rightarrow> input list \<Rightarrow> tx_ring_members_info \<Rightarrow> nat \<Rightarrow> hard_fork \<Rightarrow> transaction_error fault + unit" where
  "check_inputs_contextual X ins info current_chain_height hf =
     and_then (no_panic (check_10_block_lock (youngest_used_out_height info) current_chain_height hf)) (\<lambda>_.
     and_then (case ring_decoy_info info of
                 Some d \<Rightarrow> check_decoy_info d hf
               | None \<Rightarrow> assert (hf = V1)) (\<lambda>_.
     no_panic (try_for_each (check_key_images X) ins)))"

subsection \<open>RingCT and ring signatures\<close>

definition GRANDFATHERED_TRANSACTIONS :: "bytes list" where
  "GRANDFATHERED_TRANSACTIONS =
     [[0xc5, 0x15, 0x19, 0x44, 0xf0, 0x58, 0x30, 0x97, 0xba, 0x0c, 0x88, 0xcd, 0x0f, 0x43, 0xe7, 0xfa,
       0xbb, 0x38, 0x81, 0x27, 0x8a, 0xa2, 0xf7, 0x3b, 0x3b, 0x0a, 0x00, 0x7c, 0x5d, 0x34, 0xe9, 0x10],
      [0x6f, 0x2f, 0x11, 0x7c, 0xde, 0x6f, 0xbc, 0xf8, 0xd4, 0xa6, 0xef, 0x89, 0x74, 0xfc, 0xac, 0x74,
       0x47, 0x26, 0x57, 0x4a, 0xc3, 0x8c, 0xf2, 0x5d, 0x33, 0x22, 0xc9, 0x96, 0xb2, 0x1e, 0xdd, 0x4c]]"

definition check_rct_type :: "rct_type \<Rightarrow> hard_fork \<Rightarrow> bytes \<Rightarrow> ring_ct_error + unit" where
  "check_rct_type ty hf tx_hash =
     (if (ty = AggregateMlsagBorromean \<or> ty = MlsagBorromean) \<and> V4 \<le> hf \<and> hf < V9 then Ok ()
      else if ty = MlsagBulletproofs \<and> V8 \<le> hf \<and> hf < V11 then Ok ()
      else if ty = MlsagBulletproofsCompactAmount \<and> V10 \<le> hf \<and> hf < V14 then Ok ()
      else if ty = MlsagBulletproofsCompactAmount \<and> tx_hash \<in> set GRANDFATHERED_TRANSACTIONS then Ok ()
      else if ty = ClsagBulletproof \<and> V13 \<le> hf \<and> hf < V16 then Ok ()
      else if ty = ClsagBulletproofPlus \<and> V15 \<le> hf then Ok ()
      else Err TypeNotAllowed)"

fun sum_points :: "'p oxide \<Rightarrow> bytes list \<Rightarrow> 'p option" where
  "sum_points X [] = Some (point_zero X)"
| "sum_points X (c # cs) =
     do { p \<leftarrow> decompress_point X c; s \<leftarrow> sum_points X cs; Some (point_add X p s) }"

definition simple_type_balances :: "'p oxide \<Rightarrow> rct_proofs \<Rightarrow> ring_ct_error fault + unit" where
  "simple_type_balances X rct_sig =
     and_then
       (if rct_type_of X rct_sig = MlsagBorromean then Ok (base_pseudo_outs (rct_base rct_sig))
        else case prunable rct_sig of
               PClsag _ po _ \<Rightarrow> Ok po
             | PMlsagBulletproofsCompactAmount _ po _ \<Rightarrow> Ok po
             | PMlsagBulletproofs _ po _ \<Rightarrow> Ok po
             | PMlsagBorromean _ _ \<Rightarrow> Ok (base_pseudo_outs (rct_base rct_sig))
             | PAggregateMlsagBorromean _ _ \<Rightarrow> Err Panic) (\<lambda>pseudo_outs.
     and_then (ok_or (Fault SimpleAmountDoNotBalance) (sum_points X pseudo_outs)) (\<lambda>sum_inputs.
     and_then (ok_or (Fault SimpleAmountDoNotBalance) (sum_points X (commitments (rct_base rct_sig)))) (\<lambda>outs.
     if sum_inputs = point_add X outs (amount_times_H X (rct_fee (rct_base rct_sig))) then Ok ()
     else Err (Fault SimpleAmountDoNotBalance))))"

definition check_output_range_proofs :: "'p oxide \<Rightarrow> rct_proofs \<Rightarrow> ring_ct_error + unit" where
  "check_output_range_proofs X prfs =
     (let cs = commitments (rct_base prfs);
          borro = (\<lambda>bs. try_for_each (\<lambda>(b, c). if borromean_verify X b c then Ok () else Err BorromeanRangeInvalid) (zip bs cs));
          bullet = (\<lambda>b. if bulletproof_verify X b cs then Ok () else Err BulletproofsRangeInvalid)
      in case prunable prfs of
           PMlsagBorromean _ bs \<Rightarrow> borro bs
         | PAggregateMlsagBorromean _ bs \<Rightarrow> borro bs
         | PMlsagBulletproofs _ _ b \<Rightarrow> bullet b
         | PMlsagBulletproofsCompactAmount _ _ b \<Rightarrow> bullet b
         | PClsag _ _ b \<Rightarrow> bullet b)"

definition ring_ct_semantic_checks ::
  "'p oxide \<Rightarrow> rct_proofs \<Rightarrow> bytes \<Rightarrow> hard_fork \<Rightarrow> ring_ct_error fault + unit" where
  "ring_ct_semantic_checks X prfs tx_hash hf =
     (let ty = rct_type_of X prfs in
      and_then (no_panic (check_rct_type ty hf tx_hash)) (\<lambda>_.
      and_then (no_panic (check_output_range_proofs X prfs)) (\<lambda>_.
      if ty \<noteq> AggregateMlsagBorromean then simple_type_balances X prfs else Ok ())))"

definition to_key_image :: "input \<Rightarrow> 'e fault + bytes" where
  "to_key_image inp = (case inp of ToKey _ _ ki \<Rightarrow> Ok ki | Gen _ \<Rightarrow> Err Panic)"

definition check_mlsags ::
  "'p oxide \<Rightarrow> bytes \<Rightarrow> input list \<Rightarrow> bytes list \<Rightarrow> bytes list \<Rightarrow> (bytes \<times> bytes) list list \<Rightarrow> ring_ct_error fault + unit" where
  "check_mlsags X msg ins mlsags pseudo_outs rs =
     try_for_each
       (\<lambda>(((mlsag, pseudo_out), inp), ring). and_then (to_key_image inp) (\<lambda>ki.
          map_err (\<lambda>e. Fault (MLSAGError e)) (mlsag_verify X mlsag msg ring pseudo_out ki)))
       (zip (zip (zip mlsags pseudo_outs) ins) rs)"

definition check_clsags ::
  "'p oxide \<Rightarrow> bytes \<Rightarrow> input list \<Rightarrow> bytes list \<Rightarrow> bytes list \<Rightarrow> (bytes \<times> bytes) list list \<Rightarrow> ring_ct_error fault + unit" where
  "check_clsags X msg ins cls pseudo_outs rs =
     try_for_each
       (\<lambda>(((clsag, pseudo_out), inp), ring). and_then (to_key_image inp) (\<lambda>ki.
          map_err (\<lambda>e. Fault (CLSAGError e)) (clsag_verify X clsag ring ki pseudo_out msg)))
       (zip (zip (zip cls pseudo_outs) ins) rs)"

definition rct_check_input_signatures ::
  "'p oxide \<Rightarrow> bytes \<Rightarrow> input list \<Rightarrow> rct_proofs \<Rightarrow> rings \<Rightarrow> ring_ct_error fault + unit" where
  "rct_check_input_signatures X msg ins prfs rgs =
     (case rgs of
        Legacy _ \<Rightarrow> Err Panic
      | RingCTRings rs \<Rightarrow>
          if rs = [] then Err (Fault RingInvalid)
          else case prunable prfs of
                 PAggregateMlsagBorromean mlsag _ \<Rightarrow>
                   and_then (collect_results to_key_image ins) (\<lambda>key_images.
                   map_err (\<lambda>e. Fault (MLSAGError e))
                     (aggregate_mlsag_verify X mlsag (commitments (rct_base prfs)) (rct_fee (rct_base prfs)) rs msg key_images))
               | PMlsagBorromean mlsags _ \<Rightarrow> check_mlsags X msg ins mlsags (base_pseudo_outs (rct_base prfs)) rs
               | PMlsagBulletproofsCompactAmount mlsags po _ \<Rightarrow> check_mlsags X msg ins mlsags po rs
               | PMlsagBulletproofs mlsags po _ \<Rightarrow> check_mlsags X msg ins mlsags po rs
               | PClsag cls po _ \<Rightarrow> check_clsags X msg ins cls po rs)"

definition legacy_check_input_signatures ::
  "'p oxide \<Rightarrow> input list \<Rightarrow> bytes list \<Rightarrow> rings \<Rightarrow> bytes \<Rightarrow> transaction_error fault + unit" where
  "legacy_check_input_signatures X ins sigs rgs tx_sig_hash =
     (case rgs of
        Legacy rs \<Rightarrow>
          if length sigs \<noteq> length ins \<or> length rs \<noteq> length ins then Err (Fault RingSignatureIncorrect)
          else try_for_each
                 (\<lambda>((inp, ring), sig). and_then (to_key_image inp) (\<lambda>ki.
                    if ring_signature_verify X sig tx_sig_hash ring ki then Ok ()
                    else Err (Fault RingSignatureIncorrect)))
                 (zip (zip ins rs) sigs)
      | RingCTRings _ \<Rightarrow> Err Panic)"

subsection \<open>Whole transactions\<close>

definition max_tx_version :: "hard_fork \<Rightarrow> tx_version_t" where
  "max_tx_version hf = (if hf \<le> V3 then RingSignatures else RingCT)"

definition min_tx_version :: "hard_fork \<Rightarrow> tx_version_t" where
  "min_tx_version hf = (if V6 \<le> hf then RingCT else RingSignatures)"

definition check_tx_version ::
  "decoy_info option \<Rightarrow> tx_version_t \<Rightarrow> hard_fork \<Rightarrow> transaction_error + unit" where
  "check_tx_version d version hf =
     (case d of
        Some d \<Rightarrow>
          (if tx_version_less (max_tx_version hf) version then Err TransactionVersionInvalid
           else if tx_version_less version (min_tx_version hf) \<and> not_mixable d = 0
                then Err TransactionVersionInvalid
                else Ok ())
      | None \<Rightarrow> (if version \<noteq> RingSignatures then Err TransactionVersionInvalid else Ok ()))"

definition transaction_weight_limit :: "hard_fork \<Rightarrow> nat" where
  "transaction_weight_limit hf = penalty_free_zone hf div 2 - 600"

definition is_bp_or_bpp :: "'p oxide \<Rightarrow> transaction \<Rightarrow> bool" where
  "is_bp_or_bpp X tx =
     (case tx of
        TxV2 _ (Some prfs) \<Rightarrow>
          (case rct_type_of X prfs of
             AggregateMlsagBorromean \<Rightarrow> False
           | MlsagBorromean \<Rightarrow> False
           | MlsagBulletproofs \<Rightarrow> True
           | MlsagBulletproofsCompactAmount \<Rightarrow> True
           | ClsagBulletproof \<Rightarrow> True
           | ClsagBulletproofPlus \<Rightarrow> True)
      | TxV2 _ None \<Rightarrow> False
      | TxV1 _ _ \<Rightarrow> False)"

definition from_rct :: "ring_ct_error fault + 'a \<Rightarrow> transaction_error fault + 'a" where
  "from_rct = map_err (\<lambda>f. case f of Panic \<Rightarrow> Panic | Fault e \<Rightarrow> Fault (RingCTError e))"

definition check_transaction_semantic ::
  "'p oxide \<Rightarrow> transaction \<Rightarrow> nat \<Rightarrow> nat \<Rightarrow> bytes \<Rightarrow> hard_fork \<Rightarrow> transaction_error fault + nat" where
  "check_transaction_semantic X tx tx_blob_size tx_weight tx_hash hf =
     (if MAX_TX_BLOB_SIZE < tx_blob_size \<or> (V8 \<le> hf \<and> transaction_weight_limit hf < tx_weight)
      then Err (Fault TooBig)
      else
        and_then (ok_or (Fault TransactionVersionInvalid) (tx_version_from_raw (tx_version X tx))) (\<lambda>ver.
        and_then (no_panic (check_outputs_semantics X (outputs (prefix tx)) hf ver (is_bp_or_bpp X tx))) (\<lambda>outputs_sum.
        and_then (no_panic (check_inputs_semantics (inputs (prefix tx)) hf)) (\<lambda>inputs_sum.
        case tx of
          TxV1 _ _ \<Rightarrow>
            (if inputs_sum \<le> outputs_sum then Err (Fault OutputsTooHigh) else Ok (inputs_sum - outputs_sum))
        | TxV2 _ prfs \<Rightarrow>
            and_then (ok_or (Fault TransactionVersionInvalid) prfs) (\<lambda>prfs.
            and_then (from_rct (ring_ct_semantic_checks X prfs tx_hash hf)) (\<lambda>_.
            Ok (rct_fee (rct_base prfs))))))))"

definition check_transaction_contextual ::
  "'p oxide \<Rightarrow> transaction \<Rightarrow> tx_ring_members_info \<Rightarrow> nat \<Rightarrow> nat \<Rightarrow> hard_fork \<Rightarrow> transaction_error fault + unit" where
  "check_transaction_contextual X tx info current_chain_height now hf =
     and_then (ok_or (Fault TransactionVersionInvalid) (tx_version_from_raw (tx_version X tx))) (\<lambda>ver.
     and_then (check_inputs_contextual X (inputs (prefix tx)) info current_chain_height hf) (\<lambda>_.
     and_then (no_panic (check_tx_version (ring_decoy_info info) ver hf)) (\<lambda>_.
     and_then (no_panic (check_all_time_locks (time_locked_outs info) current_chain_height now hf)) (\<lambda>_.
     case tx of
       TxV1 pre sigs \<Rightarrow>
         and_then (ok_or (Fault TransactionVersionInvalid) (signature_hash X tx)) (\<lambda>h.
         legacy_check_input_signatures X (inputs pre) sigs (tx_rings info) h)
     | TxV2 pre prfs \<Rightarrow>
         and_then (ok_or (Fault TransactionVersionInvalid) (signature_hash X tx)) (\<lambda>h.
         and_then (ok_or (Fault TransactionVersionInvalid) prfs) (\<lambda>prfs.
         from_rct (rct_check_input_signatures X h (inputs pre) prfs (tx_rings info))))))))"

subsection \<open>Specification side\<close>

fun input_amount :: "input \<Rightarrow> nat" where
  "input_amount (ToKey a _ _) = unwrap_or_0 a"
| "input_amount (Gen _) = 0"

definition input_total :: "input list \<Rightarrow> nat" where
  "input_total ins = sum_list (map input_amount ins)"

definition output_total :: "tx_output list \<Rightarrow> nat" where
  "output_total outs = sum_list (map (\<lambda>out. unwrap_or_0 (amount out)) outs)"

definition is_to_key :: "input \<Rightarrow> bool" where
  "is_to_key inp = (case inp of ToKey _ _ _ \<Rightarrow> True | Gen _ \<Rightarrow> False)"

definition balances :: "'p oxide \<Rightarrow> bytes list \<Rightarrow> rct_proofs \<Rightarrow> bool" where
  "balances X pseudo_outs prfs \<longleftrightarrow>
     (\<exists>i out. sum_points X pseudo_outs = Some i \<and> sum_points X (commitments (rct_base prfs)) = Some out \<and>
        i = point_add X out (amount_times_H X (rct_fee (rct_base prfs))))"

subsection \<open>Facts\<close>

lemma is_to_key_simps [simp]: "is_to_key (ToKey a offs ki)" "\<not> is_to_key (Gen h)"
  by (simp_all add: is_to_key_def)

lemma check_input_type_Ok [result_simps]: "check_input_type inp = Ok u \<longleftrightarrow> is_to_key inp"
  by (cases inp) (simp_all add: check_input_type_def)

lemma check_input_has_decoys_Ok [result_simps]:
  "check_input_has_decoys inp = Ok u \<longleftrightarrow> is_to_key inp \<and> key_offsets inp \<noteq> []"
  by (cases inp) (simp_all add: check_input_has_decoys_def)

lemma check_ring_members_unique_Ok [result_simps]:
  "check_ring_members_unique inp hf = Ok u \<longleftrightarrow>
   (V6 \<le> hf \<longrightarrow> is_to_key inp \<and> (\<forall>r \<in> set (drop 1 (key_offsets inp)). 0 < r))"
  by (cases inp) (auto simp: check_ring_members_unique_def result_simps split: if_splits)

lemma sum_inputs_Ok:
  "sum_inputs_check_overflow ins = Ok t \<longleftrightarrow>
   (\<forall>i \<in> set ins. is_to_key i) \<and> input_total ins < 2 ^ 64 \<and> t = input_total ins"
proof -
  have "(\<lambda>sum inp. case inp of ToKey a _ _ \<Rightarrow> ok_or InputsOverflow (checked_add 64 sum (unwrap_or_0 a))
      | Gen _ \<Rightarrow> Err IncorrectInputType) =
    (\<lambda>sum inp. and_then (check_input_type inp) (\<lambda>_. ok_or InputsOverflow (checked_add 64 sum (input_amount inp))))"
    by (intro ext) (simp add: check_input_type_def split: input.split)
  then show ?thesis
    using try_fold_checked_sum [of 0 64 check_input_type InputsOverflow input_amount ins t]
    by (simp add: sum_inputs_check_overflow_def input_total_def result_simps)
qed

lemma sum_outputs_Ok:
  "sum_outputs outs hf ver = Ok t \<longleftrightarrow>
   (\<forall>out \<in> set outs. (case ver of
       RingSignatures \<Rightarrow> check_output_amount_v1 (unwrap_or_0 (amount out)) hf
     | RingCT \<Rightarrow> check_output_amount_v2 (unwrap_or_0 (amount out))) = Ok ()) \<and>
   output_total outs < 2 ^ 64 \<and> t = output_total outs"
  using try_fold_checked_sum [of 0 64 "\<lambda>out. case ver of
       RingSignatures \<Rightarrow> check_output_amount_v1 (unwrap_or_0 (amount out)) hf
     | RingCT \<Rightarrow> check_output_amount_v2 (unwrap_or_0 (amount out))" TxOutputsOverflow
       "\<lambda>out. unwrap_or_0 (amount out)" outs t]
  by (simp add: sum_outputs_def output_total_def)

lemma windows2_mem: "(a, b) \<in> set (windows2 xs) \<Longrightarrow> a \<in> set xs \<and> b \<in> set xs"
  by (cases xs) (auto simp: windows2_def dest: set_zip_leftD set_zip_rightD)

lemma get_ki_Ok: "is_to_key i \<Longrightarrow> get_ki i = Ok (key_image i)"
  by (cases i) (simp_all add: get_ki_def)

lemma check_inputs_sorted_Ok:
  assumes "\<forall>i \<in> set ins. is_to_key i"
  shows "check_inputs_sorted ins hf = Ok u \<longleftrightarrow> (V7 \<le> hf \<longrightarrow> sorted_wrt (>) (map key_image ins))"
proof -
  have "and_then (get_ki a) (\<lambda>ka. and_then (get_ki b) (\<lambda>kb. if ka \<le> kb then Err InputsAreNotOrdered else Ok ())) = Ok () \<longleftrightarrow>
      key_image b < key_image a" if "(a, b) \<in> set (windows2 ins)" for a b
    using windows2_mem [OF that] assms by (auto simp: get_ki_Ok not_le dest: leD)
  then have "check_inputs_sorted ins hf = Ok u \<longleftrightarrow>
      (V7 \<le> hf \<longrightarrow> (\<forall>(a, b) \<in> set (windows2 ins). key_image b < key_image a))"
    by (auto simp: check_inputs_sorted_def try_for_each_Ok)
  also have "(\<forall>(a, b) \<in> set (windows2 ins). key_image b < key_image a) \<longleftrightarrow>
      sorted_wrt (\<lambda>a b. key_image b < key_image a) ins"
    by (rule windows2_sorted_wrt) (auto simp: transp_on_def)
  finally show ?thesis
    by (simp add: sorted_wrt_map)
qed

lemma check_inputs_semantics_Ok:
  "check_inputs_semantics ins hf = Ok t \<longleftrightarrow>
   ins \<noteq> [] \<and> (\<forall>i \<in> set ins. is_to_key i \<and> key_offsets i \<noteq> [] \<and>
      (V6 \<le> hf \<longrightarrow> (\<forall>r \<in> set (drop 1 (key_offsets i)). 0 < r))) \<and>
   (V7 \<le> hf \<longrightarrow> sorted_wrt (>) (map key_image ins)) \<and> input_total ins < 2 ^ 64 \<and> t = input_total ins"
  by (auto simp: check_inputs_semantics_def result_simps check_inputs_sorted_Ok sum_inputs_Ok)

lemma sorted_wrt_greater_distinct: "sorted_wrt (>) (xs :: 'a::order list) \<Longrightarrow> distinct xs"
  by (induction xs) auto

lemma from_rct_simps [simp]:
  "from_rct (Inr v) = Inr v"
  "from_rct (Inl Panic) = Inl Panic"
  "from_rct (Inl (Fault e)) = Inl (Fault (RingCTError e))"
  by (simp_all add: from_rct_def)

lemma from_rct_Ok [result_simps]: "from_rct r = Inr v \<longleftrightarrow> r = Inr v"
  by (cases r) (auto simp: from_rct_def split: fault.splits)

definition pseudo_outs_of :: "rct_proofs \<Rightarrow> bytes list" where
  "pseudo_outs_of prfs =
     (case prunable prfs of
        PClsag _ po _ \<Rightarrow> po
      | PMlsagBulletproofsCompactAmount _ po _ \<Rightarrow> po
      | PMlsagBulletproofs _ po _ \<Rightarrow> po
      | PMlsagBorromean _ _ \<Rightarrow> base_pseudo_outs (rct_base prfs)
      | PAggregateMlsagBorromean _ _ \<Rightarrow> [])"

lemma simple_type_balances_Ok:
  assumes "rct_type_of X prfs = MlsagBorromean \<longrightarrow> (\<exists>m b. prunable prfs = PMlsagBorromean m b)"
  shows "simple_type_balances X prfs = Ok u \<longleftrightarrow>
    (\<forall>m b. prunable prfs \<noteq> PAggregateMlsagBorromean m b) \<and> balances X (pseudo_outs_of prfs) prfs"
  using assms
  by (cases "prunable prfs") (auto simp: simple_type_balances_def pseudo_outs_of_def balances_def result_simps)

lemma check_transaction_semantic_Ok:
  assumes "check_transaction_semantic X tx sz w h hf = Ok fee"
  obtains ver where "tx_version_from_raw (tx_version X tx) = Some ver"
    "sz \<le> MAX_TX_BLOB_SIZE"
    "check_outputs_semantics X (outputs (prefix tx)) hf ver (is_bp_or_bpp X tx) = Ok (output_total (outputs (prefix tx)))"
    "check_inputs_semantics (inputs (prefix tx)) hf = Ok (input_total (inputs (prefix tx)))"
    "case tx of
       TxV1 _ _ \<Rightarrow> input_total (inputs (prefix tx)) = output_total (outputs (prefix tx)) + fee \<and> 0 < fee
     | TxV2 _ prfs \<Rightarrow> (\<exists>p. prfs = Some p \<and> fee = rct_fee (rct_base p) \<and> ring_ct_semantic_checks X p h hf = Ok ())"
proof -
  obtain ver osum isum where
    *: "tx_version_from_raw (tx_version X tx) = Some ver" "sz \<le> MAX_TX_BLOB_SIZE"
      "check_outputs_semantics X (outputs (prefix tx)) hf ver (is_bp_or_bpp X tx) = Ok osum"
      "check_inputs_semantics (inputs (prefix tx)) hf = Ok isum"
      "(case tx of
          TxV1 _ _ \<Rightarrow> (if isum \<le> osum then Err (Fault OutputsTooHigh) else Ok (isum - osum))
        | TxV2 _ prfs \<Rightarrow>
            and_then (ok_or (Fault TransactionVersionInvalid) prfs) (\<lambda>prfs.
            and_then (from_rct (ring_ct_semantic_checks X prfs h hf)) (\<lambda>_.
            Ok (rct_fee (rct_base prfs))))) = Ok fee"
    using assms by (auto simp: check_transaction_semantic_def result_simps split: if_splits)
  have "osum = output_total (outputs (prefix tx))"
    using *(3) by (auto simp: check_outputs_semantics_def result_simps sum_outputs_Ok)
  moreover have "isum = input_total (inputs (prefix tx))"
    using *(4) by (simp add: check_inputs_semantics_Ok)
  ultimately show thesis
    using * by (intro that [of ver]) (auto simp: result_simps split: transaction.splits if_splits)
qed

lemma fee_of_sums:
  "(\<forall>i \<in> set ins. is_to_key i) \<Longrightarrow> s + input_total ins < 2 ^ 64 \<Longrightarrow>
   sum_input_amounts s ins = Some (Some (s + input_total ins))"
  by (induction s ins rule: sum_input_amounts.induct)
    (auto simp: input_total_def checked_add_def ac_simps split: option.splits)

lemma sub_output_amounts_eq:
  "output_total outs \<le> s \<Longrightarrow> sub_output_amounts s outs = Some (s - output_total outs)"
  by (induction s outs rule: sub_output_amounts.induct)
    (auto simp: output_total_def checked_sub_def split: option.splits)

lemma absolute_offsets_from_strict:
  assumes "\<forall>r \<in> set rs. 0 < r" "prev + sum_list rs < 2 ^ 64"
  shows "sorted_wrt (<) (prev # absolute_offsets_from prev rs)"
  using assms
proof (induction rs arbitrary: prev)
  case (Cons r rs)
  have "wadd 64 prev r = prev + r"
    using Cons.prems by (intro wadd_exact) simp
  then show ?case
    using Cons.IH [of "prev + r"] Cons.prems by (auto simp: Let_def add.assoc)
qed simp

lemma length_absolute_offsets_from [simp]: "length (absolute_offsets_from prev rs) = length rs"
  by (induction rs arbitrary: prev) (simp_all add: Let_def)

lemma check_decoy_info_single_no_panic: "hf \<noteq> V1 \<Longrightarrow> check_decoy_info_single d hf \<noteq> Err Panic"
  by (cases hf) (auto simp: check_decoy_info_single_def minimum_decoys_def)

lemma check_decoy_info_no_panic: "hf \<noteq> V1 \<Longrightarrow> check_decoy_info d hf \<noteq> Err Panic"
  using check_decoy_info_single_no_panic [of hf d] check_decoy_info_single_no_panic [of V14 d]
    check_decoy_info_single_no_panic [of V16 d]
  by (auto simp: check_decoy_info_def split: sum.splits fault.splits)

lemma check_decoy_info_single_Ok:
  "check_decoy_info_single d hf = Ok u \<longleftrightarrow>
   (\<exists>m. minimum_decoys hf = Some m \<and>
      (if min_decoys d < m then 0 < not_mixable d \<and> mixable d \<le> 1
       else V8 \<le> hf \<longrightarrow> min_decoys d = m) \<and>
      (V12 \<le> hf \<longrightarrow> min_decoys d = max_decoys d))"
  by (cases "minimum_decoys hf") (auto simp: check_decoy_info_single_def)

lemma decoy_fold:
  assumes "try_fold (decoy_step f m) d ins = Ok d'"
  shows "(\<forall>i \<in> set ins. is_to_key i \<and> key_offsets i \<noteq> [])"
    "mixable d' + not_mixable d' = mixable d + not_mixable d + length ins"
    "min_decoys d' = fold min (map (\<lambda>i. length (key_offsets i) - 1) ins) (min_decoys d)"
    "max_decoys d' = fold max (map (\<lambda>i. length (key_offsets i) - 1) ins) (max_decoys d)"
    "not_mixable d' = not_mixable d + length (filter (\<lambda>i. case in_amount i of None \<Rightarrow> False | Some a \<Rightarrow> f a \<le> m) ins)"
proof -
  have "(\<forall>i \<in> set ins. is_to_key i \<and> key_offsets i \<noteq> []) \<and>
    mixable d' + not_mixable d' = mixable d + not_mixable d + length ins \<and>
    min_decoys d' = fold min (map (\<lambda>i. length (key_offsets i) - 1) ins) (min_decoys d) \<and>
    max_decoys d' = fold max (map (\<lambda>i. length (key_offsets i) - 1) ins) (max_decoys d) \<and>
    not_mixable d' = not_mixable d + length (filter (\<lambda>i. case in_amount i of None \<Rightarrow> False | Some a \<Rightarrow> f a \<le> m) ins)"
    using assms
  proof (induction ins arbitrary: d)
    case (Cons i ins)
    then obtain a offs ki where i: "i = ToKey a offs ki"
      by (cases i) (simp_all add: decoy_step_def)
    from Cons.prems obtain d1 where d1: "decoy_step f m d i = Ok d1" "try_fold (decoy_step f m) d1 ins = Ok d'"
      by (auto simp: result_simps)
    then have "offs \<noteq> []" "mixable d1 + not_mixable d1 = mixable d + not_mixable d + 1"
        "min_decoys d1 = min (length offs - 1) (min_decoys d)" "max_decoys d1 = max (length offs - 1) (max_decoys d)"
        "not_mixable d1 = not_mixable d + (case a of None \<Rightarrow> 0 | Some a \<Rightarrow> if f a \<le> m then 1 else 0)"
      by (auto simp: i decoy_step_def Let_def result_simps ac_simps split: option.splits if_splits)
    with Cons.IH [OF d1(2)] show ?case
      by (auto simp: i split: option.splits)
  qed simp
  then show "(\<forall>i \<in> set ins. is_to_key i \<and> key_offsets i \<noteq> [])"
    "mixable d' + not_mixable d' = mixable d + not_mixable d + length ins"
    "min_decoys d' = fold min (map (\<lambda>i. length (key_offsets i) - 1) ins) (min_decoys d)"
    "max_decoys d' = fold max (map (\<lambda>i. length (key_offsets i) - 1) ins) (max_decoys d)"
    "not_mixable d' = not_mixable d + length (filter (\<lambda>i. case in_amount i of None \<Rightarrow> False | Some a \<Rightarrow> f a \<le> m) ins)"
    by blast+
qed


lemma to_key_image_eq: "is_to_key i \<Longrightarrow> to_key_image i = Ok (key_image i)"
  by (cases i) (simp_all add: to_key_image_def)

lemma to_key_image_Ok [result_simps]: "to_key_image i = Ok ki \<longleftrightarrow> is_to_key i \<and> ki = key_image i"
  by (cases i) (auto simp: to_key_image_def)

lemma check_clsags_Ok:
  assumes "length cls = length ins" "length po = length ins" "length rs = length ins"
  shows "check_clsags X msg ins cls po rs = Ok u \<longleftrightarrow>
    (\<forall>i < length ins. is_to_key (ins ! i) \<and>
       clsag_verify X (cls ! i) (rs ! i) (key_image (ins ! i)) (po ! i) msg = Ok ())"
  using assms by (auto simp: check_clsags_def result_simps all_set_conv_all_nth)

lemma check_mlsags_Ok:
  assumes "length ms = length ins" "length po = length ins" "length rs = length ins"
  shows "check_mlsags X msg ins ms po rs = Ok u \<longleftrightarrow>
    (\<forall>i < length ins. is_to_key (ins ! i) \<and>
       mlsag_verify X (ms ! i) msg (rs ! i) (po ! i) (key_image (ins ! i)) = Ok ())"
  using assms by (auto simp: check_mlsags_def result_simps all_set_conv_all_nth)

lemma legacy_signatures_Ok:
  "legacy_check_input_signatures X ins sigs (Legacy rs) h = Ok u \<longleftrightarrow>
   length sigs = length ins \<and> length rs = length ins \<and>
   (\<forall>i < length ins. is_to_key (ins ! i) \<and> ring_signature_verify X (sigs ! i) h (rs ! i) (key_image (ins ! i)))"
  by (auto simp: legacy_check_input_signatures_def result_simps all_set_conv_all_nth split: if_splits)

lemma check_key_images_Ok [result_simps]:
  "check_key_images X i = Ok u \<longleftrightarrow>
   is_to_key i \<and> (\<exists>p. decompress_point X (key_image i) = Some p \<and> is_torsion_free X p)"
  by (cases i) (auto simp: check_key_images_def split: option.splits)

lemma check_10_block_lock_Ok [result_simps]:
  "youngest + 10 < 2 ^ 64 \<Longrightarrow>
   check_10_block_lock youngest height hf = Ok u \<longleftrightarrow> (V12 \<le> hf \<longrightarrow> youngest + 10 \<le> height)"
  by (auto simp: check_10_block_lock_def wadd_exact)

lemma try_for_each_no_panic:
  "(\<And>x. x \<in> set xs \<Longrightarrow> f x \<noteq> Inl Panic) \<Longrightarrow> try_for_each f xs \<noteq> Inl Panic"
  by (metis try_for_each_Err)

lemma map_err_Fault_ne_Panic [simp]: "map_err (\<lambda>e. Fault (g e)) r \<noteq> Inl Panic"
  by (cases r) simp_all

lemma zip_mem_1: "((a, b), c) \<in> set (zip (zip xs ys) zs) \<Longrightarrow> a \<in> set xs"
  by (metis set_zip_leftD)

lemma zip_mem_3: "(((a, b), c), d) \<in> set (zip (zip (zip xs ys) zs) us) \<Longrightarrow> c \<in> set zs"
  by (metis set_zip_leftD set_zip_rightD)

lemma check_clsags_no_panic: "\<forall>i \<in> set ins. is_to_key i \<Longrightarrow> check_clsags X msg ins cls po rs \<noteq> Inl Panic"
  unfolding check_clsags_def
  by (rule try_for_each_no_panic) (auto simp: to_key_image_eq dest!: zip_mem_3)

lemma check_mlsags_no_panic: "\<forall>i \<in> set ins. is_to_key i \<Longrightarrow> check_mlsags X msg ins ms po rs \<noteq> Inl Panic"
  unfolding check_mlsags_def
  by (rule try_for_each_no_panic) (auto simp: to_key_image_eq dest!: zip_mem_3)

lemma rct_signatures_no_panic:
  assumes "\<forall>i \<in> set ins. is_to_key i"
  shows "rct_check_input_signatures X h ins prfs (RingCTRings rs) \<noteq> Inl Panic"
proof -
  have "(collect_results to_key_image ins :: ring_ct_error fault + bytes list) = Ok (map key_image ins)"
    using assms by (intro collect_results_map) (simp add: to_key_image_eq)
  then show ?thesis
    using check_clsags_no_panic [OF assms, of X] check_mlsags_no_panic [OF assms, of X]
    by (auto simp: rct_check_input_signatures_def split: rct_prunable.splits)
qed

lemma legacy_signatures_no_panic:
  assumes "\<forall>i \<in> set ins. is_to_key i"
  shows "legacy_check_input_signatures X ins sigs (Legacy rs) h \<noteq> Inl Panic"
proof -
  have "try_for_each (\<lambda>((inp, ring), sig). and_then (to_key_image inp) (\<lambda>ki.
      if ring_signature_verify X sig h ring ki then Ok () else Err (Fault RingSignatureIncorrect)))
      (zip (zip ins rs) sigs) \<noteq> Inl Panic"
    using assms by (intro try_for_each_no_panic) (auto simp: to_key_image_eq dest!: zip_mem_1 split: if_splits)
  then show ?thesis
    by (simp add: legacy_check_input_signatures_def)
qed

lemma and_then_no_panic:
  "r \<noteq> Inl Panic \<Longrightarrow> (\<And>v. r = Inr v \<Longrightarrow> k v \<noteq> Inl Panic) \<Longrightarrow> and_then r k \<noteq> Inl Panic"
  by (cases r) simp_all

lemma from_rct_no_panic: "r \<noteq> Inl Panic \<Longrightarrow> from_rct r \<noteq> Inl Panic"
  by (cases r) (auto simp: from_rct_def split: fault.splits)

lemma ok_or_Fault_ne_Panic [simp]: "ok_or (Fault e) x \<noteq> Inl Panic"
  by (cases x) simp_all

definition ids_at :: "(nat \<times> nat list) list \<Rightarrow> nat \<Rightarrow> nat set" where
  "ids_at m k = (case map_of m k of None \<Rightarrow> {} | Some s \<Rightarrow> set s)"

definition index_map_wf :: "(nat \<times> nat list) list \<Rightarrow> bool" where
  "index_map_wf m \<longleftrightarrow> distinct (map fst m) \<and> (\<forall>(k, s) \<in> set m. distinct s)"

lemma set_index_set_extend [simp]: "set (index_set_extend s xs) = set s \<union> set xs"
  by (induction s xs rule: index_set_extend.induct) auto

lemma distinct_index_set_extend [simp]: "distinct s \<Longrightarrow> distinct (index_set_extend s xs)"
  by (induction s xs rule: index_set_extend.induct) auto

lemma ids_at_extend: "ids_at (index_map_extend k xs m) k' = (if k' = k then ids_at m k \<union> set xs else ids_at m k')"
proof (induction m)
  case (Cons p m)
  then show ?case
    by (cases p; cases "k' = k") (simp_all add: ids_at_def)
qed (simp add: ids_at_def)

lemma fst_index_map_extend: "fst ` set (index_map_extend k xs m) = insert k (fst ` set m)"
proof (induction m)
  case (Cons p m)
  then show ?case
    by (cases p) auto
qed simp

lemma index_map_wf_extend: "index_map_wf m \<Longrightarrow> index_map_wf (index_map_extend k xs m)"
proof (induction m)
  case (Cons p m)
  then show ?case
    by (cases p) (auto simp: index_map_wf_def fst_index_map_extend)
qed (simp add: index_map_wf_def)

definition ring_ids :: "input \<Rightarrow> nat set" where
  "ring_ids i = (case get_absolute_offsets (key_offsets i) of Inr ids \<Rightarrow> set ids | Inl _ \<Rightarrow> {})"

lemma insert_ring_members_Ok:
  assumes "insert_ring_members ins m = (m', Ok ())"
  shows "(index_map_wf m \<longrightarrow> index_map_wf m') \<and> (\<forall>i \<in> set ins. is_to_key i) \<and>
    ids_at m' k = ids_at m k \<union> (\<Union>i \<in> {i \<in> set ins. input_amount i = k}. ring_ids i)"
  using assms
proof (induction ins m rule: insert_ring_members.induct)
  case (3 a offs ki ins m)
  then obtain ids where ids: "get_absolute_offsets offs = Ok ids"
      "insert_ring_members ins (index_map_extend (unwrap_or_0 a) ids m) = (m', Ok ())"
    by (auto split: sum.splits)
  have "{i \<in> set (ToKey a offs ki # ins). input_amount i = k} =
      (if unwrap_or_0 a = k then {ToKey a offs ki} else {}) \<union> {i \<in> set ins. input_amount i = k}"
    by auto
  moreover have "ring_ids (ToKey a offs ki) = set ids"
    using ids(1) by (simp add: ring_ids_def)
  ultimately show ?case
    using "3.IH" [OF ids] by (auto simp: ids_at_extend index_map_wf_extend)
qed auto

text \<open>A library instance with integer points, for concrete inputs.\<close>

definition sample_oxide :: "int oxide" where
  "sample_oxide =
     \<lparr>decompress_point = (\<lambda>b. if b = [] then None else Some (int (from_le_slice b))),
      is_torsion_free = (\<lambda>p. p \<noteq> 0),
      point_zero = 0, point_add = (+), amount_times_H = int,
      tx_version = (\<lambda>tx. case tx of TxV1 _ _ \<Rightarrow> 1 | TxV2 _ _ \<Rightarrow> 2),
      signature_hash = (\<lambda>tx. Some [7]),
      rct_type_of = (\<lambda>p. case prunable p of
         PAggregateMlsagBorromean _ _ \<Rightarrow> AggregateMlsagBorromean | PMlsagBorromean _ _ \<Rightarrow> MlsagBorromean
       | PMlsagBulletproofs _ _ _ \<Rightarrow> MlsagBulletproofs
       | PMlsagBulletproofsCompactAmount _ _ _ \<Rightarrow> MlsagBulletproofsCompactAmount
       | PClsag _ _ _ \<Rightarrow> ClsagBulletproofPlus),
      borromean_verify = (\<lambda>b c. b = c), bulletproof_verify = (\<lambda>b cs. b \<noteq> []),
      ring_signature_verify = (\<lambda>sig h ring ki. sig = ki),
      aggregate_mlsag_verify = (\<lambda>m cs fee rs h kis. Ok ()),
      mlsag_verify = (\<lambda>m h ring po ki. if m = ki then Ok () else Err ''sig''),
      clsag_verify = (\<lambda>c ring ki po h. if c = ki then Ok () else Err ''sig'')\<rparr>"

definition sample_v1 :: transaction where
  "sample_v1 =
     TxV1 \<lparr>additional_timelock = TNone, inputs = [ToKey (Some 10) [4] [9], ToKey (Some 5) [3, 2] [8]],
            outputs = [\<lparr>amount = Some 7, out_key = [1], view_tag = None\<rparr>], extra = []\<rparr> [[9], [8]]"

definition sample_v2 :: transaction where
  "sample_v2 =
     TxV2 \<lparr>additional_timelock = TNone,
            inputs = [ToKey None [1, 1] [9], ToKey None [1, 1] [8]],
            outputs = [\<lparr>amount = None, out_key = [1], view_tag = Some 1\<rparr>, \<lparr>amount = None, out_key = [2], view_tag = Some 2\<rparr>],
            extra = []\<rparr>
       (Some \<lparr>rct_base = \<lparr>rct_fee = 3, base_pseudo_outs = [], encrypted_amounts = [], commitments = [[4], [5]]\<rparr>,
              prunable = PClsag [[9], [8]] [[6], [6]] [1]\<rparr>)"

lemmas sample_eval = sample_oxide_def sample_v1_def sample_v2_def check_transaction_semantic_def
  check_outputs_semantics_def check_output_types_def check_output_keys_def check_number_of_outputs_def
  sum_outputs_def check_output_amount_v1_def check_output_amount_v2_def checked_add_def
  check_inputs_semantics_def check_input_type_def check_input_has_decoys_def check_ring_members_unique_def
  check_inputs_sorted_def get_ki_def sum_inputs_check_overflow_def ring_ct_semantic_checks_def check_rct_type_def
  check_output_range_proofs_def simple_type_balances_def is_bp_or_bpp_def tx_version_from_raw_def
  MAX_TX_BLOB_SIZE_def MAX_BULLETPROOFS_OUTPUTS_def transaction_weight_limit_def penalty_free_zone_def
  PENALTY_FREE_ZONE_1_def PENALTY_FREE_ZONE_2_def PENALTY_FREE_ZONE_5_def hard_fork_order windows2_def
  input_total_def output_total_def

lemma sample_v1_semantic: "check_transaction_semantic sample_oxide sample_v1 100 100 [] V1 = Ok 8"
  by (simp add: sample_eval)

lemma sample_v2_semantic: "check_transaction_semantic sample_oxide sample_v2 2000 2000 [] V16 = Ok 3"
  by (simp add: sample_eval Let_def)

subsection \<open>Properties\<close>

text \<open>
  C4: what a transaction accepted by \<open>check_transaction_semantic\<close> balances. A version 1 transaction
  spends exactly its outputs plus a positive fee, as natural numbers with no 64-bit overflow on the
  way. In a version 2 transaction every output amount is zero, the fee is the one in its proofs and the pseudo-outs sum to the
  commitments plus the fee times \<open>H\<close>, with one exception: for the type \<open>AggregateMlsagBorromean\<close> this function says nothing about the
  sums, since such a transaction has no pseudo-outs and its balance is part of the statement its ring signature proves, which
  \<open>check_transaction_contextual\<close> verifies. The hypotheses are those of the library: the type \<open>MlsagBorromean\<close> is the one of that
  variant of proofs, and the version of a transaction is the one of its constructor.
\<close>

theorem check_transaction_semantic_conserves:
  assumes "check_transaction_semantic X tx sz w h hf = Ok fee"
    and "\<forall>p. rct_type_of X p = MlsagBorromean \<longrightarrow> (\<exists>m b. prunable p = PMlsagBorromean m b)"
    and "tx_version X tx = (case tx of TxV1 _ _ \<Rightarrow> 1 | TxV2 _ _ \<Rightarrow> 2)"
  shows "case tx of
      TxV1 pre _ \<Rightarrow> input_total (inputs pre) = output_total (outputs pre) + fee \<and> 0 < fee \<and> input_total (inputs pre) < 2 ^ 64
    | TxV2 pre prfs \<Rightarrow> output_total (outputs pre) = 0 \<and>
        (\<exists>p. prfs = Some p \<and> fee = rct_fee (rct_base p) \<and>
           (rct_type_of X p = AggregateMlsagBorromean \<or> balances X (pseudo_outs_of p) p))"
proof -
  from assms(1) obtain ver where ver: "tx_version_from_raw (tx_version X tx) = Some ver"
    "check_outputs_semantics X (outputs (prefix tx)) hf ver (is_bp_or_bpp X tx) = Ok (output_total (outputs (prefix tx)))"
    "check_inputs_semantics (inputs (prefix tx)) hf = Ok (input_total (inputs (prefix tx)))"
    "case tx of
       TxV1 _ _ \<Rightarrow> input_total (inputs (prefix tx)) = output_total (outputs (prefix tx)) + fee \<and> 0 < fee
     | TxV2 _ prfs \<Rightarrow> (\<exists>p. prfs = Some p \<and> fee = rct_fee (rct_base p) \<and> ring_ct_semantic_checks X p h hf = Ok ())"
    by (rule check_transaction_semantic_Ok)
  show ?thesis
  proof (cases tx)
    case (TxV1 pre sigs)
    then show ?thesis
      using ver(3,4) by (simp add: check_inputs_semantics_Ok)
  next
    case (TxV2 pre prfs)
    then obtain p where p: "prfs = Some p" "fee = rct_fee (rct_base p)" "ring_ct_semantic_checks X p h hf = Ok ()"
      using ver(4) by auto
    have "\<forall>out \<in> set (outputs pre). unwrap_or_0 (amount out) = 0"
      using ver(1,2) assms(3) TxV2
      by (auto simp: tx_version_from_raw_def check_outputs_semantics_def result_simps sum_outputs_Ok
          check_output_amount_v2_def split: if_splits)
    moreover have "rct_type_of X p = AggregateMlsagBorromean \<or> balances X (pseudo_outs_of p) p"
      using p(3) assms(2) by (auto simp: ring_ct_semantic_checks_def Let_def result_simps simple_type_balances_Ok split: if_splits)
    ultimately show ?thesis
      using TxV2 p by (simp add: output_total_def)
  qed
qed

theorem check_transaction_semantic_conserves_witness:
  "check_transaction_semantic sample_oxide sample_v2 2000 2000 [] V16 = Ok 3 \<and>
   (case sample_v2 of
      TxV1 pre _ \<Rightarrow> input_total (inputs pre) = output_total (outputs pre) + 3 \<and> 0 < (3::nat) \<and> input_total (inputs pre) < 2 ^ 64
    | TxV2 pre prfs \<Rightarrow> output_total (outputs pre) = 0 \<and>
        (\<exists>p. prfs = Some p \<and> 3 = rct_fee (rct_base p) \<and>
           (rct_type_of sample_oxide p = AggregateMlsagBorromean \<or> balances sample_oxide (pseudo_outs_of p) p)))"
  by (rule conjI [OF sample_v2_semantic check_transaction_semantic_conserves [OF sample_v2_semantic]])
    (auto simp: sample_oxide_def sample_v2_def split: rct_prunable.splits)

text \<open>
  C14: From fork 7 an accepted transaction has its inputs in strictly decreasing order of key image, so no
  key image occurs twice in it, and every input is a spend of a non-empty ring.
\<close>

theorem accepted_key_images_distinct:
  assumes "check_transaction_semantic X tx sz w h hf = Ok fee" "V7 \<le> hf"
  shows "distinct (map key_image (inputs (prefix tx))) \<and> inputs (prefix tx) \<noteq> [] \<and>
    (\<forall>i \<in> set (inputs (prefix tx)). is_to_key i \<and> key_offsets i \<noteq> [])"
proof -
  from assms(1) have "check_inputs_semantics (inputs (prefix tx)) hf = Ok (input_total (inputs (prefix tx)))"
    by (rule check_transaction_semantic_Ok)
  then show ?thesis
    using assms(2) sorted_wrt_greater_distinct [of "map key_image (inputs (prefix tx))"]
    unfolding check_inputs_semantics_Ok by blast
qed

theorem accepted_key_images_distinct_witness:
  "distinct (map key_image (inputs (prefix sample_v2))) \<and> inputs (prefix sample_v2) \<noteq> [] \<and>
    list_all (\<lambda>i. is_to_key i \<and> key_offsets i \<noteq> []) (inputs (prefix sample_v2))"
  unfolding list_all_iff
  by (rule accepted_key_images_distinct [OF sample_v2_semantic]) (simp add: hard_fork_order)

text \<open>
  \<open>tx_fee\<close>, which recomputes the fee of a transaction known to be valid and panics on an invalid one,
  returns the fee \<open>check_transaction_semantic\<close> accepted the transaction with.
\<close>

theorem tx_fee_agrees_with_semantic_check:
  assumes "check_transaction_semantic X tx sz w h hf = Ok fee"
  shows "tx_fee tx = Some fee"
proof -
  from assms obtain ver where ver: "tx_version_from_raw (tx_version X tx) = Some ver"
    "check_inputs_semantics (inputs (prefix tx)) hf = Ok (input_total (inputs (prefix tx)))"
    "case tx of
       TxV1 _ _ \<Rightarrow> input_total (inputs (prefix tx)) = output_total (outputs (prefix tx)) + fee \<and> 0 < fee
     | TxV2 _ prfs \<Rightarrow> (\<exists>p. prfs = Some p \<and> fee = rct_fee (rct_base p) \<and> ring_ct_semantic_checks X p h hf = Ok ())"
    by (rule check_transaction_semantic_Ok)
  show ?thesis
  proof (cases tx)
    case (TxV1 pre sigs)
    then show ?thesis
      using ver(2,3) fee_of_sums [of "inputs pre" 0] sub_output_amounts_eq [of "outputs pre" "input_total (inputs pre)"]
      by (simp add: tx_fee_def check_inputs_semantics_Ok)
  next
    case (TxV2 pre prfs)
    then show ?thesis
      using ver(3) by (auto simp: tx_fee_def)
  qed
qed

theorem tx_fee_agrees_with_semantic_check_witness: "tx_fee sample_v1 = Some 8"
  by (rule tx_fee_agrees_with_semantic_check [OF sample_v1_semantic])

text \<open>
  C36: When the relative offsets of an input do not overflow 64 bits, the check from fork 6 does what its
  documentation says: the absolute offsets it stands for are strictly increasing, so the ring members
  are pairwise different, one for each offset.
\<close>

theorem ring_members_unique:
  assumes "check_ring_members_unique (ToKey a offsets ki) hf = Ok ()" "V6 \<le> hf"
    and "get_absolute_offsets offsets = Ok ids" "sum_list offsets < 2 ^ 64"
  shows "sorted_wrt (<) ids \<and> distinct ids \<and> length ids = length offsets"
proof -
  obtain r rs where rs: "offsets = r # rs" "ids = r # absolute_offsets_from r rs"
    using assms(3) by (cases offsets) (auto simp: get_absolute_offsets_def)
  then have "sorted_wrt (<) ids"
    using assms(1,2,4) absolute_offsets_from_strict [of rs r] by (simp add: check_ring_members_unique_Ok)
  then show ?thesis
    using rs strict_sorted_iff [of ids] by simp
qed

theorem ring_members_unique_witness:
  "sorted_wrt (<) [5::nat, 7, 8] \<and> distinct [5::nat, 7, 8] \<and> length [5::nat, 7, 8] = length [5::nat, 2, 1]"
  by (rule ring_members_unique [of None "[5, 2, 1]" "[]" V6])
    (simp_all add: check_ring_members_unique_def get_absolute_offsets_def wadd_def Let_def)

text \<open>
  Without that bound the check is not enough in a build without overflow checks: the offsets
  \<open>5, 2\<^sup>6\<^sup>4 - 1, 1\<close> are all accepted as non-zero, and stand for the ring members \<open>5, 4, 5\<close>.
\<close>

theorem ring_members_wrap_to_duplicate:
  "check_ring_members_unique (ToKey None [5, 2 ^ 64 - 1, 1] ki) V16 = Ok () \<and>
   get_absolute_offsets [5, 2 ^ 64 - 1, 1] = Ok [5, 4, 5]"
  by (simp add: check_ring_members_unique_def get_absolute_offsets_def wadd_def Let_def)

text \<open>
  C35: The decoy rules. Fork 15 accepts exactly what fork 14 or fork 16 accepts, and the check
  panics for fork 1 only. Fork 16 accepts exactly rings of equal size that have 15 decoys, or fewer when some input has
  nothing to mix with and at most one input can be mixed.
\<close>

theorem check_decoy_info_spec:
  "(check_decoy_info d V15 = Ok () \<longleftrightarrow> check_decoy_info d V14 = Ok () \<or> check_decoy_info d V16 = Ok ()) \<and>
   (check_decoy_info d V16 = Ok () \<longleftrightarrow>
      min_decoys d = max_decoys d \<and>
      (min_decoys d = 15 \<or> min_decoys d < 15 \<and> 0 < not_mixable d \<and> mixable d \<le> 1)) \<and>
   (check_decoy_info d hf = Err Panic \<longleftrightarrow> hf = V1)"
proof -
  have "check_decoy_info d V15 = Ok () \<longleftrightarrow> check_decoy_info d V14 = Ok () \<or> check_decoy_info d V16 = Ok ()"
    using check_decoy_info_single_no_panic [of V14 d]
    by (auto simp: check_decoy_info_def split: sum.splits fault.splits)
  moreover have "check_decoy_info d V16 = Ok () \<longleftrightarrow>
      min_decoys d = max_decoys d \<and> (min_decoys d = 15 \<or> min_decoys d < 15 \<and> 0 < not_mixable d \<and> mixable d \<le> 1)"
    by (auto simp: check_decoy_info_def check_decoy_info_single_Ok minimum_decoys_def hard_fork_order)
  moreover have "check_decoy_info d hf = Err Panic \<longleftrightarrow> hf = V1"
    using check_decoy_info_no_panic [of hf d]
    by (cases "hf = V1") (simp_all add: check_decoy_info_def check_decoy_info_single_def minimum_decoys_def unwrap_def)
  ultimately show ?thesis
    by blast
qed

text \<open>
  C5: A transaction accepted by \<open>check_transaction_contextual\<close> uses only unlocked outputs, from fork 12 none
  younger than ten blocks, and only key images in the prime subgroup; if it is of version 1, the number of
  signatures, rings and inputs agree and the ring signature of every input verifies.
\<close>

theorem check_transaction_contextual_sound:
  assumes "check_transaction_contextual X tx info height now hf = Ok ()"
    and "youngest_used_out_height info + 10 < 2 ^ 64"
  shows "(\<forall>t \<in> set (time_locked_outs info). output_unlocked t height now hf) \<and>
    (V12 \<le> hf \<longrightarrow> youngest_used_out_height info + 10 \<le> height) \<and>
    (\<forall>i \<in> set (inputs (prefix tx)). \<exists>p. decompress_point X (key_image i) = Some p \<and> is_torsion_free X p) \<and>
    (\<forall>pre sigs. tx = TxV1 pre sigs \<longrightarrow>
       (\<exists>rs h. tx_rings info = Legacy rs \<and> signature_hash X tx = Some h \<and>
          length sigs = length (inputs pre) \<and> length rs = length (inputs pre) \<and>
          (\<forall>i < length (inputs pre). ring_signature_verify X (sigs ! i) h (rs ! i) (key_image (inputs pre ! i)))))"
proof -
  from assms(1) obtain ver where ctx: "check_inputs_contextual X (inputs (prefix tx)) info height hf = Ok ()"
      "check_all_time_locks (time_locked_outs info) height now hf = Ok ()"
      "tx_version_from_raw (tx_version X tx) = Some ver"
    by (auto simp: check_transaction_contextual_def result_simps)
  have "\<forall>i \<in> set (inputs (prefix tx)). check_key_images X i = Ok ()"
    "check_10_block_lock (youngest_used_out_height info) height hf = Ok ()"
    using ctx(1) by (auto simp: check_inputs_contextual_def result_simps)
  then have "\<forall>i \<in> set (inputs (prefix tx)). \<exists>p. decompress_point X (key_image i) = Some p \<and> is_torsion_free X p"
    "V12 \<le> hf \<longrightarrow> youngest_used_out_height info + 10 \<le> height"
    using assms(2) by (auto simp: result_simps)
  moreover have "\<forall>t \<in> set (time_locked_outs info). output_unlocked t height now hf"
    using ctx(2) by (auto simp: check_all_time_locks_def result_simps split: if_splits)
  moreover have "\<exists>rs h. tx_rings info = Legacy rs \<and> signature_hash X tx = Some h \<and>
      length sigs = length (inputs pre) \<and> length rs = length (inputs pre) \<and>
      (\<forall>i < length (inputs pre). ring_signature_verify X (sigs ! i) h (rs ! i) (key_image (inputs pre ! i)))"
    if v1: "tx = TxV1 pre sigs" for pre sigs
  proof -
    obtain h where h: "signature_hash X tx = Some h"
        "legacy_check_input_signatures X (inputs pre) sigs (tx_rings info) h = Ok ()"
      using assms(1) by (auto simp: check_transaction_contextual_def result_simps v1)
    then obtain rs where "tx_rings info = Legacy rs"
      by (cases "tx_rings info") (simp_all add: legacy_check_input_signatures_def)
    with h show ?thesis
      by (auto simp: legacy_signatures_Ok)
  qed
  ultimately show ?thesis
    by blast
qed

theorem check_transaction_contextual_sound_witness:
  "ring_signature_verify sample_oxide [8] [7] [[1], [2]] [8] \<and> output_unlocked (TBlock 3) 20 0 V1"
  using check_transaction_contextual_sound [of sample_oxide sample_v1
      "\<lparr>tx_rings = Legacy [[[1]], [[1], [2]]], ring_decoy_info = None, youngest_used_out_height = 2, time_locked_outs = [TBlock 3]\<rparr>" 20 0 V1]
  by (simp add: check_transaction_contextual_def check_inputs_contextual_def check_10_block_lock_def
      check_key_images_def check_tx_version_def check_all_time_locks_def output_unlocked_def check_block_time_lock_def
      legacy_check_input_signatures_def to_key_image_def sample_eval)

text \<open>
  C13: A contextually accepted transaction with CLSAG proofs has every input's signature verified against its
  ring, key image and pseudo-out, provided its proofs have one signature and one pseudo-out per input and
  there is one ring per input. The code zips these lists, so the proviso, which holds for a deserialised
  transaction, is what rules out an unchecked input.
\<close>

theorem clsag_inputs_all_verified:
  assumes "check_transaction_contextual X (TxV2 pre (Some prfs)) info height now hf = Ok ()"
    and "prunable prfs = PClsag cls pseudo_outs bp" "tx_rings info = RingCTRings rs"
    and "length cls = length (inputs pre)" "length pseudo_outs = length (inputs pre)" "length rs = length (inputs pre)"
  shows "\<exists>h. signature_hash X (TxV2 pre (Some prfs)) = Some h \<and>
    (\<forall>i < length (inputs pre). is_to_key (inputs pre ! i) \<and>
       clsag_verify X (cls ! i) (rs ! i) (key_image (inputs pre ! i)) (pseudo_outs ! i) h = Ok ())"
  using assms
  by (auto simp: check_transaction_contextual_def rct_check_input_signatures_def result_simps check_clsags_Ok
      split: if_splits)

theorem clsag_inputs_all_verified_witness:
  "\<exists>h. signature_hash sample_oxide sample_v2 = Some h \<and>
    (\<forall>i < 2. is_to_key (inputs (prefix sample_v2) ! i) \<and>
       clsag_verify sample_oxide ([[9], [8]] ! i) ([[([1], [1])], [([2], [2])]] ! i)
         (key_image (inputs (prefix sample_v2) ! i)) ([[6], [6]] ! i) h = Ok ())"
  using clsag_inputs_all_verified [of sample_oxide "prefix sample_v2"
      "\<lparr>rct_base = \<lparr>rct_fee = 3, base_pseudo_outs = [], encrypted_amounts = [], commitments = [[4], [5]]\<rparr>,
              prunable = PClsag [[9], [8]] [[6], [6]] [1]\<rparr>"
      "\<lparr>tx_rings = RingCTRings [[([1], [1])], [([2], [2])]],
        ring_decoy_info = Some \<lparr>mixable = 2, not_mixable = 0, min_decoys = 15, max_decoys = 15\<rparr>,
        youngest_used_out_height = 2, time_locked_outs = []\<rparr>" 20 0 V16
      "[[9], [8]]" "[[6], [6]]" "[1]" "[[([1], [1])], [([2], [2])]]"]
  by (simp add: check_transaction_contextual_def check_inputs_contextual_def check_10_block_lock_def wadd_def
      check_key_images_def check_tx_version_def check_all_time_locks_def check_decoy_info_def check_decoy_info_single_def
      minimum_decoys_def min_tx_version_def max_tx_version_def tx_version_less_def
      rct_check_input_signatures_def check_clsags_def to_key_image_def sample_eval less_Suc_eq numeral_2_eq_2)

text \<open>
  C15: \<open>check_transaction_contextual\<close> never panics when it is called as its callers promise: decoy
  information is absent exactly at fork 1, and the rings are of the transaction's version. Nothing is asked of the inputs: one that is
  not a spend is rejected with an error before the code that would panic on it.
\<close>

theorem check_transaction_contextual_no_panic:
  assumes "ring_decoy_info info = None \<longleftrightarrow> hf = V1"
    and "case tx of TxV1 _ _ \<Rightarrow> \<exists>rs. tx_rings info = Legacy rs | TxV2 _ _ \<Rightarrow> \<exists>rs. tx_rings info = RingCTRings rs"
  shows "check_transaction_contextual X tx info height now hf \<noteq> Err Panic"
proof -
  have ctx: "check_inputs_contextual X ins info height hf \<noteq> Err Panic" for ins
    unfolding check_inputs_contextual_def
    using assms(1) check_decoy_info_no_panic [of hf]
    by (intro and_then_no_panic) (auto split: option.splits)
  have keys: "\<forall>i \<in> set ins. is_to_key i" if "check_inputs_contextual X ins info height hf = Ok u" for ins u
    using that by (auto simp: check_inputs_contextual_def result_simps)
  have sig: "legacy_check_input_signatures X (inputs pre) sigs (tx_rings info) h \<noteq> Err Panic"
    if "tx = TxV1 pre sigs" "check_inputs_contextual X (inputs (prefix tx)) info height hf = Ok u" for pre sigs h u
    using assms(2) that legacy_signatures_no_panic [OF keys [OF that(2)], of X] by auto
  have rct: "rct_check_input_signatures X h (inputs pre) p (tx_rings info) \<noteq> Err Panic"
    if "tx = TxV2 pre prfs" "check_inputs_contextual X (inputs (prefix tx)) info height hf = Ok u" for pre prfs p h u
    using assms(2) that rct_signatures_no_panic [OF keys [OF that(2)], of X] by auto
  show ?thesis
  proof (cases tx)
    case (TxV1 pre sigs)
    show ?thesis
      unfolding check_transaction_contextual_def TxV1 transaction.case
      by (intro and_then_no_panic ok_or_Fault_ne_Panic no_panic_ne_Panic ctx) (use sig [OF TxV1] TxV1 in simp)
  next
    case (TxV2 pre prfs)
    show ?thesis
      unfolding check_transaction_contextual_def TxV2 transaction.case
      by (intro and_then_no_panic ok_or_Fault_ne_Panic no_panic_ne_Panic ctx from_rct_no_panic) (use rct [OF TxV2] TxV2 in simp)
  qed
qed

theorem check_transaction_contextual_no_panic_witness:
  "check_transaction_contextual sample_oxide sample_v1
     \<lparr>tx_rings = Legacy [], ring_decoy_info = None, youngest_used_out_height = 0, time_locked_outs = []\<rparr> 20 0 V1 \<noteq> Err Panic"
  by (rule check_transaction_contextual_no_panic) (simp_all add: sample_v1_def)

text \<open>
  After a successful \<open>insert_ring_member_ids\<close> the map asks, for every amount, for exactly the outputs it
  asked for before and the absolute offsets of the inputs with that amount; keys and sets stay free of
  duplicates.
\<close>

theorem insert_ring_member_ids_collects:
  assumes "insert_ring_member_ids ins m = (m', Ok ())"
  shows "(index_map_wf m \<longrightarrow> index_map_wf m') \<and>
    ids_at m' k = ids_at m k \<union> (\<Union>i \<in> {i \<in> set ins. input_amount i = k}. ring_ids i)"
proof -
  have "insert_ring_members ins m = (m', Ok ())"
    using assms by (auto simp: insert_ring_member_ids_def split: if_splits)
  from insert_ring_members_Ok [OF this, of k] show ?thesis
    by simp
qed

theorem insert_ring_member_ids_collects_witness:
  "ids_at [(10, [4]), (5, [3, 5])] 5 = {3, 5}"
  using insert_ring_member_ids_collects [of "inputs (prefix sample_v1)" "[]" "[(10, [4]), (5, [3, 5])]" 5]
  by (auto simp: sample_v1_def insert_ring_member_ids_def get_absolute_offsets_def wadd_def Let_def ids_at_def)

end
