(* ===== verification/Miner_Tx.thy ===== *)
theory Miner_Tx
  imports Tx_Rules
begin

text \<open>
  The miner transaction rules, \<^verbatim>\<open>src/consensus/rules/src/miner_tx.rs\<close>. The plain additions, subtractions and the
  \<open>usize\<close> product of the source wrap in a release build and are written with \<open>wadd\<close>, \<open>wsub\<close> and
  \<open>wmul\<close>; \<open>None\<close> is the panic of a division by zero or of a failed \<open>try_into().unwrap()\<close>.

  The theorems: the base reward never falls below the tail emission, the penalised reward is the documented
  quotient, at most the base reward and zero at twice the median, it cannot panic within the block weight
  limit, and an accepted miner transaction never claims more than reward and fees.
\<close>

definition MONEY_SUPPLY :: nat where
  "MONEY_SUPPLY = 2 ^ 64 - 1"

definition MINIMUM_REWARD_PER_MIN :: nat where
  "MINIMUM_REWARD_PER_MIN = 3 * 10 ^ 11"

definition MINER_TX_TIME_LOCKED_BLOCKS :: nat where
  "MINER_TX_TIME_LOCKED_BLOCKS = 60"

definition calculate_base_reward :: "nat \<Rightarrow> hard_fork \<Rightarrow> nat" where
  "calculate_base_reward already_generated_coins hf =
     (let target_mins = block_time hf div 60;
          emission_speed_factor = 20 - (target_mins - 1)
      in max (drop_bit emission_speed_factor (MONEY_SUPPLY - already_generated_coins))
             (MINIMUM_REWARD_PER_MIN * target_mins))"

definition calculate_block_reward :: "nat \<Rightarrow> nat \<Rightarrow> nat \<Rightarrow> hard_fork \<Rightarrow> nat option" where
  "calculate_block_reward block_weight median_bw already_generated_coins hf =
     (let base_reward = calculate_base_reward already_generated_coins hf in
      if block_weight \<le> median_bw then Some base_reward
      else
        let multiplicand = wmul 64 (wsub 64 (wmul 64 2 median_bw) block_weight) block_weight in
        if median_bw = 0 then None
        else
          let r = base_reward * multiplicand div median_bw div median_bw
          in if r < 2 ^ 64 then Some r else None)"

definition check_miner_tx_version :: "tx_version_t \<Rightarrow> hard_fork \<Rightarrow> miner_tx_error + unit" where
  "check_miner_tx_version ver hf = (if V12 \<le> hf \<and> ver \<noteq> RingCT then Err VersionInvalid else Ok ())"

definition check_inputs :: "input list \<Rightarrow> nat \<Rightarrow> miner_tx_error + unit" where
  "check_inputs ins chain_height =
     (if length ins \<noteq> 1 then Err IncorrectNumbOfInputs
      else case ins ! 0 of
             Gen height \<Rightarrow> (if height = chain_height then Ok () else Err InputsHeightIncorrect)
           | ToKey _ _ _ \<Rightarrow> Err InputNotOfTypeGen)"

definition check_time_lock :: "timelock \<Rightarrow> nat \<Rightarrow> miner_tx_error + unit" where
  "check_time_lock time_lock chain_height =
     (case time_lock of
        TBlock till_height \<Rightarrow>
          (if MAX_BLOCK_HEIGHT_USIZE < till_height then Err InvalidLockTime
           else if till_height = wadd 64 chain_height MINER_TX_TIME_LOCKED_BLOCKS then Ok ()
           else Err InvalidLockTime)
      | TNone \<Rightarrow> Err InvalidLockTime
      | TTime _ \<Rightarrow> Err InvalidLockTime)"

definition miner_sum_outputs ::
  "tx_output list \<Rightarrow> hard_fork \<Rightarrow> tx_version_t \<Rightarrow> miner_tx_error + nat" where
  "miner_sum_outputs outs hf ver =
     try_fold
       (\<lambda>sum out. and_then
          (let amt = unwrap_or_0 (amount out) in
           if ver = RingSignatures \<and> amt = 0 then Err OutputAmountIncorrect
           else if hf = V3 \<and> \<not> is_decomposed_amount amt then Err OutputNotDecomposed
           else Ok ())
          (\<lambda>_. ok_or OutputsOverflow (checked_add 64 sum (unwrap_or_0 (amount out)))))
       0 outs"

definition check_total_output_amt :: "nat \<Rightarrow> nat \<Rightarrow> nat \<Rightarrow> hard_fork \<Rightarrow> miner_tx_error + nat" where
  "check_total_output_amt total_output reward fees hf =
     (if hf = V1 \<or> V12 \<le> hf
      then (if total_output \<noteq> wadd 64 reward fees then Err OutputAmountIncorrect else Ok reward)
      else (if reward < wsub 64 total_output fees \<or> wadd 64 reward fees < total_output
            then Err OutputAmountIncorrect
            else Ok (wsub 64 total_output fees)))"

definition check_miner_tx ::
  "'p oxide \<Rightarrow> transaction \<Rightarrow> nat \<Rightarrow> nat \<Rightarrow> nat \<Rightarrow> nat \<Rightarrow> nat \<Rightarrow> hard_fork \<Rightarrow> miner_tx_error fault + nat" where
  "check_miner_tx X tx total_fees chain_height block_weight median_bw already_generated_coins hf =
     and_then (ok_or (Fault VersionInvalid) (tx_version_from_raw (tx_version X tx))) (\<lambda>ver.
     and_then (no_panic (check_miner_tx_version ver hf)) (\<lambda>_.
     and_then (case tx of
                 TxV1 _ _ \<Rightarrow> Ok ()
               | TxV2 _ prfs \<Rightarrow> (if V12 \<le> hf \<and> prfs \<noteq> None then Err (Fault RCTTypeNotNULL) else Ok ())) (\<lambda>_.
     and_then (no_panic (check_time_lock (additional_timelock (prefix tx)) chain_height)) (\<lambda>_.
     and_then (no_panic (check_inputs (inputs (prefix tx)) chain_height)) (\<lambda>_.
     and_then (map_err (\<lambda>_. Fault InvalidOutputType) (check_output_types (outputs (prefix tx)) hf)) (\<lambda>_.
     and_then (unwrap (calculate_block_reward block_weight median_bw already_generated_coins hf)) (\<lambda>reward.
     and_then (no_panic (miner_sum_outputs (outputs (prefix tx)) hf ver)) (\<lambda>total_outs.
     no_panic (check_total_output_amt total_outs reward total_fees hf)))))))))"

subsection \<open>Facts\<close>

lemma block_time_mins: "block_time hf div 60 = (if hf = V1 then 1 else 2)"
  by (cases hf) (simp_all add: block_time_def BLOCK_TIME_V1_def BLOCK_TIME_V2_def)

lemma calculate_base_reward_eq:
  "calculate_base_reward c hf =
   (if hf = V1 then max ((2 ^ 64 - 1 - c) div 2 ^ 20) (3 * 10 ^ 11) else max ((2 ^ 64 - 1 - c) div 2 ^ 19) (6 * 10 ^ 11))"
  by (simp add: calculate_base_reward_def block_time_mins MONEY_SUPPLY_def MINIMUM_REWARD_PER_MIN_def drop_bit_eq_div)

lemma calculate_base_reward_bounds: "3 * 10 ^ 11 \<le> calculate_base_reward c hf" "calculate_base_reward c hf < 2 ^ 46"
proof -
  show "3 * 10 ^ 11 \<le> calculate_base_reward c hf"
    by (simp add: calculate_base_reward_eq le_max_iff_disj)
  have "(2 ^ 64 - 1 - c) div 2 ^ 20 \<le> (2 ^ 64 - 1) div 2 ^ 20" "(2 ^ 64 - 1 - c) div 2 ^ 19 \<le> (2 ^ 64 - 1) div 2 ^ 19"
    by (intro div_le_mono; simp)+
  then show "calculate_base_reward c hf < 2 ^ 46"
    by (simp add: calculate_base_reward_eq)
qed

text \<open>The product of the two factors of the penalty never exceeds the squared median.\<close>

lemma penalty_le_square: "(2 * m - b) * b \<le> m * (m::nat)"
proof -
  have "(int m - int b) * (int m - int b) \<ge> 0"
    by simp
  then have "(2 * int m - int b) * int b \<le> int m * int m"
    by (simp add: algebra_simps)
  moreover have "int ((2 * m - b) * b) = (2 * int m - int b) * int b" if "b \<le> 2 * m"
    using that by (simp add: of_nat_diff)
  ultimately show ?thesis
    by (cases "b \<le> 2 * m") (auto simp flip: of_nat_mult of_nat_le_iff)
qed

lemma calculate_block_reward_exact:
  assumes "m < b" "b \<le> 2 * m" "m < 2 ^ 32"
  shows "calculate_block_reward b m c hf = Some (calculate_base_reward c hf * ((2 * m - b) * b) div (m * m))"
proof -
  have m: "0 < m" "m * m < 2 ^ 64"
    using assms mult_strict_mono [of m "2 ^ 32" m "2 ^ 32"] by auto
  have "wmul 64 2 m = 2 * m" "wsub 64 (2 * m) b = 2 * m - b"
    using assms by (auto intro!: wmul_exact wsub_exact)
  moreover have "wmul 64 (2 * m - b) b = (2 * m - b) * b"
    using penalty_le_square [of m b] m(2) by (intro wmul_exact) linarith
  moreover have "calculate_base_reward c hf * ((2 * m - b) * b) div m div m = calculate_base_reward c hf * ((2 * m - b) * b) div (m * m)"
    by (simp add: div_mult2_eq)
  moreover have "calculate_base_reward c hf * ((2 * m - b) * b) div (m * m) \<le> calculate_base_reward c hf"
  proof -
    have "calculate_base_reward c hf * ((2 * m - b) * b) \<le> calculate_base_reward c hf * (m * m)"
      using penalty_le_square by (rule mult_le_mono2)
    then have "calculate_base_reward c hf * ((2 * m - b) * b) div (m * m) \<le> calculate_base_reward c hf * (m * m) div (m * m)"
      by (rule div_le_mono)
    with m show ?thesis
      by simp
  qed
  moreover have "calculate_base_reward c hf < 2 ^ 64"
    using calculate_base_reward_bounds(2) [of c hf] by simp
  ultimately show ?thesis
    using assms(1) m(1) unfolding calculate_block_reward_def Let_def by simp
qed

lemma calculate_block_reward_no_panic:
  assumes "b \<le> wmul 64 2 m"
  shows "calculate_block_reward b m c hf \<noteq> None"
proof (cases "b \<le> m")
  case True
  then show ?thesis
    by (simp add: calculate_block_reward_def Let_def)
next
  case False
  then have "m \<noteq> 0"
    using assms by (auto simp: wmul_def)
  show ?thesis
  proof (cases "m < 2 ^ 32")
    case True
    then have "b \<le> 2 * m"
      using assms by (simp add: wmul_exact)
    then show ?thesis
      using True False calculate_block_reward_exact [of m b c hf] by simp
  next
    case large: False
    define w where "w = wmul 64 (wsub 64 (wmul 64 2 m) b) b"
    have "calculate_base_reward c hf * w \<le> 2 ^ 46 * 2 ^ 64"
      using calculate_base_reward_bounds(2) [of c hf] wmul_bound [of 64 "wsub 64 (wmul 64 2 m) b" b]
      by (intro mult_le_mono) (auto simp: w_def less_imp_le)
    moreover have "(2::nat) ^ 32 * 2 ^ 32 \<le> m * m"
      using large by (intro mult_le_mono) auto
    ultimately have "calculate_base_reward c hf * w div (m * m) \<le> (2 ^ 46 * 2 ^ 64) div (2 ^ 32 * 2 ^ 32)"
      by (meson div_le_mono div_le_mono2 le_trans zero_less_numeral zero_less_power mult_pos_pos)
    then have "calculate_base_reward c hf * w div m div m < 2 ^ 64"
      by (simp add: div_mult2_eq)
    then show ?thesis
      using False \<open>m \<noteq> 0\<close> by (simp add: calculate_block_reward_def Let_def w_def)
  qed
qed

lemma calculate_block_reward_le:
  assumes "calculate_block_reward b m c hf = Some r" "b \<le> 2 * m" "m < 2 ^ 32"
  shows "r \<le> calculate_base_reward c hf"
proof (cases "b \<le> m")
  case True
  then show ?thesis
    using assms(1) by (simp add: calculate_block_reward_def Let_def)
next
  case False
  have "calculate_base_reward c hf * ((2 * m - b) * b) div (m * m) \<le> calculate_base_reward c hf * (m * m) div (m * m)"
    by (intro div_le_mono mult_le_mono2 penalty_le_square)
  then show ?thesis
    using False assms calculate_block_reward_exact [of m b c hf] by (cases "m = 0") auto
qed

lemma check_total_output_amt_Ok:
  assumes "check_total_output_amt tot reward fees hf = Ok coins"
    and "reward + fees < 2 ^ 64" "tot < 2 ^ 64"
  shows "coins + fees = tot" "coins \<le> reward" "hf = V1 \<or> V12 \<le> hf \<Longrightarrow> coins = reward"
proof -
  have sum: "wadd 64 reward fees = reward + fees"
    using assms(2) by (rule wadd_exact)
  have "coins + fees = tot \<and> coins \<le> reward \<and> (hf = V1 \<or> V12 \<le> hf \<longrightarrow> coins = reward)"
  proof (cases "hf = V1 \<or> V12 \<le> hf")
    case True
    then show ?thesis
      using assms(1) by (auto simp: check_total_output_amt_def sum split: if_splits)
  next
    case False
    then have *: "wsub 64 tot fees \<le> reward" "coins = wsub 64 tot fees"
      using assms(1) by (auto simp: check_total_output_amt_def sum split: if_splits)
    have "fees \<le> tot"
    proof (rule ccontr)
      assume "\<not> fees \<le> tot"
      then have "wsub 64 tot fees = tot + 2 ^ 64 - fees"
        using assms(2) by (intro wsub_wraps) auto
      then show False
        using * assms(2) by linarith
    qed
    then have "wsub 64 tot fees = tot - fees"
      using assms(3) by (rule wsub_exact)
    then show ?thesis
      using * \<open>fees \<le> tot\<close> False by simp
  qed
  then show "coins + fees = tot" "coins \<le> reward" "hf = V1 \<or> V12 \<le> hf \<Longrightarrow> coins = reward"
    by auto
qed

lemma check_inputs_Ok: "check_inputs ins h = Ok u \<longleftrightarrow> ins = [Gen h]"
  by (cases ins) (auto simp: check_inputs_def split: input.splits)

lemma check_time_lock_Ok:
  "h + 60 < 2 ^ 64 \<Longrightarrow> check_time_lock t h = Ok u \<longleftrightarrow> t = TBlock (h + 60) \<and> h + 60 \<le> MAX_BLOCK_HEIGHT_USIZE"
  by (cases t) (auto simp: check_time_lock_def MINER_TX_TIME_LOCKED_BLOCKS_def wadd_exact)

lemma miner_sum_outputs_Ok:
  "miner_sum_outputs outs hf ver = Ok t \<longleftrightarrow>
   (\<forall>out \<in> set outs. (ver = RingSignatures \<longrightarrow> unwrap_or_0 (amount out) \<noteq> 0) \<and>
      (hf = V3 \<longrightarrow> is_decomposed_amount (unwrap_or_0 (amount out)))) \<and>
   output_total outs < 2 ^ 64 \<and> t = output_total outs"
  using try_fold_checked_sum [of 0 64 "\<lambda>out. let amt = unwrap_or_0 (amount out) in
           if ver = RingSignatures \<and> amt = 0 then Err OutputAmountIncorrect
           else if hf = V3 \<and> \<not> is_decomposed_amount amt then Err OutputNotDecomposed
           else Ok ()" OutputsOverflow "\<lambda>out. unwrap_or_0 (amount out)" outs t]
  by (auto simp: miner_sum_outputs_def output_total_def Let_def)

lemma check_miner_tx_Ok:
  assumes "check_miner_tx X tx fees h bw m c hf = Ok coins"
  obtains reward where "calculate_block_reward bw m c hf = Some reward"
    "inputs (prefix tx) = [Gen h]" "check_time_lock (additional_timelock (prefix tx)) h = Ok ()"
    "output_total (outputs (prefix tx)) < 2 ^ 64"
    "check_total_output_amt (output_total (outputs (prefix tx))) reward fees hf = Ok coins"
  using assms by (auto simp: check_miner_tx_def result_simps check_inputs_Ok miner_sum_outputs_Ok)

lemma check_miner_tx_no_panic:
  assumes "bw \<le> wmul 64 2 m"
  shows "check_miner_tx X tx fees h bw m c hf \<noteq> Err Panic"
  using calculate_block_reward_no_panic [OF assms, of c hf]
  unfolding check_miner_tx_def
  by (intro and_then_no_panic no_panic_ne_Panic ok_or_Fault_ne_Panic map_err_Fault_ne_Panic)
    (auto split: transaction.splits simp: unwrap_def)

subsection \<open>Properties\<close>

text \<open>
  C18: The block reward. A block within the median earns the base reward; a heavier one, up to twice the
  median (medians below \<open>2\<^sup>3\<^sup>2\<close>), earns the documented fraction \<open>base (2m - w) w / m\<^sup>2\<close>, rounded down, which
  is at most the base reward and nothing at twice the median. The base reward is at least the tail emission.
\<close>

theorem block_reward_spec:
  assumes "b \<le> 2 * m" "m < 2 ^ 32"
  shows "\<exists>r. calculate_block_reward b m c hf = Some r \<and>
    r = (if b \<le> m then calculate_base_reward c hf else calculate_base_reward c hf * ((2 * m - b) * b) div (m * m)) \<and>
    r \<le> calculate_base_reward c hf \<and> (b = 2 * m \<and> 0 < m \<longrightarrow> r = 0) \<and>
    3 * 10 ^ 11 * (block_time hf div 60) \<le> calculate_base_reward c hf"
proof -
  let ?R = "calculate_base_reward c hf"
  have tail: "3 * 10 ^ 11 * (block_time hf div 60) \<le> ?R"
    by (simp add: calculate_base_reward_def MINIMUM_REWARD_PER_MIN_def Let_def le_max_iff_disj)
  have le: "?R * ((2 * m - b) * b) div (m * m) \<le> ?R"
  proof -
    have "?R * ((2 * m - b) * b) div (m * m) \<le> ?R * (m * m) div (m * m)"
      by (intro div_le_mono mult_le_mono2 penalty_le_square)
    then show ?thesis
      by (cases "m = 0") auto
  qed
  show ?thesis
  proof (cases "b \<le> m")
    case True
    then show ?thesis
      using tail by (auto simp: calculate_block_reward_def Let_def)
  next
    case False
    then show ?thesis
      using assms tail le calculate_block_reward_exact [of m b c hf] by simp
  qed
qed

theorem block_reward_spec_witness:
  "\<exists>r. calculate_block_reward 450000 300000 (2 ^ 64 - 1) V16 = Some r \<and> r = 450000000000"
  using block_reward_spec [of 450000 300000 "2 ^ 64 - 1" V16]
  by (auto simp: calculate_base_reward_eq)

text \<open>
  C17: A miner transaction that is accepted mints no more than it may: it has the one generating input for the
  chain height, its outputs are locked for sixty blocks, they sum without overflow to the returned coins plus the fees,
  and the coins are at most the block reward, exactly the reward at fork 1 and from fork 12. The
  hypothesis keeps reward plus fees inside 64 bits; the wrapping subtraction of the fees is then harmless.
\<close>

theorem check_miner_tx_sound:
  assumes "check_miner_tx X tx fees h bw m c hf = Ok coins"
    and "fees < 2 ^ 63" "h + 60 < 2 ^ 64" "bw \<le> 2 * m" "m < 2 ^ 32"
  shows "\<exists>reward. calculate_block_reward bw m c hf = Some reward \<and> coins \<le> reward \<and>
    (hf = V1 \<or> V12 \<le> hf \<longrightarrow> coins = reward) \<and>
    output_total (outputs (prefix tx)) = coins + fees \<and>
    inputs (prefix tx) = [Gen h] \<and> additional_timelock (prefix tx) = TBlock (h + 60)"
proof -
  obtain reward where r: "calculate_block_reward bw m c hf = Some reward"
    "inputs (prefix tx) = [Gen h]" "check_time_lock (additional_timelock (prefix tx)) h = Ok ()"
    "output_total (outputs (prefix tx)) < 2 ^ 64"
    "check_total_output_amt (output_total (outputs (prefix tx))) reward fees hf = Ok coins"
    using assms(1) by (rule check_miner_tx_Ok)
  have "reward \<le> calculate_base_reward c hf"
    using r(1) assms(4,5) by (rule calculate_block_reward_le)
  then have "reward + fees < 2 ^ 64"
    using calculate_base_reward_bounds(2) [of c hf] assms(2) by simp
  note t = check_total_output_amt_Ok [OF r(5) this r(4)]
  show ?thesis
    using r(1-3) t assms(3) by (auto simp: check_time_lock_Ok)
qed

definition sample_miner_tx :: transaction where
  "sample_miner_tx =
     TxV2 \<lparr>additional_timelock = TBlock 100, inputs = [Gen 40],
           outputs = [\<lparr>amount = Some 600000000005, out_key = [1], view_tag = Some 1\<rparr>], extra = []\<rparr> None"

lemma sample_miner_tx_Ok:
  "check_miner_tx sample_oxide sample_miner_tx 5 40 1000 300000 (2 ^ 64 - 1) V16 = Ok 600000000000"
  by (simp add: check_miner_tx_def sample_miner_tx_def sample_oxide_def tx_version_from_raw_def check_miner_tx_version_def
      check_time_lock_def MINER_TX_TIME_LOCKED_BLOCKS_def wadd_def MAX_BLOCK_HEIGHT_USIZE_def check_inputs_def
      check_output_types_def hard_fork_order calculate_block_reward_def calculate_base_reward_eq miner_sum_outputs_def
      checked_add_def check_total_output_amt_def Let_def)

theorem check_miner_tx_sound_witness:
  "output_total (outputs (prefix sample_miner_tx)) = 600000000000 + 5 \<and> inputs (prefix sample_miner_tx) = [Gen 40]"
  using check_miner_tx_sound [OF sample_miner_tx_Ok] by simp

end
