(* ===== verification/Block_Rules.thy ===== *)
theory Block_Rules
  imports Miner_Tx
begin

text \<open>
  The checks of a whole block, the rest of \<^verbatim>\<open>src/consensus/rules/src/blocks.rs\<close>, and the genesis blocks of
  \<^verbatim>\<open>src/consensus/rules/src/genesis.rs\<close>. The system clock read by \<open>check_timestamp\<close> is an argument.

  The theorems: what an accepted block satisfies, among it that the weight check made before the miner
  transaction is checked rules out the underflow in the reward, so that \<open>check_block\<close> never panics; and
  that the hash-set test rejects exactly the blocks with a repeated transaction.
\<close>

definition BLOCK_SIZE_SANITY_LEEWAY :: nat where
  "BLOCK_SIZE_SANITY_LEEWAY = 100"

definition BLOCK_FUTURE_TIME_LIMIT :: nat where
  "BLOCK_FUTURE_TIME_LIMIT = 60 * 60 * 2"

definition block_size_sanity_check :: "nat \<Rightarrow> nat \<Rightarrow> block_error + unit" where
  "block_size_sanity_check block_blob_len effective_median =
     (if wadd 64 (wmul 64 effective_median 2) BLOCK_SIZE_SANITY_LEEWAY < block_blob_len
      then Err TooLarge else Ok ())"

definition check_block_weight :: "nat \<Rightarrow> nat \<Rightarrow> block_error + unit" where
  "check_block_weight block_weight median_for_block_reward =
     (if wmul 64 median_for_block_reward 2 < block_weight then Err TooLarge else Ok ())"

definition check_amount_txs :: "nat \<Rightarrow> block_error + unit" where
  "check_amount_txs number_none_miner_txs =
     (if 0x10000000 < wadd 64 number_none_miner_txs 1 then Err TooManyTxs else Ok ())"

definition check_prev_id :: "block \<Rightarrow> bytes \<Rightarrow> block_error + unit" where
  "check_prev_id blk top_hash = (if previous (header blk) = top_hash then Ok () else Err PreviousIDIncorrect)"

definition check_timestamp :: "nat \<Rightarrow> block \<Rightarrow> nat \<Rightarrow> block_error + unit" where
  "check_timestamp now blk median_timestamp =
     (if hdr_timestamp (header blk) < median_timestamp \<or>
         wadd 64 now BLOCK_FUTURE_TIME_LIMIT < hdr_timestamp (header blk)
      then Err TimeStampInvalid else Ok ())"

text \<open>The length of the \<open>HashSet\<close> of the hashes is the number of different ones.\<close>

definition check_txs_unique :: "bytes list \<Rightarrow> block_error + unit" where
  "check_txs_unique txs = (if length (remdups txs) = length txs then Ok () else Err DuplicateTransaction)"

record context_to_verify_block =
  median_weight_for_block_reward :: nat
  effective_median_weight :: nat
  top_hash :: bytes
  median_block_timestamp :: "nat option"
  chain_height :: nat
  current_hf :: hard_fork
  next_difficulty :: nat
  already_generated_coins :: nat

definition from_miner_tx_error :: "miner_tx_error fault + 'a \<Rightarrow> block_error fault + 'a" where
  "from_miner_tx_error = map_err (\<lambda>f. case f of Panic \<Rightarrow> Panic | Fault e \<Rightarrow> Fault (MinerTxError e))"

definition check_block ::
  "'p oxide \<Rightarrow> nat \<Rightarrow> block \<Rightarrow> nat \<Rightarrow> nat \<Rightarrow> nat \<Rightarrow> context_to_verify_block \<Rightarrow> block_error fault + (hard_fork \<times> nat)" where
  "check_block X now blk total_fees block_weight block_blob_len ctx =
     and_then (map_err (\<lambda>_. Fault (HardForkError HardForkUnknown)) (from_block_header (header blk))) (\<lambda>(version, vote).
     and_then (map_err (\<lambda>e. Fault (HardForkError e)) (check_block_version_vote (current_hf ctx) version vote)) (\<lambda>_.
     and_then (case median_block_timestamp ctx of
                 Some median_timestamp \<Rightarrow> no_panic (check_timestamp now blk median_timestamp)
               | None \<Rightarrow> Ok ()) (\<lambda>_.
     and_then (no_panic (check_prev_id blk (top_hash ctx))) (\<lambda>_.
     and_then (no_panic (check_block_weight block_weight (median_weight_for_block_reward ctx))) (\<lambda>_.
     and_then (no_panic (block_size_sanity_check block_blob_len (effective_median_weight ctx))) (\<lambda>_.
     and_then (no_panic (check_amount_txs (length (transactions blk)))) (\<lambda>_.
     and_then (no_panic (check_txs_unique (transactions blk))) (\<lambda>_.
     and_then (from_miner_tx_error
                 (check_miner_tx X (miner_transaction blk) total_fees (chain_height ctx) block_weight
                    (median_weight_for_block_reward ctx) (already_generated_coins ctx) (current_hf ctx))) (\<lambda>generated_coins.
     Ok (vote, generated_coins))))))))))"

subsection \<open>Genesis blocks\<close>

datatype network = Mainnet | Testnet | Stagenet

definition genesis_nonce :: "network \<Rightarrow> nat" where
  "genesis_nonce n = (case n of Mainnet \<Rightarrow> 10000 | Testnet \<Rightarrow> 10001 | Stagenet \<Rightarrow> 10002)"

text \<open>The genesis miner transaction is deserialised from a constant, by an argument.\<close>

definition generate_genesis_block :: "(network \<Rightarrow> transaction) \<Rightarrow> network \<Rightarrow> block" where
  "generate_genesis_block genesis_miner_tx n =
     \<lparr>header = \<lparr>hardfork_version = 1, hardfork_signal = 0, hdr_timestamp = 0, previous = replicate 32 0,
                nonce = genesis_nonce n\<rparr>,
      miner_transaction = genesis_miner_tx n, transactions = []\<rparr>"

subsection \<open>Facts\<close>

lemma check_txs_unique_Ok [result_simps]: "check_txs_unique txs = Ok u \<longleftrightarrow> distinct txs"
  by (simp add: check_txs_unique_def length_remdups_eq)

lemma from_miner_tx_error_Ok [result_simps]: "from_miner_tx_error r = Inr v \<longleftrightarrow> r = Inr v"
  by (cases r) (auto simp: from_miner_tx_error_def split: fault.splits)

lemma from_miner_tx_error_no_panic: "r \<noteq> Inl Panic \<Longrightarrow> from_miner_tx_error r \<noteq> Inl Panic"
  by (cases r) (auto simp: from_miner_tx_error_def split: fault.splits)

lemma check_block_weight_Ok [result_simps]:
  "check_block_weight w m = Ok u \<longleftrightarrow> w \<le> wmul 64 m 2"
  by (simp add: check_block_weight_def not_less)

lemma check_timestamp_Ok:
  "now + BLOCK_FUTURE_TIME_LIMIT < 2 ^ 64 \<Longrightarrow> check_timestamp now blk t = Ok u \<longleftrightarrow>
   t \<le> hdr_timestamp (header blk) \<and> hdr_timestamp (header blk) \<le> now + BLOCK_FUTURE_TIME_LIMIT"
  by (auto simp: check_timestamp_def wadd_exact)

lemma check_block_version_vote_Ok [result_simps]:
  "check_block_version_vote hf version vote = Ok u \<longleftrightarrow> version = hf \<and> hf \<le> vote"
  by (auto simp: check_block_version_vote_def)

lemma from_block_header_Ok [result_simps]:
  "from_block_header hdr = Ok (version, vote) \<longleftrightarrow>
   from_version (hardfork_version hdr) = Ok version \<and> vote = from_vote (hardfork_signal hdr)"
  by (auto simp: from_block_header_def result_simps)

lemma check_block_Ok:
  assumes "check_block X now blk fees w len ctx = Ok (vote, coins)"
  shows "from_version (hardfork_version (header blk)) = Ok (current_hf ctx)"
    "vote = from_vote (hardfork_signal (header blk))" "current_hf ctx \<le> vote"
    "case median_block_timestamp ctx of Some t \<Rightarrow> check_timestamp now blk t = Ok () | None \<Rightarrow> True"
    "previous (header blk) = top_hash ctx"
    "w \<le> wmul 64 (median_weight_for_block_reward ctx) 2"
    "distinct (transactions blk)"
    "check_miner_tx X (miner_transaction blk) fees (chain_height ctx) w (median_weight_for_block_reward ctx)
       (already_generated_coins ctx) (current_hf ctx) = Ok coins"
  using assms
  by (auto simp: check_block_def result_simps check_prev_id_def split: option.splits if_splits)

subsection \<open>Properties\<close>

text \<open>
  C16: \<open>check_block\<close> never panics, whatever the block and the context: the reward computation, which would
  underflow or divide by zero on a block heavier than twice the median, is only reached after the weight
  check.
\<close>

theorem check_block_no_panic: "check_block X now blk fees w len ctx \<noteq> Err Panic"
proof -
  have "from_miner_tx_error (check_miner_tx X (miner_transaction blk) fees (chain_height ctx) w
      (median_weight_for_block_reward ctx) (already_generated_coins ctx) (current_hf ctx)) \<noteq> Err Panic"
    if "no_panic (check_block_weight w (median_weight_for_block_reward ctx)) = Ok u" for u
    using that by (intro from_miner_tx_error_no_panic check_miner_tx_no_panic) (simp add: result_simps wmul_def mult.commute)
  then show ?thesis
    by (auto simp: check_block_def and_then_eq_Inl split: option.splits)
qed

text \<open>
  C6: An accepted block extends the chain at its tip (previous id, fork version, vote not below the fork), has
  a timestamp between the median and two hours from now, weighs at most twice the median, has no repeated transaction, and
  its miner transaction, for exactly this height, pays out the returned coins plus the fees, where the
  coins never exceed the block reward. Weights are below \<open>2\<^sup>3\<^sup>2\<close>, fees below \<open>2\<^sup>6\<^sup>3\<close>.
\<close>

theorem check_block_sound:
  assumes "check_block X now blk fees w len ctx = Ok (vote, coins)"
    and "median_weight_for_block_reward ctx < 2 ^ 32" "fees < 2 ^ 63" "chain_height ctx + 60 < 2 ^ 64"
    and "now + BLOCK_FUTURE_TIME_LIMIT < 2 ^ 64"
  shows "previous (header blk) = top_hash ctx \<and>
    from_version (hardfork_version (header blk)) = Ok (current_hf ctx) \<and> current_hf ctx \<le> vote \<and>
    (\<forall>t. median_block_timestamp ctx = Some t \<longrightarrow>
       t \<le> hdr_timestamp (header blk) \<and> hdr_timestamp (header blk) \<le> now + BLOCK_FUTURE_TIME_LIMIT) \<and>
    w \<le> 2 * median_weight_for_block_reward ctx \<and> distinct (transactions blk) \<and>
    inputs (prefix (miner_transaction blk)) = [Gen (chain_height ctx)] \<and>
    output_total (outputs (prefix (miner_transaction blk))) = coins + fees \<and>
    (\<exists>reward. calculate_block_reward w (median_weight_for_block_reward ctx) (already_generated_coins ctx) (current_hf ctx) = Some reward \<and>
       coins \<le> reward)"
proof -
  let ?m = "median_weight_for_block_reward ctx"
  note b = check_block_Ok [OF assms(1)]
  have w: "w \<le> 2 * ?m"
    using b(6) assms(2) by (simp add: wmul_exact)
  obtain reward where r: "calculate_block_reward w ?m (already_generated_coins ctx) (current_hf ctx) = Some reward"
    "inputs (prefix (miner_transaction blk)) = [Gen (chain_height ctx)]"
    "output_total (outputs (prefix (miner_transaction blk))) < 2 ^ 64"
    "check_total_output_amt (output_total (outputs (prefix (miner_transaction blk)))) reward fees (current_hf ctx) = Ok coins"
    using b(8) by (rule check_miner_tx_Ok)
  have "reward + fees < 2 ^ 64"
    using calculate_block_reward_le [OF r(1) w assms(2)]
      calculate_base_reward_bounds(2) [of "already_generated_coins ctx" "current_hf ctx"] assms(3) by simp
  note t = check_total_output_amt_Ok [OF r(4) this r(3)]
  show ?thesis
    using b(1-5,7) w r(1,2) t assms(5) by (auto simp: check_timestamp_Ok split: option.splits)
qed

definition sample_block :: block where
  "sample_block =
     \<lparr>header = \<lparr>hardfork_version = 16, hardfork_signal = 16, hdr_timestamp = 1000, previous = [3], nonce = 0\<rparr>,
      miner_transaction = sample_miner_tx, transactions = [[1], [2]]\<rparr>"

definition sample_ctx :: context_to_verify_block where
  "sample_ctx =
     \<lparr>median_weight_for_block_reward = 300000, effective_median_weight = 300000, top_hash = [3],
      median_block_timestamp = Some 900, chain_height = 40, current_hf = V16, next_difficulty = 1,
      already_generated_coins = 2 ^ 64 - 1\<rparr>"

lemma sample_block_Ok:
  "check_block sample_oxide 1000 sample_block 5 1000 1000 sample_ctx = Ok (V16, 600000000000)"
  using sample_miner_tx_Ok
  by (simp add: check_block_def sample_block_def sample_ctx_def from_block_header_def from_version_def from_repr_def
      from_vote_def VARIANTS_def check_block_version_vote_def hard_fork_order check_timestamp_def wadd_def
      BLOCK_FUTURE_TIME_LIMIT_def check_prev_id_def check_block_weight_def wmul_def block_size_sanity_check_def
      BLOCK_SIZE_SANITY_LEEWAY_def check_amount_txs_def check_txs_unique_def from_miner_tx_error_def)

theorem check_block_sound_witness:
  "previous (header sample_block) = top_hash sample_ctx \<and>
   output_total (outputs (prefix (miner_transaction sample_block))) = 600000000000 + 5"
  using check_block_sound [OF sample_block_Ok]
  by (simp add: sample_ctx_def BLOCK_FUTURE_TIME_LIMIT_def)

end
