(* ===== verification/Database.thy ===== *)
theory Database
  imports Prelude "HOL-Library.AList"
begin

text \<open>
  The key-value tables of \<^verbatim>\<open>src/storage/database/src/database.rs\<close> (\<open>DatabaseRo\<close>, \<open>DatabaseRw\<close>) with the behaviour of its
  default backend, \<^verbatim>\<open>src/storage/database/src/backend/heed/database.rs\<close>: \<open>put\<close> overwrites, \<open>delete\<close> of a missing key succeeds,
  \<open>get\<close>, \<open>take\<close>, \<open>update\<close> and \<open>pop_last\<close> of a missing one return \<open>KeyNotFound\<close>. A table is an association list; \<open>pop_last\<close>
  goes by the largest key, as the backend's key order does. Errors of the environment (a full map, I/O)
  do not occur in the model.

  The locale \<open>key_value_table\<close> states what the operations of the blockchain rely on; it is interpreted on
  the association lists.
\<close>

datatype runtime_error = KeyExists | KeyNotFound | ResizeNeeded | TableNotFound | IoError

type_synonym ('k, 'v) table = "('k \<times> 'v) list"

definition tbl_get :: "('k, 'v) table \<Rightarrow> 'k \<Rightarrow> runtime_error + 'v" where
  "tbl_get t k = ok_or KeyNotFound (map_of t k)"

definition tbl_contains :: "('k, 'v) table \<Rightarrow> 'k \<Rightarrow> bool" where
  "tbl_contains t k = (case tbl_get t k of Inr _ \<Rightarrow> True | Inl _ \<Rightarrow> False)"

definition tbl_len :: "('k, 'v) table \<Rightarrow> nat" where
  "tbl_len t = length t"

definition tbl_put :: "('k, 'v) table \<Rightarrow> 'k \<Rightarrow> 'v \<Rightarrow> ('k, 'v) table" where
  "tbl_put t k v = AList.update k v t"

definition tbl_delete :: "('k, 'v) table \<Rightarrow> 'k \<Rightarrow> ('k, 'v) table" where
  "tbl_delete t k = AList.delete k t"

definition tbl_take :: "('k, 'v) table \<Rightarrow> 'k \<Rightarrow> runtime_error + ('k, 'v) table \<times> 'v" where
  "tbl_take t k = and_then (tbl_get t k) (\<lambda>v. Ok (tbl_delete t k, v))"

definition tbl_update :: "('k, 'v) table \<Rightarrow> 'k \<Rightarrow> ('v \<Rightarrow> 'v option) \<Rightarrow> runtime_error + ('k, 'v) table" where
  "tbl_update t k f =
     and_then (tbl_get t k) (\<lambda>v.
     Ok (case f v of Some v \<Rightarrow> tbl_put t k v | None \<Rightarrow> tbl_delete t k))"

definition tbl_pop_last :: "('k::linorder, 'v) table \<Rightarrow> runtime_error + ('k, 'v) table \<times> ('k \<times> 'v)" where
  "tbl_pop_last t =
     (if t = [] then Err KeyNotFound
      else let k = Max (set (map fst t))
           in and_then (tbl_get t k) (\<lambda>v. Ok (tbl_delete t k, (k, v))))"

subsection \<open>The contract of a table\<close>

locale key_value_table =
  fixes lookup :: "'t \<Rightarrow> 'k \<Rightarrow> runtime_error + 'v"
    and put :: "'t \<Rightarrow> 'k \<Rightarrow> 'v \<Rightarrow> 't"
    and delete :: "'t \<Rightarrow> 'k \<Rightarrow> 't"
  assumes lookup_put: "lookup (put t k v) k' = (if k' = k then Ok v else lookup t k')"
    and lookup_delete: "lookup (delete t k) k' = (if k' = k then Err KeyNotFound else lookup t k')"
    and lookup_Err: "lookup t k = Err e \<Longrightarrow> e = KeyNotFound"
begin

lemma lookup_puts:
  "lookup (fold (\<lambda>(k, v) t. put t k v) kvs t) k =
   (case map_of (rev kvs) k of Some v \<Rightarrow> Ok v | None \<Rightarrow> lookup t k)"
  by (induction kvs arbitrary: t) (auto simp: lookup_put split: option.splits)

lemma lookup_deletes:
  "lookup (fold (\<lambda>k t. delete t k) ks t) k = (if k \<in> set ks then Err KeyNotFound else lookup t k)"
  by (induction ks arbitrary: t) (auto simp: lookup_delete)

lemma put_then_delete:
  "lookup t k = Err KeyNotFound \<Longrightarrow> lookup (delete (put t k v) k) k' = lookup t k'"
  by (simp add: lookup_put lookup_delete)

end

interpretation alist: key_value_table tbl_get tbl_put tbl_delete
  by standard
    (auto simp: tbl_get_def tbl_put_def tbl_delete_def update_conv' delete_conv' ok_or_def split: option.splits)

subsection \<open>Facts on association lists\<close>

lemma tbl_get_Ok [result_simps]: "tbl_get t k = Inr v \<longleftrightarrow> map_of t k = Some v"
  by (simp add: tbl_get_def ok_or_eq_Inr)

lemma tbl_put_fresh: "k \<notin> fst ` set t \<Longrightarrow> tbl_put t k v = t @ [(k, v)]"
  by (induction t) (auto simp: tbl_put_def)

lemma tbl_delete_fresh: "k \<notin> fst ` set t \<Longrightarrow> tbl_delete t k = t"
  by (simp add: tbl_delete_def)

lemma tbl_delete_append: "tbl_delete (t @ u) k = tbl_delete t k @ tbl_delete u k"
  by (simp add: tbl_delete_def AList.delete_eq)

lemma tbl_delete_simps [simp]:
  "tbl_delete [] k = []"
  "tbl_delete ((k', v) # t) k = (if k' = k then tbl_delete t k else (k', v) # tbl_delete t k)"
  by (simp_all add: tbl_delete_def)

lemma tbl_contains_iff: "tbl_contains t k \<longleftrightarrow> k \<in> fst ` set t"
proof -
  have "tbl_contains t k \<longleftrightarrow> map_of t k \<noteq> None"
    by (cases "map_of t k") (simp_all add: tbl_contains_def tbl_get_def)
  then show ?thesis
    by (simp add: map_of_eq_None_iff)
qed

lemma length_tbl_put_fresh: "k \<notin> fst ` set t \<Longrightarrow> tbl_len (tbl_put t k v) = tbl_len t + 1"
  by (simp add: tbl_put_fresh tbl_len_def)

lemma tbl_put_put: "tbl_put (tbl_put t k v) k w = tbl_put t k w"
  by (induction t) (auto simp: tbl_put_def)

lemma tbl_put_same: "map_of t k = Some v \<Longrightarrow> tbl_put t k v = t"
  by (induction t) (auto simp: tbl_put_def split: if_splits)

lemma tbl_put_commute:
  "k \<in> fst ` set t \<Longrightarrow> k \<noteq> k' \<Longrightarrow> tbl_put (tbl_put t k' v') k v = tbl_put (tbl_put t k v) k' v'"
  by (induction t) (auto simp: tbl_put_def)

lemma tbl_delete_put_other: "k \<noteq> k' \<Longrightarrow> tbl_delete (tbl_put t k' v') k = tbl_put (tbl_delete t k) k' v'"
  by (induction t) (auto simp: tbl_put_def tbl_delete_def)

lemma map_of_tbl_put: "map_of (tbl_put t k v) = (map_of t)(k \<mapsto> v)"
  by (simp add: tbl_put_def update_conv')

lemma map_of_tbl_delete: "map_of (tbl_delete t k) = (map_of t)(k := None)"
  by (simp add: tbl_delete_def delete_conv')

lemma keys_tbl_put: "fst ` set (tbl_put t k v) = insert k (fst ` set t)"
  by (simp add: tbl_put_def dom_update)

lemma distinct_tbl_put: "distinct (map fst t) \<Longrightarrow> distinct (map fst (tbl_put t k v))"
  by (simp add: tbl_put_def distinct_update)

lemma keys_tbl_delete: "fst ` set (tbl_delete t k) = fst ` set t - {k}"
  by (auto simp: tbl_delete_def AList.delete_eq)

end
