(* ===== verification/Storage.thy ===== *)
theory Storage
  imports Monero_Types Database
begin

text \<open>
  The blockchain database: \<^verbatim>\<open>src/storage/blockchain/src/types.rs\<close>, \<^verbatim>\<open>tables.rs\<close>, and the operations on the main
  chain in \<^verbatim>\<open>ops/key_image.rs\<close>, \<^verbatim>\<open>ops/output.rs\<close>, \<^verbatim>\<open>ops/tx.rs\<close>, \<^verbatim>\<open>ops/blockchain.rs\<close> and \<^verbatim>\<open>ops/block.rs\<close>; the operations on
  alternative chains are in theory \<open>Alt_Blocks\<close>.

  An operation maps the tables to an error, a panic, or the new tables and its result. Tables reached
  before an error are not kept: the write service aborts the transaction then
  (\<^verbatim>\<open>service/write.rs\<close>). Serialisation, hashes and weights of blocks and transactions are \<open>monero_oxide\<close>'s
  and come from the record \<open>codecs\<close>.
\<close>

subsection \<open>Table types\<close>

type_synonym pre_rct_output_id = "nat \<times> nat"

record block_info =
  bi_timestamp :: nat
  cumulative_generated_coins :: nat
  bi_weight :: nat
  cumulative_difficulty_low :: nat
  cumulative_difficulty_high :: nat
  bi_block_hash :: bytes
  cumulative_rct_outs :: nat
  bi_long_term_weight :: nat
  mining_tx_index :: nat

text \<open>\<open>OutputFlags\<close> has one bit, \<open>NON_ZERO_UNLOCK_TIME\<close>.\<close>

record db_output =
  do_key :: bytes
  do_height :: nat
  non_zero_unlock_time :: bool
  do_tx_idx :: nat

record rct_output = db_output +
  ro_commitment :: bytes

record alt_chain_info =
  parent_chain :: nat
  common_ancestor_height :: nat
  aci_chain_height :: nat

type_synonym alt_block_height = "nat \<times> nat"

record compact_alt_block_info =
  ca_block_hash :: bytes
  ca_pow_hash :: bytes
  ca_height :: nat
  ca_weight :: nat
  ca_long_term_weight :: nat
  ca_cumulative_difficulty_low :: nat
  ca_cumulative_difficulty_high :: nat

record alt_transaction_info =
  ati_tx_weight :: nat
  ati_fee :: nat
  ati_tx_hash :: bytes

record tables =
  block_header_blobs :: "(nat, bytes) table"
  block_txs_hashes :: "(nat, bytes list) table"
  block_heights :: "(bytes, nat) table"
  block_infos :: "(nat, block_info) table"
  key_images :: "(bytes, unit) table"
  num_outputs :: "(nat, nat) table"
  outputs_table :: "(pre_rct_output_id, db_output) table"
  rct_outputs :: "(nat, rct_output) table"
  tx_blobs :: "(nat, bytes) table"
  tx_ids :: "(bytes, nat) table"
  tx_heights :: "(nat, nat) table"
  tx_outputs :: "(nat, nat list) table"
  tx_unlock_time :: "(nat, nat) table"
  alt_chain_infos :: "(nat, alt_chain_info) table"
  alt_block_heights :: "(bytes, alt_block_height) table"
  alt_blocks_info :: "(alt_block_height, compact_alt_block_info) table"
  alt_block_blobs :: "(alt_block_height, bytes) table"
  alt_transaction_blobs :: "(bytes, bytes) table"
  alt_transaction_infos :: "(bytes, alt_transaction_info) table"

text \<open>A new database.\<close>

definition empty_tables :: tables where
  "empty_tables =
     \<lparr>block_header_blobs = [], block_txs_hashes = [], block_heights = [], block_infos = [], key_images = [],
      num_outputs = [], outputs_table = [], rct_outputs = [], tx_blobs = [], tx_ids = [], tx_heights = [],
      tx_outputs = [], tx_unlock_time = [], alt_chain_infos = [], alt_block_heights = [], alt_blocks_info = [],
      alt_block_blobs = [], alt_transaction_blobs = [], alt_transaction_infos = []\<rparr>"

record verified_tx =
  vt_tx :: transaction
  vt_blob :: bytes
  vt_weight :: nat
  vt_fee :: nat
  vt_hash :: bytes

record verified_block =
  vb_block :: block
  vb_block_blob :: bytes
  vb_txs :: "verified_tx list"
  vb_hash :: bytes
  vb_pow_hash :: bytes
  vb_height :: nat
  vb_generated_coins :: nat
  vb_weight :: nat
  vb_long_term_weight :: nat
  vb_cumulative_difficulty :: nat

record codecs =
  header_serialize :: "block_header \<Rightarrow> bytes"
  header_read :: "bytes \<Rightarrow> block_header option"
  tx_serialize :: "transaction \<Rightarrow> bytes"
  tx_read :: "bytes \<Rightarrow> transaction option"
  tx_hash_of :: "transaction \<Rightarrow> bytes"
  tx_weight_of :: "transaction \<Rightarrow> nat"
  tx_version_of :: "transaction \<Rightarrow> nat"
  block_serialize :: "block \<Rightarrow> bytes"
  block_read :: "bytes \<Rightarrow> block option"
  block_new :: "block_header \<Rightarrow> transaction \<Rightarrow> bytes list \<Rightarrow> block option"
  zero_commitment :: "nat \<Rightarrow> bytes"
  varint_write :: "nat \<Rightarrow> bytes"

type_synonym 'a db_result = "runtime_error fault + 'a"

abbreviation read_blob :: "('b \<Rightarrow> 'a option) \<Rightarrow> 'b \<Rightarrow> 'a db_result" where
  "read_blob r b \<equiv> ok_or (Fault IoError) (r b)"

subsection \<open>Key images\<close>

definition add_key_image :: "bytes \<Rightarrow> tables \<Rightarrow> tables" where
  "add_key_image ki t = t\<lparr>key_images := tbl_put (key_images t) ki ()\<rparr>"

definition remove_key_image :: "bytes \<Rightarrow> tables \<Rightarrow> tables" where
  "remove_key_image ki t = t\<lparr>key_images := tbl_delete (key_images t) ki\<rparr>"

definition key_image_exists :: "bytes \<Rightarrow> tables \<Rightarrow> bool" where
  "key_image_exists ki t = tbl_contains (key_images t) ki"

subsection \<open>Outputs\<close>

definition add_output :: "nat \<Rightarrow> db_output \<Rightarrow> tables \<Rightarrow> tables \<times> pre_rct_output_id" where
  "add_output a out t =
     (let n = (case tbl_get (num_outputs t) a of Inr n \<Rightarrow> n | Inl _ \<Rightarrow> 0);
          t = t\<lparr>num_outputs := tbl_put (num_outputs t) a (n + 1)\<rparr>
      in (t\<lparr>outputs_table := tbl_put (outputs_table t) (a, n) out\<rparr>, (a, n)))"

definition remove_output :: "pre_rct_output_id \<Rightarrow> tables \<Rightarrow> tables db_result" where
  "remove_output oid t =
     and_then (no_panic (tbl_update (num_outputs t) (fst oid) (\<lambda>n. if n = 1 then None else Some (wsub 64 n 1)))) (\<lambda>nums.
     Ok (t\<lparr>num_outputs := nums, outputs_table := tbl_delete (outputs_table t) oid\<rparr>))"

definition get_output :: "pre_rct_output_id \<Rightarrow> tables \<Rightarrow> db_output db_result" where
  "get_output oid t = no_panic (tbl_get (outputs_table t) oid)"

definition get_num_outputs :: "tables \<Rightarrow> nat" where
  "get_num_outputs t = tbl_len (outputs_table t)"

definition get_rct_num_outputs :: "tables \<Rightarrow> nat" where
  "get_rct_num_outputs t = tbl_len (rct_outputs t)"

definition add_rct_output :: "rct_output \<Rightarrow> tables \<Rightarrow> tables \<times> nat" where
  "add_rct_output out t =
     (let i = get_rct_num_outputs t in (t\<lparr>rct_outputs := tbl_put (rct_outputs t) i out\<rparr>, i))"

definition remove_rct_output :: "nat \<Rightarrow> tables \<Rightarrow> tables" where
  "remove_rct_output i t = t\<lparr>rct_outputs := tbl_delete (rct_outputs t) i\<rparr>"

definition get_rct_output :: "nat \<Rightarrow> tables \<Rightarrow> rct_output db_result" where
  "get_rct_output i t = no_panic (tbl_get (rct_outputs t) i)"

subsection \<open>Transactions\<close>

definition get_num_tx :: "tables \<Rightarrow> nat" where
  "get_num_tx t = tbl_len (tx_ids t)"

definition is_gen :: "input \<Rightarrow> bool" where
  "is_gen i = (case i of Gen _ \<Rightarrow> True | ToKey _ _ _ \<Rightarrow> False)"

fun add_input_images :: "input list \<Rightarrow> tables \<Rightarrow> tables" where
  "add_input_images [] t = t"
| "add_input_images (ToKey _ _ ki # ins) t = add_input_images ins (add_key_image ki t)"
| "add_input_images (Gen _ # ins) t = add_input_images ins t"

fun remove_input_images :: "input list \<Rightarrow> tables \<Rightarrow> tables" where
  "remove_input_images [] t = t"
| "remove_input_images (ToKey _ _ ki # ins) t = remove_input_images ins (remove_key_image ki t)"
| "remove_input_images (Gen _ # ins) t = remove_input_images ins t"

fun add_pre_rct_outputs :: "nat \<Rightarrow> bool \<Rightarrow> nat \<Rightarrow> tx_output list \<Rightarrow> tables \<Rightarrow> tables \<times> nat list" where
  "add_pre_rct_outputs h flag txid [] t = (t, [])"
| "add_pre_rct_outputs h flag txid (out # outs) t =
     (let (t, oid) = add_output (case amount out of None \<Rightarrow> 0 | Some a \<Rightarrow> a)
                       \<lparr>do_key = out_key out, do_height = h, non_zero_unlock_time = flag, do_tx_idx = txid\<rparr> t;
          (t, is) = add_pre_rct_outputs h flag txid outs t
      in (t, snd oid # is))"

text \<open>
  The commitment of the \<open>i\<close>-th output: computed for a miner transaction, else the \<open>i\<close>-th of the proofs;
  missing proofs and a missing commitment panic.
\<close>

definition output_commitment :: "codecs \<Rightarrow> bool \<Rightarrow> rct_proofs option \<Rightarrow> nat \<Rightarrow> tx_output \<Rightarrow> bytes db_result" where
  "output_commitment io miner_tx prfs i out =
     (if miner_tx then Ok (zero_commitment io (case amount out of None \<Rightarrow> 0 | Some a \<Rightarrow> a))
      else and_then (unwrap prfs) (\<lambda>p.
           let cs = commitments (rct_base p) in if i < length cs then Ok (cs ! i) else Err Panic))"

fun add_rct_outputs ::
  "codecs \<Rightarrow> bool \<Rightarrow> rct_proofs option \<Rightarrow> nat \<Rightarrow> bool \<Rightarrow> nat \<Rightarrow> nat \<Rightarrow> tx_output list \<Rightarrow> tables \<Rightarrow> (tables \<times> nat list) db_result" where
  "add_rct_outputs io miner_tx prfs h flag txid i [] t = Ok (t, [])"
| "add_rct_outputs io miner_tx prfs h flag txid i (out # outs) t =
     and_then (output_commitment io miner_tx prfs i out) (\<lambda>c.
     let (t, idx) = add_rct_output \<lparr>do_key = out_key out, do_height = h, non_zero_unlock_time = flag,
                                    do_tx_idx = txid, ro_commitment = c\<rparr> t
     in and_then (add_rct_outputs io miner_tx prfs h flag txid (i + 1) outs t) (\<lambda>(t, is). Ok (t, idx # is)))"

definition add_tx :: "codecs \<Rightarrow> transaction \<Rightarrow> bytes \<Rightarrow> bytes \<Rightarrow> nat \<Rightarrow> tables \<Rightarrow> (tables \<times> nat) db_result" where
  "add_tx io tx blob hash block_height t =
     (let txid = get_num_tx t;
          t = t\<lparr>tx_ids := tbl_put (tx_ids t) hash txid,
                tx_heights := tbl_put (tx_heights t) txid block_height,
                tx_blobs := tbl_put (tx_blobs t) txid blob\<rparr>;
          lock = additional_timelock (prefix tx);
          t = (case lock of
                 TNone \<Rightarrow> t
               | TBlock h \<Rightarrow> t\<lparr>tx_unlock_time := tbl_put (tx_unlock_time t) txid h\<rparr>
               | TTime s \<Rightarrow> t\<lparr>tx_unlock_time := tbl_put (tx_unlock_time t) txid s\<rparr>)
      in
        and_then (assert (block_height < 2 ^ 32)) (\<lambda>_.
        let miner_tx = list_ex is_gen (inputs (prefix tx));
            t = add_input_images (inputs (prefix tx)) t;
            flag = (lock \<noteq> TNone)
        in
          and_then
            (case tx of
               TxV1 pre _ \<Rightarrow> Ok (add_pre_rct_outputs block_height flag txid (outputs pre) t)
             | TxV2 pre prfs \<Rightarrow> add_rct_outputs io miner_tx prfs block_height flag txid 0 (outputs pre) t) (\<lambda>(t, is).
          Ok (t\<lparr>tx_outputs := tbl_put (tx_outputs t) txid is\<rparr>, txid))))"

text \<open>The output counts are \<open>u64\<close>; \<open>count - 1\<close> wraps on an empty table.\<close>

fun remove_outputs :: "bool \<Rightarrow> tx_output list \<Rightarrow> tables \<Rightarrow> tables db_result" where
  "remove_outputs rct_miner [] t = Ok t"
| "remove_outputs rct_miner (out # outs) t =
     and_then
       (case amount out of
          Some a \<Rightarrow>
            (if rct_miner then Ok (remove_rct_output (wsub 64 (get_rct_num_outputs t) 1) t)
             else and_then (no_panic (tbl_get (num_outputs t) a)) (\<lambda>n. remove_output (a, wsub 64 n 1) t))
        | None \<Rightarrow> Ok (remove_rct_output (wsub 64 (get_rct_num_outputs t) 1) t)) (\<lambda>t.
     remove_outputs rct_miner outs t)"

definition remove_tx :: "codecs \<Rightarrow> bytes \<Rightarrow> tables \<Rightarrow> (tables \<times> nat \<times> transaction) db_result" where
  "remove_tx io hash t =
     and_then (no_panic (tbl_take (tx_ids t) hash)) (\<lambda>(ids, txid).
     and_then (no_panic (tbl_take (tx_blobs t) txid)) (\<lambda>(blobs, blob).
     let t = t\<lparr>tx_ids := ids, tx_blobs := blobs, tx_heights := tbl_delete (tx_heights t) txid,
               tx_outputs := tbl_delete (tx_outputs t) txid,
               tx_unlock_time := tbl_delete (tx_unlock_time t) txid\<rparr>
     in
       and_then (read_blob (tx_read io) blob) (\<lambda>tx.
       let miner_tx = list_ex is_gen (inputs (prefix tx));
           t = remove_input_images (inputs (prefix tx)) t
       in and_then (remove_outputs (miner_tx \<and> tx_version_of io tx = 2) (outputs (prefix tx)) t) (\<lambda>t.
          Ok (t, txid, tx)))))"

definition get_tx_from_id :: "codecs \<Rightarrow> nat \<Rightarrow> tables \<Rightarrow> transaction db_result" where
  "get_tx_from_id io txid t =
     and_then (no_panic (tbl_get (tx_blobs t) txid)) (\<lambda>blob. read_blob (tx_read io) blob)"

definition get_tx :: "codecs \<Rightarrow> bytes \<Rightarrow> tables \<Rightarrow> transaction db_result" where
  "get_tx io hash t = and_then (no_panic (tbl_get (tx_ids t) hash)) (\<lambda>txid. get_tx_from_id io txid t)"

definition tx_exists :: "bytes \<Rightarrow> tables \<Rightarrow> bool" where
  "tx_exists hash t = tbl_contains (tx_ids t) hash"

subsection \<open>Heights and coins\<close>

definition chain_height_of :: "tables \<Rightarrow> nat" where
  "chain_height_of t = tbl_len (block_heights t)"

definition top_block_height :: "tables \<Rightarrow> nat db_result" where
  "top_block_height t =
     (let n = tbl_len (block_heights t) in if n = 0 then Err (Fault KeyNotFound) else Ok (n - 1))"

definition cumulative_generated_coins_at :: "nat \<Rightarrow> tables \<Rightarrow> nat db_result" where
  "cumulative_generated_coins_at height t =
     (case tbl_get (block_infos t) height of
        Inr info \<Rightarrow> Ok (cumulative_generated_coins info)
      | Inl e \<Rightarrow> if e = KeyNotFound \<and> height = 0 then Ok 0 else Err (Fault e))"

definition block_exists :: "bytes \<Rightarrow> tables \<Rightarrow> bool" where
  "block_exists hash t = tbl_contains (block_heights t) hash"

text \<open>\<open>partition_point\<close> of Rust's slices: the halving loop of the search with a predicate.\<close>

function partition_base :: "('a \<Rightarrow> bool) \<Rightarrow> 'a list \<Rightarrow> nat \<Rightarrow> nat \<Rightarrow> nat" where
  "partition_base p xs base sz =
     (if 1 < sz
      then let half = sz div 2; mid = base + half
           in partition_base p xs (if p (xs ! mid) then mid else base) (sz - half)
      else base)"
  by pat_completeness auto
termination
  by (relation "measure (\<lambda>(p, xs, base, sz). sz)") auto

declare partition_base.simps [simp del]

definition partition_point :: "('a \<Rightarrow> bool) \<Rightarrow> 'a list \<Rightarrow> nat" where
  "partition_point p xs =
     (if xs = [] then 0
      else let base = partition_base p xs 0 (length xs) in if p (xs ! base) then base + 1 else base)"

definition find_split_point :: "bytes list \<Rightarrow> bool \<Rightarrow> bool \<Rightarrow> tables \<Rightarrow> nat" where
  "find_split_point block_ids chronological_order include_alt_blocks t =
     partition_point
       (\<lambda>b. (block_exists b t \<or> include_alt_blocks \<and> tbl_contains (alt_block_heights t) b) = chronological_order)
       block_ids"

subsection \<open>Outputs as seen by the chain's users\<close>

record output_on_chain =
  ooc_height :: nat
  ooc_time_lock :: timelock
  ooc_key :: bytes
  ooc_commitment :: bytes
  ooc_txid :: "bytes option"

definition output_time_lock :: "bool \<Rightarrow> nat \<Rightarrow> tables \<Rightarrow> timelock db_result" where
  "output_time_lock flag txid t =
     (if flag then and_then (no_panic (tbl_get (tx_unlock_time t) txid)) (\<lambda>u. Ok (u64_to_timelock u))
      else Ok TNone)"

definition output_txid :: "codecs \<Rightarrow> bool \<Rightarrow> nat \<Rightarrow> nat \<Rightarrow> tables \<Rightarrow> bytes option db_result" where
  "output_txid io get_txid height txid t =
     (if get_txid
      then and_then (no_panic (tbl_get (block_infos t) height)) (\<lambda>info.
           let miner_tx_id = mining_tx_index info in
           if miner_tx_id = txid
           then and_then (get_tx_from_id io miner_tx_id t) (\<lambda>tx. Ok (Some (tx_hash_of io tx)))
           else and_then (no_panic (tbl_get (block_txs_hashes t) height)) (\<lambda>hashes.
                let idx = wsub 64 (wsub 64 txid miner_tx_id) 1 in
                if idx < length hashes then Ok (Some (hashes ! idx)) else Err Panic))
      else Ok None)"

definition output_to_output_on_chain ::
  "codecs \<Rightarrow> db_output \<Rightarrow> nat \<Rightarrow> bool \<Rightarrow> tables \<Rightarrow> output_on_chain db_result" where
  "output_to_output_on_chain io out a get_txid t =
     and_then (output_time_lock (non_zero_unlock_time out) (do_tx_idx out) t) (\<lambda>lock.
     and_then (output_txid io get_txid (do_height out) (do_tx_idx out) t) (\<lambda>txid.
     Ok \<lparr>ooc_height = do_height out, ooc_time_lock = lock, ooc_key = do_key out,
         ooc_commitment = zero_commitment io a, ooc_txid = txid\<rparr>))"

definition rct_output_to_output_on_chain ::
  "codecs \<Rightarrow> rct_output \<Rightarrow> bool \<Rightarrow> tables \<Rightarrow> output_on_chain db_result" where
  "rct_output_to_output_on_chain io out get_txid t =
     and_then (output_time_lock (non_zero_unlock_time out) (do_tx_idx out) t) (\<lambda>lock.
     and_then (output_txid io get_txid (do_height out) (do_tx_idx out) t) (\<lambda>txid.
     Ok \<lparr>ooc_height = do_height out, ooc_time_lock = lock, ooc_key = do_key out,
         ooc_commitment = ro_commitment out, ooc_txid = txid\<rparr>))"

definition id_to_output_on_chain ::
  "codecs \<Rightarrow> pre_rct_output_id \<Rightarrow> bool \<Rightarrow> tables \<Rightarrow> output_on_chain db_result" where
  "id_to_output_on_chain io oid get_txid t =
     (if fst oid = 0
      then and_then (get_rct_output (snd oid) t) (\<lambda>out. rct_output_to_output_on_chain io out get_txid t)
      else and_then (get_output oid t) (\<lambda>out. output_to_output_on_chain io out (fst oid) get_txid t))"

end
