(* ===== verification/Alt_Blocks.thy ===== *)
theory Alt_Blocks
  imports Storage
begin

text \<open>
  Alternative chains in the database: \<^verbatim>\<open>src/storage/blockchain/src/ops/alt_block/\<close> (\<^verbatim>\<open>block.rs\<close>, \<^verbatim>\<open>chain.rs\<close>, \<^verbatim>\<open>tx.rs\<close>) and the chain
  identifiers of \<^verbatim>\<open>types.rs\<close>. The two walks from an alternative chain towards the main chain follow parent
  links stored in the database and need not end on a corrupt database; they are
  \<open>partial_function (option)\<close>, with \<open>None\<close> for a walk that does not end.
\<close>

subsection \<open>Chain identifiers\<close>

definition raw_chain :: "chain \<Rightarrow> nat" where
  "raw_chain c = (case c of Main \<Rightarrow> 0 | Alt i \<Rightarrow> i)"

definition chain_from_raw :: "nat \<Rightarrow> chain" where
  "chain_from_raw r = (if r = 0 then Main else Alt r)"

subsection \<open>Writing\<close>

definition flush_alt_blocks :: "tables \<Rightarrow> tables" where
  "flush_alt_blocks t =
     t\<lparr>alt_chain_infos := [], alt_block_heights := [], alt_blocks_info := [], alt_block_blobs := [],
       alt_transaction_blobs := [], alt_transaction_infos := []\<rparr>"

record alt_block_information =
  ab_block :: block
  ab_block_blob :: bytes
  ab_txs :: "verified_tx list"
  ab_block_hash :: bytes
  ab_pow_hash :: bytes
  ab_height :: nat
  ab_weight :: nat
  ab_long_term_weight :: nat
  ab_cumulative_difficulty :: nat
  ab_chain_id :: nat

definition update_alt_chain_info :: "alt_block_height \<Rightarrow> bytes \<Rightarrow> tables \<Rightarrow> tables db_result" where
  "update_alt_chain_info abh prev_hash t =
     (let (chain_id, height) = abh;
          parent = (case tbl_get (alt_block_heights t) prev_hash of Inr p \<Rightarrow> Alt (fst p) | Inl _ \<Rightarrow> Main)
      in case tbl_get (alt_chain_infos t) chain_id of
           Inr info \<Rightarrow>
             and_then
               (if aci_chain_height info < height + 1 then Ok (info\<lparr>aci_chain_height := height + 1\<rparr>)
                else and_then (unwrap (checked_sub height 1)) (\<lambda>a.
                     Ok (info\<lparr>common_ancestor_height := a, parent_chain := raw_chain parent\<rparr>))) (\<lambda>info.
             Ok (t\<lparr>alt_chain_infos := tbl_put (alt_chain_infos t) chain_id info\<rparr>))
         | Inl _ \<Rightarrow>
             and_then (unwrap (checked_sub height 1)) (\<lambda>a.
             Ok (t\<lparr>alt_chain_infos := tbl_put (alt_chain_infos t) chain_id
                     \<lparr>parent_chain = raw_chain parent, common_ancestor_height = a, aci_chain_height = height + 1\<rparr>\<rparr>)))"

definition add_alt_transaction_blob :: "verified_tx \<Rightarrow> tables \<Rightarrow> tables" where
  "add_alt_transaction_blob tx t =
     (let t = t\<lparr>alt_transaction_infos := tbl_put (alt_transaction_infos t) (vt_hash tx)
                  \<lparr>ati_tx_weight = vt_weight tx, ati_fee = vt_fee tx, ati_tx_hash = vt_hash tx\<rparr>\<rparr>
      in if is_ok (tbl_get (tx_ids t) (vt_hash tx)) \<or> is_ok (tbl_get (alt_transaction_blobs t) (vt_hash tx))
         then t
         else t\<lparr>alt_transaction_blobs := tbl_put (alt_transaction_blobs t) (vt_hash tx) (vt_blob tx)\<rparr>)"

definition add_alt_block :: "alt_block_information \<Rightarrow> tables \<Rightarrow> tables db_result" where
  "add_alt_block ab t =
     (let abh = (ab_chain_id ab, ab_height ab);
          t = t\<lparr>alt_block_heights := tbl_put (alt_block_heights t) (ab_block_hash ab) abh\<rparr>
      in and_then (update_alt_chain_info abh (previous (header (ab_block ab))) t) (\<lambda>t.
         let (low, high) = split_u128_into_low_high_bits (ab_cumulative_difficulty ab);
             t = t\<lparr>alt_blocks_info := tbl_put (alt_blocks_info t) abh
                      \<lparr>ca_block_hash = ab_block_hash ab, ca_pow_hash = ab_pow_hash ab, ca_height = ab_height ab,
                       ca_weight = ab_weight ab, ca_long_term_weight = ab_long_term_weight ab,
                       ca_cumulative_difficulty_low = low, ca_cumulative_difficulty_high = high\<rparr>,
                   alt_block_blobs := tbl_put (alt_block_blobs t) abh (ab_block_blob ab)\<rparr>
         in and_then (assert (length (ab_txs ab) = length (transactions (ab_block ab)))) (\<lambda>_.
            Ok (fold add_alt_transaction_blob (ab_txs ab) t))))"

subsection \<open>Reading\<close>

definition get_alt_transaction :: "codecs \<Rightarrow> bytes \<Rightarrow> tables \<Rightarrow> verified_tx db_result" where
  "get_alt_transaction io hash t =
     and_then (no_panic (tbl_get (alt_transaction_infos t) hash)) (\<lambda>info.
     and_then
       (case tbl_get (alt_transaction_blobs t) hash of
          Inr blob \<Rightarrow> Ok blob
        | Inl _ \<Rightarrow> and_then (no_panic (tbl_get (tx_ids t) hash)) (\<lambda>txid.
                     no_panic (tbl_get (tx_blobs t) txid))) (\<lambda>blob.
     and_then (unwrap (tx_read io blob)) (\<lambda>tx.
     Ok \<lparr>vt_tx = tx, vt_blob = blob, vt_weight = ati_tx_weight info, vt_fee = ati_fee info,
         vt_hash = ati_tx_hash info\<rparr>)))"

definition get_alt_block :: "codecs \<Rightarrow> alt_block_height \<Rightarrow> tables \<Rightarrow> alt_block_information db_result" where
  "get_alt_block io abh t =
     and_then (no_panic (tbl_get (alt_blocks_info t) abh)) (\<lambda>info.
     and_then (no_panic (tbl_get (alt_block_blobs t) abh)) (\<lambda>blob.
     and_then (read_blob (block_read io) blob) (\<lambda>blk.
     and_then (collect_results (\<lambda>h. get_alt_transaction io h t) (transactions blk)) (\<lambda>txs.
     Ok \<lparr>ab_block = blk, ab_block_blob = blob, ab_txs = txs, ab_block_hash = ca_block_hash info,
         ab_pow_hash = ca_pow_hash info, ab_height = ca_height info, ab_weight = ca_weight info,
         ab_long_term_weight = ca_long_term_weight info,
         ab_cumulative_difficulty =
           combine_low_high_bits_to_u128 (ca_cumulative_difficulty_low info) (ca_cumulative_difficulty_high info),
         ab_chain_id = fst abh\<rparr>))))"

definition get_alt_block_extended_header_from_height ::
  "codecs \<Rightarrow> alt_block_height \<Rightarrow> tables \<Rightarrow> ext_header db_result" where
  "get_alt_block_extended_header_from_height io abh t =
     and_then (no_panic (tbl_get (alt_blocks_info t) abh)) (\<lambda>info.
     and_then (no_panic (tbl_get (alt_block_blobs t) abh)) (\<lambda>blob.
     and_then (read_blob (header_read io) blob) (\<lambda>hdr.
     case from_version (hardfork_version hdr) of
       Inl _ \<Rightarrow> Err Panic
     | Inr v \<Rightarrow>
         Ok \<lparr>eh_version = v, eh_vote = hardfork_version hdr, eh_timestamp = hdr_timestamp hdr,
             eh_cumulative_difficulty =
               combine_low_high_bits_to_u128 (ca_cumulative_difficulty_low info) (ca_cumulative_difficulty_high info),
             eh_block_weight = ca_weight info, eh_long_term_weight = ca_long_term_weight info\<rparr>)))"

partial_function (option) alt_block_chain ::
  "nat \<Rightarrow> nat \<Rightarrow> (nat, alt_chain_info) table \<Rightarrow> (chain db_result) option" where
  "alt_block_chain height chain_id infos =
     (case tbl_get infos chain_id of
        Inl e \<Rightarrow> Some (Err (Fault e))
      | Inr info \<Rightarrow>
          if common_ancestor_height info < height then Some (Ok (Alt chain_id))
          else case chain_from_raw (parent_chain info) of
                 Main \<Rightarrow> Some (Ok Main)
               | Alt i \<Rightarrow> alt_block_chain height i infos)"

definition get_alt_block_hash :: "nat \<Rightarrow> nat \<Rightarrow> tables \<Rightarrow> (bytes db_result) option" where
  "get_alt_block_hash height alt_chain t =
     map_option
       (\<lambda>r. and_then r (\<lambda>c.
          case c of
            Main \<Rightarrow> and_then (no_panic (tbl_get (block_infos t) height)) (\<lambda>info. Ok (bi_block_hash info))
          | Alt i \<Rightarrow> and_then (no_panic (tbl_get (alt_blocks_info t) (i, height))) (\<lambda>info. Ok (ca_block_hash info))))
       (alt_block_chain height alt_chain (alt_chain_infos t))"

partial_function (option) history_ranges ::
  "nat \<Rightarrow> nat \<Rightarrow> nat \<Rightarrow> (nat, alt_chain_info) table \<Rightarrow> ((chain \<times> nat \<times> nat) list db_result) option" where
  "history_ranges start i chain_id infos =
     (if \<not> start < i then Some (Ok [])
      else case tbl_get infos chain_id of
             Inl e \<Rightarrow> Some (Err (Fault e))
           | Inr info \<Rightarrow>
               let start_height = max start (common_ancestor_height info + 1);
                   end_height = min i (aci_chain_height info);
                   r = (Alt chain_id, start_height, end_height);
                   i' = common_ancestor_height info + 1
               in case chain_from_raw (parent_chain info) of
                    Main \<Rightarrow> Some (Ok [r, (Main, start, i')])
                  | Alt c \<Rightarrow>
                      if c = chain_id then Some (Err (Fault IoError))
                      else Option.bind (history_ranges start i' c infos) (\<lambda>rs. Some (and_then rs (\<lambda>rs. Ok (r # rs)))))"

definition get_alt_chain_history_ranges ::
  "nat \<Rightarrow> nat \<Rightarrow> nat \<Rightarrow> (nat, alt_chain_info) table \<Rightarrow> ((chain \<times> nat \<times> nat) list db_result) option" where
  "get_alt_chain_history_ranges start stop alt_chain infos = history_ranges start stop alt_chain infos"

end
