(* ===== verification/Store_Laws.thy ===== *)
theory Store_Laws
  imports Block_Store "HOL-Library.Multiset"
begin

text \<open>
  The laws of the block store: what adding and removing transactions does to each table. The tables of a database with some transactions
  of a block added are described by \<open>stored\<close>; \<open>add_tx\<close> extends that description at its end, \<open>remove_tx\<close> takes the first
  transaction off it, and with none left the tables are the original ones. Outputs before RingCT are removed by amount, the newest of
  the amount first, which is not the order they were added in: \<open>drop_put_outputs\<close> shows that this still restores the tables.
\<close>

subsection \<open>Outputs before RingCT\<close>

type_synonym pre_outputs = "(nat, nat) table \<times> (pre_rct_output_id, db_output) table"

definition count_of :: "(nat, nat) table \<Rightarrow> nat \<Rightarrow> nat" where
  "count_of nums a = (case map_of nums a of Some n \<Rightarrow> n | None \<Rightarrow> 0)"

definition put_output :: "nat \<times> db_output \<Rightarrow> pre_outputs \<Rightarrow> pre_outputs" where
  "put_output ao p =
     (tbl_put (fst p) (fst ao) (count_of (fst p) (fst ao) + 1),
      tbl_put (snd p) (fst ao, count_of (fst p) (fst ao)) (snd ao))"

definition drop_output :: "nat \<Rightarrow> pre_outputs \<Rightarrow> pre_outputs" where
  "drop_output a p =
     (if count_of (fst p) a = 1 then tbl_delete (fst p) a else tbl_put (fst p) a (count_of (fst p) a - 1),
      tbl_delete (snd p) (a, count_of (fst p) a - 1))"

definition outputs_ok :: "pre_outputs \<Rightarrow> bool" where
  "outputs_ok p \<longleftrightarrow>
     distinct (map fst (fst p)) \<and> distinct (map fst (snd p)) \<and>
     (\<forall>a. map_of (fst p) a \<noteq> Some 0) \<and>
     (\<forall>a i. (a, i) \<in> fst ` set (snd p) \<longleftrightarrow> i < count_of (fst p) a)"

lemma count_of_put: "count_of (tbl_put nums a n) b = (if b = a then n else count_of nums b)"
  by (simp add: count_of_def map_of_tbl_put)

lemma count_of_delete: "count_of (tbl_delete nums a) b = (if b = a then 0 else count_of nums b)"
  by (simp add: count_of_def map_of_tbl_delete)

lemma outputs_ok_put:
  assumes "outputs_ok p"
  shows "outputs_ok (put_output ao p)"
  using assms
  by (auto simp: outputs_ok_def put_output_def distinct_tbl_put keys_tbl_put count_of_put map_of_tbl_put less_Suc_eq)

lemma length_put_output:
  assumes "outputs_ok p"
  shows "length (snd (put_output ao p)) = length (snd p) + 1"
proof -
  have "(fst ao, count_of (fst p) (fst ao)) \<notin> fst ` set (snd p)"
    using assms by (simp add: outputs_ok_def)
  then show ?thesis
    by (simp add: put_output_def tbl_put_fresh)
qed

lemma count_of_le_length:
  assumes "outputs_ok p"
  shows "count_of (fst p) a \<le> length (snd p)"
proof -
  have "(\<lambda>i. (a, i)) ` {..<count_of (fst p) a} \<subseteq> fst ` set (snd p)"
    using assms by (auto simp: outputs_ok_def)
  then have "card ((\<lambda>i. (a, i)) ` {..<count_of (fst p) a}) \<le> card (fst ` set (snd p))"
    by (intro card_mono) auto
  also have "\<dots> \<le> length (snd p)"
    by (metis card_length length_map list.set_map)
  finally show ?thesis
    by (simp add: card_image inj_on_def)
qed

lemma drop_put_same:
  assumes "outputs_ok p"
  shows "drop_output a (put_output (a, out) p) = p"
proof -
  have fresh: "(a, count_of (fst p) a) \<notin> fst ` set (snd p)"
    using assms by (simp add: outputs_ok_def)
  have "fst (drop_output a (put_output (a, out) p)) = fst p"
  proof (cases "map_of (fst p) a")
    case None
    then have "a \<notin> fst ` set (fst p)"
      by (simp add: map_of_eq_None_iff)
    moreover have "count_of (fst p) a = 0"
      using None by (simp add: count_of_def)
    ultimately show ?thesis
      by (simp add: drop_output_def put_output_def count_of_put) (simp add: tbl_put_fresh tbl_delete_append tbl_delete_fresh)
  next
    case (Some n)
    with assms have "n \<noteq> 0"
      unfolding outputs_ok_def by metis
    with Some show ?thesis
      by (simp add: drop_output_def put_output_def count_of_def map_of_tbl_put tbl_put_put tbl_put_same)
  qed
  moreover have "snd (drop_output a (put_output (a, out) p)) = snd p"
    using fresh by (simp add: drop_output_def put_output_def count_of_put tbl_put_fresh tbl_delete_append tbl_delete_fresh)
  ultimately show ?thesis
    by (simp add: prod_eq_iff)
qed

lemma drop_put_other:
  assumes "a \<noteq> fst ao" "0 < count_of (fst p) a"
  shows "drop_output a (put_output ao p) = put_output ao (drop_output a p)"
proof -
  have "a \<in> fst ` set (fst p)"
    using assms(2) by (cases "map_of (fst p) a") (auto simp: count_of_def dest: map_of_SomeD intro: rev_image_eqI)
  then show ?thesis
    using assms(1)
    by (auto simp: drop_output_def put_output_def count_of_put count_of_delete tbl_delete_put_other tbl_put_commute)
qed

lemma outputs_ok_puts: "outputs_ok p \<Longrightarrow> outputs_ok (fold put_output L p)"
  by (induction L arbitrary: p) (simp_all add: outputs_ok_put)

lemma length_put_outputs: "outputs_ok p \<Longrightarrow> length (snd (fold put_output L p)) = length (snd p) + length L"
  by (induction L arbitrary: p) (simp_all add: outputs_ok_put length_put_output)

lemma count_of_puts: "count_of (fst (fold put_output L p)) a = count_of (fst p) a + count_list (map fst L) a"
  by (induction L arbitrary: p) (simp_all add: put_output_def count_of_put)

lemma drop_put_outputs:
  assumes "outputs_ok p" "a \<in> fst ` set L"
  shows "\<exists>L'. drop_output a (fold put_output L p) = fold put_output L' p \<and> mset (map fst L) = add_mset a (mset (map fst L'))"
  using assms(2)
proof (induction L rule: rev_induct)
  case (snoc ao L)
  have ok: "outputs_ok (fold put_output L p)"
    using assms(1) by (rule outputs_ok_puts)
  show ?case
  proof (cases "fst ao = a")
    case True
    then show ?thesis
      using drop_put_same [OF ok, of a "snd ao"] by (intro exI [of _ L]) (cases ao, simp)
  next
    case False
    then have "a \<in> fst ` set L"
      using snoc.prems by auto
    moreover from this have "0 < count_of (fst (fold put_output L p)) a"
      using count_list_0_iff [of "map fst L" a] by (simp add: count_of_puts)
    ultimately obtain L' where "drop_output a (fold put_output L p) = fold put_output L' p"
      "mset (map fst L) = add_mset a (mset (map fst L'))"
      using snoc.IH by blast
    then show ?thesis
      using False drop_put_other [of a ao "fold put_output L p"] \<open>0 < _\<close>
      by (intro exI [of _ "L' @ [ao]"]) simp
  qed
qed simp


subsection \<open>Tables keyed by consecutive numbers\<close>

definition ids_ok :: "(nat, 'v) table \<Rightarrow> bool" where
  "ids_ok t \<longleftrightarrow> map fst t = [0..<length t]"

lemma ids_ok_keys: "ids_ok t \<Longrightarrow> fst ` set t = {..<length t}"
  unfolding ids_ok_def by (metis atLeast_upt list.set_map)

lemma ids_ok_put: "ids_ok t \<Longrightarrow> tbl_put t (length t) v = t @ [(length t, v)]"
  by (simp add: tbl_put_fresh ids_ok_keys)

lemma ids_ok_snoc: "ids_ok t \<Longrightarrow> ids_ok (t @ [(length t, v)])"
  by (simp add: ids_ok_def)

lemma ids_ok_delete_last:
  assumes "ids_ok (t @ [x])"
  shows "tbl_delete (t @ [x]) (length t) = t" "ids_ok t"
proof -
  have "map fst t = [0..<length t]" "fst x = length t"
    using assms by (auto simp: ids_ok_def)
  then show "ids_ok t" "tbl_delete (t @ [x]) (length t) = t"
    using ids_ok_keys [of t] by (cases x; simp add: ids_ok_def tbl_delete_append tbl_delete_fresh)+
qed

lemma ids_ok_get_last: "ids_ok t \<Longrightarrow> tbl_get (t @ [(length t, v)]) (length t) = Ok v"
  by (simp add: tbl_get_def map_add_def ids_ok_keys map_of_eq_None_iff [THEN iffD2] split: option.splits)

subsection \<open>RingCT outputs\<close>

lemma remove_rct_last:
  assumes "ids_ok (base @ xs)" "xs \<noteq> []" "length (base @ xs) < 2 ^ 64"
  shows "remove_rct_output (wsub 64 (length (base @ xs)) 1) (t\<lparr>rct_outputs := base @ xs\<rparr>) = t\<lparr>rct_outputs := base @ butlast xs\<rparr>"
    and "ids_ok (base @ butlast xs)"
proof -
  obtain ys y where xs: "xs = ys @ [y]"
    using assms(2) by (cases xs rule: rev_cases) auto
  have "wsub 64 (length (base @ xs)) 1 = length (base @ ys)"
    using assms(3) xs by (subst wsub_exact) auto
  then show "remove_rct_output (wsub 64 (length (base @ xs)) 1) (t\<lparr>rct_outputs := base @ xs\<rparr>) = t\<lparr>rct_outputs := base @ butlast xs\<rparr>"
    "ids_ok (base @ butlast xs)"
    using ids_ok_delete_last [of "base @ ys" y] assms(1) xs by (simp_all add: remove_rct_output_def)
qed

subsection \<open>Key images\<close>

fun input_images :: "input list \<Rightarrow> bytes list" where
  "input_images [] = []"
| "input_images (ToKey _ _ ki # ins) = ki # input_images ins"
| "input_images (Gen _ # ins) = input_images ins"

lemma add_input_images_eq:
  assumes "distinct (input_images ins)" "set (input_images ins) \<inter> fst ` set (key_images t) = {}"
  shows "add_input_images ins t = t\<lparr>key_images := key_images t @ map (\<lambda>k. (k, ())) (input_images ins)\<rparr>"
  using assms
proof (induction ins t rule: add_input_images.induct)
  case (2 a offs ki ins t)
  then have "add_key_image ki t = t\<lparr>key_images := key_images t @ [(ki, ())]\<rparr>"
    by (simp add: add_key_image_def tbl_put_fresh)
  with 2 show ?case
    by auto
qed simp_all

lemma remove_input_images_eq:
  assumes "distinct (input_images ins)" "set (input_images ins) \<inter> fst ` set pre = {}"
    "set (input_images ins) \<inter> fst ` set post = {}"
    "key_images t = pre @ map (\<lambda>k. (k, ())) (input_images ins) @ post"
  shows "remove_input_images ins t = t\<lparr>key_images := pre @ post\<rparr>"
  using assms
proof (induction ins t rule: remove_input_images.induct)
  case (2 a offs ki ins t)
  then have "remove_key_image ki t = t\<lparr>key_images := pre @ map (\<lambda>k. (k, ())) (input_images ins) @ post\<rparr>"
    by (auto simp: remove_key_image_def tbl_delete_append tbl_delete_fresh image_image)
  with 2 show ?case
    by auto
qed simp_all

subsection \<open>The outputs of a transaction\<close>

abbreviation pre_of :: "tables \<Rightarrow> pre_outputs" where
  "pre_of t \<equiv> (num_outputs t, outputs_table t)"

abbreviation with_pre :: "pre_outputs \<Rightarrow> tables \<Rightarrow> tables" where
  "with_pre p t \<equiv> t\<lparr>num_outputs := fst p, outputs_table := snd p\<rparr>"

definition amount_of :: "tx_output \<Rightarrow> nat" where
  "amount_of out = (case amount out of None \<Rightarrow> 0 | Some a \<Rightarrow> a)"

lemma add_output_eq:
  "add_output a out t = (with_pre (put_output (a, out) (pre_of t)) t, (a, count_of (num_outputs t) a))"
  by (simp add: add_output_def put_output_def count_of_def tbl_get_def Let_def ok_or_def split: option.splits)

lemma add_pre_rct_outputs_eq:
  "\<exists>L is. add_pre_rct_outputs h flag txid outs t = (with_pre (fold put_output L (pre_of t)) t, is) \<and>
     map fst L = map amount_of outs"
proof (induction outs arbitrary: t)
  case (Cons out outs)
  let ?ao = "(amount_of out, \<lparr>do_key = out_key out, do_height = h, non_zero_unlock_time = flag, do_tx_idx = txid\<rparr>)"
  obtain L "is" where "add_pre_rct_outputs h flag txid outs (with_pre (put_output ?ao (pre_of t)) t) =
      (with_pre (fold put_output L (put_output ?ao (pre_of t))) t, is)" "map fst L = map amount_of outs"
    using Cons.IH [of "with_pre (put_output ?ao (pre_of t)) t"] by auto
  then show ?case
    by (intro exI [of _ "?ao # L"] exI) (simp add: add_output_eq amount_of_def [symmetric])
qed simp

lemma add_rct_outputs_eq:
  assumes "ids_ok (rct_outputs t)"
    and "\<And>k out. k < length outs \<Longrightarrow> \<exists>c. output_commitment io miner prfs (i + k) out = Ok c"
  shows "\<exists>X is. add_rct_outputs io miner prfs h flag txid i outs t = Ok (t\<lparr>rct_outputs := rct_outputs t @ X\<rparr>, is) \<and>
     length X = length outs \<and> ids_ok (rct_outputs t @ X)"
  using assms
proof (induction outs arbitrary: i t)
  case (Cons out outs)
  obtain c where c: "output_commitment io miner prfs i out = Ok c"
    using Cons.prems(2) [of 0 out] by auto
  let ?x = "(length (rct_outputs t), \<lparr>do_key = out_key out, do_height = h, non_zero_unlock_time = flag, do_tx_idx = txid, ro_commitment = c\<rparr>)"
  let ?t = "t\<lparr>rct_outputs := rct_outputs t @ [?x]\<rparr>"
  have add: "add_rct_output (snd ?x) t = (?t, length (rct_outputs t))"
    using Cons.prems(1) by (simp add: add_rct_output_def get_rct_num_outputs_def tbl_len_def ids_ok_put Let_def)
  have "ids_ok (rct_outputs ?t)"
    using ids_ok_snoc [OF Cons.prems(1)] by simp
  moreover have "\<exists>c. output_commitment io miner prfs (i + 1 + k) out = Ok c" if "k < length outs" for k out
    using Cons.prems(2) [of "Suc k" out] that by simp
  ultimately obtain X "is" where "add_rct_outputs io miner prfs h flag txid (i + 1) outs ?t =
      Ok (?t\<lparr>rct_outputs := rct_outputs ?t @ X\<rparr>, is)" "length X = length outs" "ids_ok (rct_outputs ?t @ X)"
    using Cons.IH [of ?t "i + 1"] by blast
  then show ?case
    using add c by (intro exI [of _ "?x # X"]) simp
qed simp

lemma remove_pre_rct_outputs:
  assumes "outputs_ok p" "length (snd p) + length L < 2 ^ 64"
    "\<forall>out \<in> set outs. amount out \<noteq> None" "mset (map amount_of outs) \<subseteq># mset (map fst L)"
  shows "\<exists>L'. remove_outputs False outs (with_pre (fold put_output L p) t) = Ok (with_pre (fold put_output L' p) t) \<and>
     mset (map fst L) = mset (map amount_of outs) + mset (map fst L')"
  using assms(2-)
proof (induction outs arbitrary: L)
  case (Cons out outs)
  obtain a where a: "amount out = Some a" "amount_of out = a"
    using Cons.prems(2) by (auto simp: amount_of_def)
  have mem: "a \<in># mset (map fst L)"
    using mset_subset_eqD [OF Cons.prems(3), of a] a(2) by simp
  then have "a \<in> fst ` set L"
    by simp
  then obtain L1 where L1: "drop_output a (fold put_output L p) = fold put_output L1 p"
    "mset (map fst L) = add_mset a (mset (map fst L1))"
    using drop_put_outputs [OF assms(1)] by blast
  let ?q = "fold put_output L p" and ?n = "count_of (fst (fold put_output L p)) a"
  have "0 < ?n"
    using count_list_0_iff [of "map fst L" a] mem by (simp add: count_of_puts)
  moreover have "?n < 2 ^ 64"
    using count_of_le_length [OF outputs_ok_puts [OF assms(1)], of L a] length_put_outputs [OF assms(1), of L] Cons.prems(1)
    by simp
  ultimately have "and_then (no_panic (tbl_get (fst ?q) a)) (\<lambda>n. remove_output (a, wsub 64 n 1) (with_pre ?q t)) =
      Ok (with_pre (fold put_output L1 p) t)"
    using L1(1) [symmetric]
    by (cases "map_of (fst ?q) a")
      (auto simp: count_of_def tbl_get_def remove_output_def tbl_update_def drop_output_def wsub_exact)
  moreover have "length L = Suc (length L1)"
    using arg_cong [OF L1(2), of size] by simp
  moreover have "\<exists>L'. remove_outputs False outs (with_pre (fold put_output L1 p) t) = Ok (with_pre (fold put_output L' p) t) \<and>
     mset (map fst L1) = mset (map amount_of outs) + mset (map fst L')"
    using Cons.prems L1(2) a(2) calculation by (intro Cons.IH) auto
  ultimately show ?case
    using a L1(2) by (auto simp: amount_of_def [symmetric])
qed auto

lemma remove_rct_outputs:
  assumes "ids_ok (base @ X)" "length outs \<le> length X" "length (base @ X) < 2 ^ 64"
    "rct_miner \<or> (\<forall>out \<in> set outs. amount out = None)"
  shows "\<exists>X'. remove_outputs rct_miner outs (t\<lparr>rct_outputs := base @ X\<rparr>) = Ok (t\<lparr>rct_outputs := base @ X'\<rparr>) \<and>
     length X' = length X - length outs \<and> ids_ok (base @ X')"
  using assms
proof (induction outs arbitrary: X)
  case (Cons out outs)
  have ne: "X \<noteq> []"
    using Cons.prems(2) by auto
  have "\<exists>X'. remove_outputs rct_miner outs (t\<lparr>rct_outputs := base @ butlast X\<rparr>) = Ok (t\<lparr>rct_outputs := base @ X'\<rparr>) \<and>
     length X' = length (butlast X) - length outs \<and> ids_ok (base @ X')"
    using Cons.prems remove_rct_last(2) [OF Cons.prems(1) ne Cons.prems(3)] by (intro Cons.IH) auto
  moreover have "remove_rct_output (wsub 64 (get_rct_num_outputs (t\<lparr>rct_outputs := base @ X\<rparr>)) 1) (t\<lparr>rct_outputs := base @ X\<rparr>) =
      t\<lparr>rct_outputs := base @ butlast X\<rparr>"
    using remove_rct_last(1) [OF Cons.prems(1) ne Cons.prems(3)] by (simp add: get_rct_num_outputs_def tbl_len_def)
  ultimately show ?case
    using Cons.prems(4) by (auto split: option.splits)
qed auto

subsection \<open>Transactions\<close>

abbreviation tx_images :: "verified_tx \<Rightarrow> bytes list" where
  "tx_images x \<equiv> input_images (inputs (prefix (vt_tx x)))"

definition lock_entry :: "nat \<Rightarrow> verified_tx \<Rightarrow> (nat, nat) table" where
  "lock_entry i x =
     (case additional_timelock (prefix (vt_tx x)) of TNone \<Rightarrow> [] | TBlock h \<Rightarrow> [(i, h)] | TTime s \<Rightarrow> [(i, s)])"

fun lock_entries :: "nat \<Rightarrow> verified_tx list \<Rightarrow> (nat, nat) table" where
  "lock_entries i [] = []"
| "lock_entries i (x # xs) = lock_entry i x @ lock_entries (i + 1) xs"

definition rct_count :: "verified_tx \<Rightarrow> nat" where
  "rct_count x = (case vt_tx x of TxV1 _ _ \<Rightarrow> 0 | TxV2 pre _ \<Rightarrow> length (outputs pre))"

definition pre_amounts :: "verified_tx \<Rightarrow> nat multiset" where
  "pre_amounts x = (case vt_tx x of TxV1 pre _ \<Rightarrow> mset (map amount_of (outputs pre)) | TxV2 _ _ \<Rightarrow> {#})"

definition tx_storable :: "codecs \<Rightarrow> verified_tx \<Rightarrow> bool" where
  "tx_storable io x \<longleftrightarrow>
     tx_read io (vt_blob x) = Some (vt_tx x) \<and>
     (case vt_tx x of
        TxV1 pre _ \<Rightarrow> tx_version_of io (vt_tx x) = 1 \<and> list_all (\<lambda>out. amount out \<noteq> None) (outputs pre)
      | TxV2 pre prfs \<Rightarrow>
          tx_version_of io (vt_tx x) = 2 \<and>
          (list_ex is_gen (inputs pre) \<or>
           list_all (\<lambda>out. amount out = None) (outputs pre) \<and>
           (case prfs of None \<Rightarrow> outputs pre = [] | Some p \<Rightarrow> length (outputs pre) \<le> length (commitments (rct_base p)))))"

definition tx_tables_ok :: "tables \<Rightarrow> bool" where
  "tx_tables_ok t \<longleftrightarrow>
     distinct (map fst (tx_ids t)) \<and>
     ids_ok (tx_blobs t) \<and> length (tx_blobs t) = length (tx_ids t) \<and>
     ids_ok (tx_heights t) \<and> length (tx_heights t) = length (tx_ids t) \<and>
     ids_ok (tx_outputs t) \<and> length (tx_outputs t) = length (tx_ids t) \<and>
     (\<forall>i \<in> fst ` set (tx_unlock_time t). i < length (tx_ids t)) \<and>
     ids_ok (rct_outputs t) \<and> outputs_ok (pre_of t)"

text \<open>
  The tables \<open>base\<close> with the transactions \<open>xs\<close> of a block added, the first under the id \<open>i\<close>: \<open>L\<close> are the outputs added under an
  amount, \<open>X\<close> the RingCT outputs and \<open>os\<close> the output indices of the transactions.
\<close>

definition stored ::
  "nat \<Rightarrow> nat \<Rightarrow> verified_tx list \<Rightarrow> (nat \<times> db_output) list \<Rightarrow> (nat, rct_output) table \<Rightarrow> nat list list \<Rightarrow> tables \<Rightarrow> tables" where
  "stored h i xs L X os base =
     base\<lparr>tx_ids := tx_ids base @ zip (map vt_hash xs) [i..<i + length xs],
          tx_heights := tx_heights base @ map (\<lambda>k. (k, h)) [i..<i + length xs],
          tx_blobs := tx_blobs base @ zip [i..<i + length xs] (map vt_blob xs),
          tx_outputs := tx_outputs base @ zip [i..<i + length xs] os,
          tx_unlock_time := tx_unlock_time base @ lock_entries i xs,
          key_images := key_images base @ map (\<lambda>k. (k, ())) (concat (map tx_images xs)),
          rct_outputs := rct_outputs base @ X,
          num_outputs := fst (fold put_output L (pre_of base)),
          outputs_table := snd (fold put_output L (pre_of base))\<rparr>"

definition with_txs :: "nat \<Rightarrow> nat \<Rightarrow> verified_tx list \<Rightarrow> tables \<Rightarrow> tables \<Rightarrow> bool" where
  "with_txs h i xs base t \<longleftrightarrow>
     (\<exists>L X os. t = stored h i xs L X os base \<and>
        length os = length xs \<and> ids_ok (rct_outputs base @ X) \<and>
        length X = sum_list (map rct_count xs) \<and> mset (map fst L) = sum_list (map pre_amounts xs))"

lemma lock_entries_append: "lock_entries i (xs @ ys) = lock_entries i xs @ lock_entries (i + length xs) ys"
  by (induction xs arbitrary: i) simp_all

lemma lock_entries_keys: "k \<in> fst ` set (lock_entries i xs) \<Longrightarrow> i \<le> k \<and> k < i + length xs"
  by (induction xs arbitrary: i) (fastforce simp: lock_entry_def split: timelock.splits)+

lemma with_txs_Nil: "with_txs h i [] base t \<longleftrightarrow> ids_ok (rct_outputs base) \<and> t = base"
  by (auto simp: with_txs_def stored_def)

lemma stored_keys:
  assumes "tx_tables_ok base" "length os = length xs"
  shows "fst ` set (tx_ids (stored h (length (tx_ids base)) xs L X os base)) = fst ` set (tx_ids base) \<union> vt_hash ` set xs"
    and "fst ` set (tx_heights (stored h (length (tx_ids base)) xs L X os base)) = {..<length (tx_ids base) + length xs}"
    and "fst ` set (tx_blobs (stored h (length (tx_ids base)) xs L X os base)) = {..<length (tx_ids base) + length xs}"
    and "fst ` set (tx_outputs (stored h (length (tx_ids base)) xs L X os base)) = {..<length (tx_ids base) + length xs}"
    and "fst ` set (tx_unlock_time (stored h (length (tx_ids base)) xs L X os base)) \<subseteq> {..<length (tx_ids base) + length xs}"
proof -
  have zip_keys: "fst ` set (zip ks vs) = set ks" if "length ks = length vs" for ks :: "'k list" and vs :: "'v list"
    using that by (metis list.set_map map_fst_zip)
  note simps = stored_def tx_tables_ok_def ids_ok_keys image_Un zip_keys
  show "fst ` set (tx_ids (stored h (length (tx_ids base)) xs L X os base)) = fst ` set (tx_ids base) \<union> vt_hash ` set xs"
    by (simp add: simps)
  show "fst ` set (tx_heights (stored h (length (tx_ids base)) xs L X os base)) = {..<length (tx_ids base) + length xs}"
    "fst ` set (tx_blobs (stored h (length (tx_ids base)) xs L X os base)) = {..<length (tx_ids base) + length xs}"
    "fst ` set (tx_outputs (stored h (length (tx_ids base)) xs L X os base)) = {..<length (tx_ids base) + length xs}"
    using assms by (auto simp: simps image_image)
  show "fst ` set (tx_unlock_time (stored h (length (tx_ids base)) xs L X os base)) \<subseteq> {..<length (tx_ids base) + length xs}"
    using assms lock_entries_keys [of _ "length (tx_ids base)" xs] by (fastforce simp: simps)
qed

text \<open>The tables \<open>add_tx\<close> has written when it comes to the outputs.\<close>

definition tx_entered :: "verified_tx \<Rightarrow> nat \<Rightarrow> tables \<Rightarrow> tables" where
  "tx_entered x h t =
     (let n = get_num_tx t;
          t = t\<lparr>tx_ids := tbl_put (tx_ids t) (vt_hash x) n, tx_heights := tbl_put (tx_heights t) n h,
                tx_blobs := tbl_put (tx_blobs t) n (vt_blob x)\<rparr>;
          t = (case additional_timelock (prefix (vt_tx x)) of
                 TNone \<Rightarrow> t
               | TBlock b \<Rightarrow> t\<lparr>tx_unlock_time := tbl_put (tx_unlock_time t) n b\<rparr>
               | TTime s \<Rightarrow> t\<lparr>tx_unlock_time := tbl_put (tx_unlock_time t) n s\<rparr>)
      in add_input_images (inputs (prefix (vt_tx x))) t)"

lemma add_tx_entered:
  "h < 2 ^ 32 \<Longrightarrow>
   add_tx io (vt_tx x) (vt_blob x) (vt_hash x) h t =
     and_then
       (case vt_tx x of
          TxV1 pre _ \<Rightarrow> Ok (add_pre_rct_outputs h (additional_timelock pre \<noteq> TNone) (get_num_tx t) (outputs pre) (tx_entered x h t))
        | TxV2 pre prfs \<Rightarrow> add_rct_outputs io (list_ex is_gen (inputs pre)) prfs h (additional_timelock pre \<noteq> TNone) (get_num_tx t) 0
            (outputs pre) (tx_entered x h t)) (\<lambda>(t', is).
     Ok (t'\<lparr>tx_outputs := tbl_put (tx_outputs t') (get_num_tx t) is\<rparr>, get_num_tx t))"
  unfolding add_tx_def tx_entered_def Let_def by (cases "vt_tx x") simp_all

lemma tx_entered_stored:
  assumes ok: "tx_tables_ok base" and t: "t = stored h (length (tx_ids base)) xs L X os base" and os: "length os = length xs"
    and hash: "vt_hash x \<notin> fst ` set (tx_ids base) \<union> vt_hash ` set xs"
    and images: "distinct (tx_images x)"
      "set (tx_images x) \<inter> (fst ` set (key_images base) \<union> (\<Union>y \<in> set xs. set (tx_images y))) = {}"
  shows "tx_entered x h t = (stored h (length (tx_ids base)) (xs @ [x]) L X os base)\<lparr>tx_outputs := tx_outputs t\<rparr>"
proof -
  let ?lock = "additional_timelock (prefix (vt_tx x))" and ?n = "length (tx_ids base) + length xs"
  have n: "get_num_tx t = ?n"
    by (simp add: t stored_def get_num_tx_def tbl_len_def)
  note keys = stored_keys [OF ok os, of h L X, folded t]
  have puts: "tbl_put (tx_ids t) (vt_hash x) k = tx_ids t @ [(vt_hash x, k)]"
    "tbl_put (tx_heights t) ?n h = tx_heights t @ [(?n, h)]"
    "tbl_put (tx_blobs t) ?n b = tx_blobs t @ [(?n, b)]"
    "tbl_put (tx_unlock_time t) ?n u = tx_unlock_time t @ [(?n, u)]" for k b u
    using hash keys by (auto intro!: tbl_put_fresh)
  let ?t1 = "t\<lparr>tx_ids := tbl_put (tx_ids t) (vt_hash x) ?n, tx_heights := tbl_put (tx_heights t) ?n h,
               tx_blobs := tbl_put (tx_blobs t) ?n (vt_blob x)\<rparr>"
  let ?t2 = "case ?lock of TNone \<Rightarrow> ?t1 | TBlock h \<Rightarrow> ?t1\<lparr>tx_unlock_time := tbl_put (tx_unlock_time ?t1) ?n h\<rparr>
               | TTime s \<Rightarrow> ?t1\<lparr>tx_unlock_time := tbl_put (tx_unlock_time ?t1) ?n s\<rparr>"
  let ?s = "(stored h (length (tx_ids base)) (xs @ [x]) L X os base)\<lparr>tx_outputs := tx_outputs t\<rparr>"
  have "?t2 = ?s\<lparr>key_images := key_images t\<rparr>"
    unfolding puts(1-3)
    by (cases ?lock) (simp_all add: puts(4), simp_all add: t stored_def lock_entries_append lock_entry_def)
  moreover have "add_input_images (inputs (prefix (vt_tx x))) (?s\<lparr>key_images := key_images t\<rparr>) = ?s"
    using images by (subst add_input_images_eq) (auto simp: stored_def t image_Un image_image)
  ultimately show ?thesis
    by (simp add: tx_entered_def n Let_def)
qed

lemma with_txs_add:
  assumes st: "with_txs h (length (tx_ids base)) xs base t" and ok: "tx_tables_ok base" and h: "h < 2 ^ 32"
    and tx: "tx_storable io x"
    and hash: "vt_hash x \<notin> fst ` set (tx_ids base) \<union> vt_hash ` set xs"
    and images: "distinct (tx_images x)"
      "set (tx_images x) \<inter> (fst ` set (key_images base) \<union> (\<Union>y \<in> set xs. set (tx_images y))) = {}"
  shows "\<exists>t'. add_tx io (vt_tx x) (vt_blob x) (vt_hash x) h t = Ok (t', length (tx_ids base) + length xs) \<and>
     with_txs h (length (tx_ids base)) (xs @ [x]) base t'"
proof -
  let ?i = "length (tx_ids base)" and ?n = "length (tx_ids base) + length xs"
  obtain L X os where t: "t = stored h ?i xs L X os base"
    and os: "length os = length xs" and X: "ids_ok (rct_outputs base @ X)" "length X = sum_list (map rct_count xs)"
    and L: "mset (map fst L) = sum_list (map pre_amounts xs)"
    using st by (auto simp: with_txs_def)
  have n: "get_num_tx t = ?n"
    by (simp add: t stored_def get_num_tx_def tbl_len_def)
  define T where "T = (\<lambda>L X. (stored h ?i (xs @ [x]) L X os base)\<lparr>tx_outputs := tx_outputs t\<rparr>)"
  have T_pre: "with_pre (fold put_output L' (pre_of (T L X))) (T L X) = T (L @ L') X"
    and T_rct: "(T L X)\<lparr>rct_outputs := rct_outputs (T L X) @ X'\<rparr> = T L (X @ X')" for L' X'
    by (simp_all add: T_def stored_def)
  have entered: "tx_entered x h t = T L X"
    unfolding T_def by (rule tx_entered_stored [OF ok t os hash images])
  have "tbl_put (tx_outputs t) ?n o' = tx_outputs t @ [(?n, o')]" for o'
    using stored_keys(4) [OF ok os, of h L X, folded t] by (intro tbl_put_fresh) simp
  then have put: "(T L' X')\<lparr>tx_outputs := tbl_put (tx_outputs (T L' X')) ?n o'\<rparr> = stored h ?i (xs @ [x]) L' X' (os @ [o']) base" for L' X' o'
    by (simp add: T_def t stored_def os)
  have finish: "with_txs h ?i (xs @ [x]) base (stored h ?i (xs @ [x]) L' X' (os @ [o']) base)"
    if "ids_ok (rct_outputs base @ X')" "length X' = length X + rct_count x" "mset (map fst L') = mset (map fst L) + pre_amounts x"
    for L' X' o'
    unfolding with_txs_def
    using that os X(2) L by (intro exI [of _ L'] exI [of _ X'] exI [of _ "os @ [o']"]) simp
  show ?thesis
  proof (cases "vt_tx x")
    case (TxV1 pre sigs)
    obtain L' "is" where L': "add_pre_rct_outputs h (additional_timelock pre \<noteq> TNone) ?n (outputs pre) (T L X) = (T (L @ L') X, is)"
      "map fst L' = map amount_of (outputs pre)"
      using add_pre_rct_outputs_eq [of h "additional_timelock pre \<noteq> TNone" ?n "outputs pre" "T L X"]
      unfolding T_pre by blast
    then have "add_tx io (vt_tx x) (vt_blob x) (vt_hash x) h t = Ok (stored h ?i (xs @ [x]) (L @ L') X (os @ [is]) base, ?n)"
      unfolding add_tx_entered [OF h] n entered using TxV1 by (simp add: put)
    then show ?thesis
      using finish [of X "L @ L'" "is"] X TxV1 L'(2) by (auto simp: rct_count_def pre_amounts_def simp del: mset_map)
  next
    case (TxV2 pre prfs)
    let ?miner = "list_ex is_gen (inputs pre)"
    have "\<exists>c. output_commitment io ?miner prfs (0 + k) out = Ok c" if "k < length (outputs pre)" for k out
      using tx that TxV2 by (auto simp: tx_storable_def output_commitment_def split: option.splits)
    moreover have "ids_ok (rct_outputs (T L X))" "rct_outputs (T L X) = rct_outputs base @ X"
      using X by (simp_all add: T_def stored_def)
    ultimately obtain X' "is" where X': "add_rct_outputs io ?miner prfs h (additional_timelock pre \<noteq> TNone) ?n 0 (outputs pre) (T L X) =
        Ok (T L (X @ X'), is)" "length X' = length (outputs pre)" "ids_ok (rct_outputs base @ X @ X')"
      using add_rct_outputs_eq [of "T L X" "outputs pre" io ?miner prfs 0 h "additional_timelock pre \<noteq> TNone" ?n]
      unfolding T_rct by auto
    then have "add_tx io (vt_tx x) (vt_blob x) (vt_hash x) h t = Ok (stored h ?i (xs @ [x]) L (X @ X') (os @ [is]) base, ?n)"
      unfolding add_tx_entered [OF h] n entered using TxV2 by (simp add: put)
    then show ?thesis
      using finish [of "X @ X'" L "is"] X' TxV2 by (auto simp: rct_count_def pre_amounts_def)
  qed
qed

lemma zip_upt_fresh: "i < k \<Longrightarrow> i \<notin> fst ` set (zip [k..<n] vs)"
  by (auto dest: set_zip_leftD)

lemmas tbl_delete_zip_upt = tbl_delete_fresh [OF zip_upt_fresh]

lemma remove_tx_stored:
  assumes ok: "tx_tables_ok base" and i: "length (tx_ids base) \<le> i" and os: "length os = length xs"
    and tx: "tx_storable io x"
    and hash: "vt_hash x \<notin> fst ` set (tx_ids base) \<union> vt_hash ` set xs"
    and images: "distinct (tx_images x)"
      "set (tx_images x) \<inter> (fst ` set (key_images base) \<union> (\<Union>y \<in> set xs. set (tx_images y))) = {}"
  shows "remove_tx io (vt_hash x) (stored h i (x # xs) L X (o' # os) base) =
     and_then (remove_outputs (list_ex is_gen (inputs (prefix (vt_tx x))) \<and> tx_version_of io (vt_tx x) = 2)
       (outputs (prefix (vt_tx x))) (stored h (i + 1) xs L X os base)) (\<lambda>t. Ok (t, i, vt_tx x))"
proof -
  let ?t = "stored h i (x # xs) L X (o' # os) base"
  have upt: "[i..<Suc (i + length xs)] = i # [Suc i..<Suc (i + length xs)]"
    by (subst upt_conv_Cons) auto
  have base_keys: "i \<notin> fst ` set (tx_heights base)" "i \<notin> fst ` set (tx_blobs base)" "i \<notin> fst ` set (tx_outputs base)"
    "i \<notin> fst ` set (tx_unlock_time base)"
    using ok i by (auto simp: tx_tables_ok_def ids_ok_keys)
  have lock: "i \<notin> fst ` set (lock_entries (i + 1) xs)"
    using lock_entries_keys [of i "i + 1" xs] by auto
  have hashes: "vt_hash x \<notin> fst ` set (zip (map vt_hash xs) [Suc i..<Suc (i + length xs)])"
    using hash by (auto dest: set_zip_leftD)
  have ids: "tbl_take (tx_ids ?t) (vt_hash x) = Ok (tx_ids (stored h (i + 1) xs L X os base), i)"
    using hash hashes
    by (simp del: upt_Suc add: stored_def upt tbl_take_def tbl_get_def tbl_delete_append tbl_delete_fresh zip_upt_fresh map_add_def
        map_of_eq_None_iff [THEN iffD2] split: option.splits)
  have blobs: "tbl_take (tx_blobs ?t) i = Ok (tx_blobs (stored h (i + 1) xs L X os base), vt_blob x)"
    using base_keys(2)
    by (simp del: upt_Suc add: stored_def upt tbl_take_def tbl_get_def tbl_delete_append tbl_delete_fresh zip_upt_fresh map_add_def
        map_of_eq_None_iff [THEN iffD2] split: option.splits)
  have deletes: "tbl_delete (tx_heights ?t) i = tx_heights (stored h (i + 1) xs L X os base)"
    "tbl_delete (tx_outputs ?t) i = tx_outputs (stored h (i + 1) xs L X os base)"
    "tbl_delete (tx_unlock_time ?t) i = tx_unlock_time (stored h (i + 1) xs L X os base)"
    using base_keys lock
    by (auto simp del: upt_Suc simp: stored_def upt tbl_delete_append tbl_delete_fresh tbl_delete_zip_upt lock_entry_def image_iff split: timelock.splits)
  let ?t1 = "(stored h (i + 1) xs L X os base)\<lparr>key_images := key_images ?t\<rparr>"
  have "remove_input_images (inputs (prefix (vt_tx x))) ?t1 = stored h (i + 1) xs L X os base"
    using images
    by (subst remove_input_images_eq [where pre = "key_images base" and post = "map (\<lambda>k. (k, ())) (concat (map tx_images xs))"])
      (auto simp: stored_def image_image)
  moreover have "?t\<lparr>tx_ids := tx_ids ?t1, tx_blobs := tx_blobs ?t1, tx_heights := tx_heights ?t1,
      tx_outputs := tx_outputs ?t1, tx_unlock_time := tx_unlock_time ?t1\<rparr> = ?t1"
    by (simp add: stored_def)
  moreover have "tx_read io (vt_blob x) = Some (vt_tx x)"
    using tx by (simp add: tx_storable_def)
  ultimately show ?thesis
    by (simp add: remove_tx_def ids blobs deletes Let_def)
qed

definition room_for :: "verified_tx list \<Rightarrow> tables \<Rightarrow> bool" where
  "room_for xs t \<longleftrightarrow>
     length (outputs_table t) + sum_list (map (\<lambda>x. size (pre_amounts x)) xs) < 2 ^ 64 \<and>
     length (rct_outputs t) + sum_list (map rct_count xs) < 2 ^ 64"

lemma size_sum_list_mset: "size (sum_list (map f xs)) = sum_list (map (\<lambda>x. size (f x)) xs)" for f :: "'a \<Rightarrow> 'b multiset"
  by (induction xs) simp_all

lemma with_txs_remove:
  assumes st: "with_txs h i (x # xs) base t" and ok: "tx_tables_ok base" and i: "length (tx_ids base) \<le> i"
    and tx: "tx_storable io x" and room: "room_for (x # xs) base"
    and hash: "vt_hash x \<notin> fst ` set (tx_ids base) \<union> vt_hash ` set xs"
    and images: "distinct (tx_images x)"
      "set (tx_images x) \<inter> (fst ` set (key_images base) \<union> (\<Union>y \<in> set xs. set (tx_images y))) = {}"
  shows "\<exists>t'. remove_tx io (vt_hash x) t = Ok (t', i, vt_tx x) \<and> with_txs h (i + 1) xs base t'"
proof -
  obtain L X o' os where t: "t = stored h i (x # xs) L X (o' # os) base" and os: "length os = length xs"
    and X: "ids_ok (rct_outputs base @ X)" "length X = rct_count x + sum_list (map rct_count xs)"
    and L: "mset (map fst L) = pre_amounts x + sum_list (map pre_amounts xs)"
    using st by (auto simp: with_txs_def length_Suc_conv)
  define S where "S = (\<lambda>L X. stored h (i + 1) xs L X os base)"
  have S_pre: "S L X = with_pre (fold put_output L (pre_of base)) (S L X)"
    "with_pre (fold put_output L' (pre_of base)) (S L X) = S L' X" for L'
    by (simp_all add: S_def stored_def)
  have S_rct: "S L X = (S L X)\<lparr>rct_outputs := rct_outputs base @ X\<rparr>"
    "(S L X)\<lparr>rct_outputs := rct_outputs base @ X'\<rparr> = S L X'" for X'
    by (simp_all add: S_def stored_def)
  have finish: "with_txs h (i + 1) xs base (S L' X')"
    if "ids_ok (rct_outputs base @ X')" "length X' = sum_list (map rct_count xs)" "mset (map fst L') = sum_list (map pre_amounts xs)"
    for L' X'
    unfolding with_txs_def S_def using that os by blast
  have S_eq: "stored h (i + 1) xs L X os base = S L X"
    by (simp add: S_def)
  note remove = remove_tx_stored [OF ok i os tx hash images, of h L X o', folded t, unfolded S_eq]
  show ?thesis
  proof (cases "vt_tx x")
    case (TxV1 pre sigs)
    have amounts: "\<forall>out \<in> set (outputs pre). amount out \<noteq> None" "tx_version_of io (vt_tx x) \<noteq> 2"
      using tx TxV1 by (auto simp: tx_storable_def list_all_iff)
    have L1: "mset (map amount_of (outputs pre)) = pre_amounts x"
      using TxV1 by (simp add: pre_amounts_def)
    have "length L = size (pre_amounts x + sum_list (map pre_amounts xs))"
      using L by (metis length_map size_mset)
    then have "length (snd (pre_of base)) + length L < 2 ^ 64"
      using room by (simp add: room_for_def size_sum_list_mset)
    then obtain L' where L': "remove_outputs False (outputs pre) (S L X) = Ok (S L' X)"
      "mset (map fst L) = pre_amounts x + mset (map fst L')"
      using remove_pre_rct_outputs [of "pre_of base" L "outputs pre" "S L X"] ok amounts L L1
      unfolding S_pre(2) S_pre(1) [symmetric] by (auto simp: tx_tables_ok_def simp del: mset_map)
    then have "remove_tx io (vt_hash x) t = Ok (S L' X, i, vt_tx x)"
      using TxV1 amounts by (simp add: remove)
    then show ?thesis
      using finish [of X L'] X TxV1 L'(2) L by (auto simp: rct_count_def simp del: mset_map)
  next
    case (TxV2 pre prfs)
    have amounts: "list_ex is_gen (inputs pre) \<or> (\<forall>out \<in> set (outputs pre). amount out = None)" "tx_version_of io (vt_tx x) = 2"
      using tx TxV2 by (auto simp: tx_storable_def list_all_iff)
    have "length (outputs pre) \<le> length X" "length (rct_outputs base @ X) < 2 ^ 64"
      using X TxV2 room by (simp_all add: rct_count_def room_for_def)
    then obtain X' where X': "remove_outputs (list_ex is_gen (inputs pre)) (outputs pre) (S L X) = Ok (S L X')"
      "length X' = length X - length (outputs pre)" "ids_ok (rct_outputs base @ X')"
      using remove_rct_outputs [OF X(1), of "outputs pre" "list_ex is_gen (inputs pre)" "S L X"] amounts(1)
      unfolding S_rct(2) S_rct(1) [symmetric] by blast
    then have "remove_tx io (vt_hash x) t = Ok (S L X', i, vt_tx x)"
      using TxV2 amounts by (simp add: remove)
    then show ?thesis
      using finish [of X' L] X X' TxV2 L by (auto simp: rct_count_def pre_amounts_def)
  qed
qed

end
