(* ===== verification/Chain_Store.thy ===== *)
theory Chain_Store
  imports Store_Laws
begin

text \<open>
  The main chain in the database as a stack of blocks. \<open>db_ok\<close> is the invariant of the tables, \<open>block_addable\<close> what \<open>add_block\<close> relies on:
  the height is the next one, the hashes and key images are new, the transactions have the shape \<open>Transaction::read\<close> gives
  them, reading undoes serialising. Under it \<open>add_block\<close> succeeds, keeps the invariant, and the block can be read
  back; \<open>pop_block\<close> restores the tables exactly. \<open>built\<close> relates the tables to the list of blocks they hold.
\<close>

subsection \<open>The transactions of a block\<close>

definition txs_addable :: "codecs \<Rightarrow> verified_tx list \<Rightarrow> tables \<Rightarrow> bool" where
  "txs_addable io xs t \<longleftrightarrow>
     list_all (tx_storable io) xs \<and>
     distinct (map vt_hash xs) \<and> list_all (\<lambda>x. vt_hash x \<notin> fst ` set (tx_ids t)) xs \<and>
     distinct (concat (map tx_images xs)) \<and> list_all (\<lambda>k. k \<notin> fst ` set (key_images t)) (concat (map tx_images xs))"

lemma txs_addable_appendD:
  assumes "txs_addable io (xs @ y # ys) t"
  shows "tx_storable io y" "vt_hash y \<notin> fst ` set (tx_ids t) \<union> vt_hash ` set xs" "distinct (tx_images y)"
    "set (tx_images y) \<inter> (fst ` set (key_images t) \<union> (\<Union>y \<in> set xs. set (tx_images y))) = {}"
proof -
  show "tx_storable io y" "vt_hash y \<notin> fst ` set (tx_ids t) \<union> vt_hash ` set xs" "distinct (tx_images y)"
    using assms by (auto simp: txs_addable_def)
  have "set (tx_images y) \<inter> fst ` set (key_images t) = {}"
    using assms unfolding txs_addable_def list_all_iff by auto
  moreover have "(\<Union>y \<in> set xs. set (tx_images y)) \<inter> set (tx_images y) = {}"
    using assms unfolding txs_addable_def by (auto simp only: map_append list.map concat_append concat.simps distinct_append set_append set_concat set_map)
  ultimately show "set (tx_images y) \<inter> (fst ` set (key_images t) \<union> (\<Union>y \<in> set xs. set (tx_images y))) = {}"
    by blast
qed

lemma txs_addable_ConsD:
  assumes "txs_addable io (y # ys) t"
  shows "tx_storable io y" "vt_hash y \<notin> fst ` set (tx_ids t) \<union> vt_hash ` set ys" "distinct (tx_images y)"
    "set (tx_images y) \<inter> (fst ` set (key_images t) \<union> (\<Union>y \<in> set ys. set (tx_images y))) = {}" "txs_addable io ys t"
proof -
  show "tx_storable io y" "vt_hash y \<notin> fst ` set (tx_ids t) \<union> vt_hash ` set ys" "distinct (tx_images y)" "txs_addable io ys t"
    using assms by (auto simp: txs_addable_def)
  have "set (tx_images y) \<inter> fst ` set (key_images t) = {}"
    using assms unfolding txs_addable_def list_all_iff by auto
  moreover have "set (tx_images y) \<inter> (\<Union>y \<in> set ys. set (tx_images y)) = {}"
    using assms unfolding txs_addable_def by (auto simp only: list.map concat.simps distinct_append set_concat set_map)
  ultimately show "set (tx_images y) \<inter> (fst ` set (key_images t) \<union> (\<Union>y \<in> set ys. set (tx_images y))) = {}"
    by blast
qed

lemma add_txs_with_txs:
  assumes "tx_tables_ok base" "h < 2 ^ 32" "with_txs h (length (tx_ids base)) xs base t" "txs_addable io (xs @ ys) base"
  shows "\<exists>t'. add_txs io ys h t = Ok t' \<and> with_txs h (length (tx_ids base)) (xs @ ys) base t'"
  using assms(3,4)
proof (induction ys arbitrary: xs t)
  case (Cons y ys)
  obtain t1 where t1: "add_tx io (vt_tx y) (vt_blob y) (vt_hash y) h t = Ok (t1, length (tx_ids base) + length xs)"
    "with_txs h (length (tx_ids base)) (xs @ [y]) base t1"
    using with_txs_add [OF Cons.prems(1) assms(1,2) txs_addable_appendD [OF Cons.prems(2)]] by blast
  then show ?case
    using Cons.IH [OF t1(2)] Cons.prems(2) by simp
qed simp

lemma remove_txs_with_txs:
  assumes "tx_tables_ok base" "length (tx_ids base) \<le> i" "with_txs h i xs base t" "txs_addable io xs base" "room_for xs base"
    and "\<And>x. x \<in> set xs \<Longrightarrow> f (vt_tx x) = Ok (g x)"
  shows "remove_txs io f (map vt_hash xs) t = Ok (base, map g xs)"
  using assms(2-)
proof (induction xs arbitrary: i t)
  case (Cons x xs)
  obtain t1 where t1: "remove_tx io (vt_hash x) t = Ok (t1, i, vt_tx x)" "with_txs h (i + 1) xs base t1"
    using with_txs_remove [OF Cons.prems(2) assms(1) Cons.prems(1) _ Cons.prems(4)] txs_addable_ConsD [OF Cons.prems(3)] by blast
  have "remove_txs io f (map vt_hash xs) t1 = Ok (base, map g xs)"
    using Cons.prems txs_addable_ConsD(5) [OF Cons.prems(3)] by (intro Cons.IH [OF _ t1(2)]) (auto simp: room_for_def)
  then show ?case
    using t1(1) Cons.prems(5) by simp
qed (simp add: with_txs_Nil)

subsection \<open>The invariant\<close>

definition db_ok :: "tables \<Rightarrow> bool" where
  "db_ok t \<longleftrightarrow>
     tx_tables_ok t \<and>
     ids_ok (block_infos t) \<and> list_all (\<lambda>(h, info). mining_tx_index info < length (tx_ids t)) (block_infos t) \<and>
     ids_ok (block_header_blobs t) \<and> length (block_header_blobs t) = length (block_infos t) \<and>
     ids_ok (block_txs_hashes t) \<and> length (block_txs_hashes t) = length (block_infos t) \<and>
     distinct (map fst (block_heights t)) \<and>
     block_heights t = map (\<lambda>(h, info). (bi_block_hash info, h)) (block_infos t)"

definition miner_entry :: "codecs \<Rightarrow> block \<Rightarrow> verified_tx" where
  "miner_entry io b =
     (let tx = miner_transaction b
      in \<lparr>vt_tx = tx, vt_blob = tx_serialize io tx, vt_weight = 0, vt_fee = 0, vt_hash = tx_hash_of io tx\<rparr>)"

lemma miner_entry_simps [simp]:
  "vt_tx (miner_entry io b) = miner_transaction b"
  "vt_blob (miner_entry io b) = tx_serialize io (miner_transaction b)"
  "vt_hash (miner_entry io b) = tx_hash_of io (miner_transaction b)"
  by (simp_all add: miner_entry_def Let_def)

abbreviation block_entries :: "codecs \<Rightarrow> verified_block \<Rightarrow> verified_tx list" where
  "block_entries io b \<equiv> miner_entry io (vb_block b) # vb_txs b"

definition block_addable :: "codecs \<Rightarrow> verified_block \<Rightarrow> tables \<Rightarrow> bool" where
  "block_addable io b t \<longleftrightarrow>
     vb_height b = chain_height_of t \<and> vb_height b < 2 ^ 32 \<and>
     txs_addable io (block_entries io b) t \<and> room_for (block_entries io b) t \<and>
     vb_hash b \<notin> fst ` set (block_heights t) \<and>
     map vt_hash (vb_txs b) = transactions (vb_block b) \<and>
     header_read io (header_serialize io (header (vb_block b))) = Some (header (vb_block b)) \<and>
     block_new io (header (vb_block b)) (miner_transaction (vb_block b)) (transactions (vb_block b)) = Some (vb_block b)"

definition info_of :: "verified_block \<Rightarrow> nat \<Rightarrow> nat \<Rightarrow> nat \<Rightarrow> block_info" where
  "info_of b coins rct miner_idx =
     \<lparr>bi_timestamp = hdr_timestamp (header (vb_block b)),
      cumulative_generated_coins = min (coins + vb_generated_coins b) (2 ^ 64 - 1),
      bi_weight = vb_weight b,
      cumulative_difficulty_low = fst (split_u128_into_low_high_bits (vb_cumulative_difficulty b)),
      cumulative_difficulty_high = snd (split_u128_into_low_high_bits (vb_cumulative_difficulty b)),
      bi_block_hash = vb_hash b, cumulative_rct_outs = rct,
      bi_long_term_weight = vb_long_term_weight b, mining_tx_index = miner_idx\<rparr>"

lemma info_of_simps [simp]:
  "bi_timestamp (info_of b coins rct i) = hdr_timestamp (header (vb_block b))"
  "bi_weight (info_of b coins rct i) = vb_weight b"
  "bi_long_term_weight (info_of b coins rct i) = vb_long_term_weight b"
  "cumulative_difficulty_low (info_of b coins rct i) = fst (split_u128_into_low_high_bits (vb_cumulative_difficulty b))"
  "cumulative_difficulty_high (info_of b coins rct i) = snd (split_u128_into_low_high_bits (vb_cumulative_difficulty b))"
  "bi_block_hash (info_of b coins rct i) = vb_hash b"
  "mining_tx_index (info_of b coins rct i) = i"
  by (simp_all add: info_of_def)

text \<open>The tables with the block's own entries, on top of the tables \<open>u\<close> with its transactions.\<close>

definition with_block :: "codecs \<Rightarrow> verified_block \<Rightarrow> block_info \<Rightarrow> tables \<Rightarrow> tables" where
  "with_block io b info u =
     u\<lparr>block_infos := block_infos u @ [(vb_height b, info)],
       block_header_blobs := block_header_blobs u @ [(vb_height b, header_serialize io (header (vb_block b)))],
       block_txs_hashes := block_txs_hashes u @ [(vb_height b, transactions (vb_block b))],
       block_heights := block_heights u @ [(vb_hash b, vb_height b)]\<rparr>"

lemma with_txs_block_tables:
  assumes "with_txs h i xs base t"
  shows "block_infos t = block_infos base" "block_header_blobs t = block_header_blobs base"
    "block_txs_hashes t = block_txs_hashes base" "block_heights t = block_heights base"
    "alt_chain_infos t = alt_chain_infos base" "alt_block_heights t = alt_block_heights base"
    "alt_blocks_info t = alt_blocks_info base" "alt_block_blobs t = alt_block_blobs base"
    "alt_transaction_blobs t = alt_transaction_blobs base" "alt_transaction_infos t = alt_transaction_infos base"
  using assms by (auto simp: with_txs_def stored_def)

lemma db_ok_height: "db_ok t \<Longrightarrow> chain_height_of t = length (block_infos t)"
  by (simp add: db_ok_def chain_height_of_def tbl_len_def)

lemma ids_ok_get: "ids_ok t \<Longrightarrow> i < length t \<Longrightarrow> tbl_get t i = Ok (snd (t ! i))"
proof -
  assume ok: "ids_ok t" and i: "i < length t"
  have keys: "map fst t = [0..<length t]"
    using ok by (simp add: ids_ok_def)
  then have "fst (t ! i) = i"
    using i nth_map [of i t fst] by simp
  then have "(i, snd (t ! i)) \<in> set t"
    using i nth_mem [of i t] by (metis prod.collapse)
  moreover have "distinct (map fst t)"
    using keys by simp
  ultimately show ?thesis
    by (simp add: tbl_get_Ok)
qed

lemma coins_at_top:
  assumes "db_ok t" "block_infos u = block_infos t"
  shows "\<exists>c. cumulative_generated_coins_at (chain_height_of t - 1) u = Ok c"
proof (cases "block_infos t = []")
  case True
  then show ?thesis
    using assms by (simp add: db_ok_height cumulative_generated_coins_at_def tbl_get_def)
next
  case False
  then show ?thesis
    using assms ids_ok_get [of "block_infos t" "length (block_infos t) - 1"]
    unfolding db_ok_height [OF assms(1)] by (simp add: cumulative_generated_coins_at_def db_ok_def)
qed

lemma add_block_eq:
  assumes ok: "db_ok t" and b: "block_addable io b t"
  shows "\<exists>u coins. with_txs (vb_height b) (length (tx_ids t)) (block_entries io b) t u \<and>
     cumulative_generated_coins_at (vb_height b - 1) t = Ok coins \<and>
     add_block io b t = Ok (with_block io b (info_of b coins (length (rct_outputs u)) (length (tx_ids t))) u)"
proof -
  let ?n = "length (tx_ids t)" and ?h = "vb_height b"
  have h: "?h = chain_height_of t" "?h < 2 ^ 32" "?h = length (block_infos t)"
    using b ok by (auto simp: block_addable_def db_ok_height)
  have ok': "tx_tables_ok t" and addable: "txs_addable io (block_entries io b) t"
    using ok b by (simp_all add: db_ok_def block_addable_def)
  have "with_txs ?h ?n [] t t"
    using ok' by (simp add: with_txs_Nil tx_tables_ok_def)
  then obtain u0 where u0: "add_tx io (miner_transaction (vb_block b)) (tx_serialize io (miner_transaction (vb_block b)))
      (tx_hash_of io (miner_transaction (vb_block b))) ?h t = Ok (u0, ?n)"
    "with_txs ?h ?n [miner_entry io (vb_block b)] t u0"
    using with_txs_add [OF _ ok' h(2) txs_addable_appendD [of io "[]" "miner_entry io (vb_block b)" "vb_txs b" t]] addable
    by fastforce
  obtain u where u: "add_txs io (vb_txs b) ?h u0 = Ok u" "with_txs ?h ?n (block_entries io b) t u"
    using add_txs_with_txs [OF ok' h(2) u0(2), of io "vb_txs b"] addable by auto
  note same = with_txs_block_tables [OF u(2)]
  obtain coins where coins: "cumulative_generated_coins_at (?h - 1) t = Ok coins" "cumulative_generated_coins_at (?h - 1) u = Ok coins"
    using coins_at_top [OF ok, of t] h(1) same(1) by (auto simp: cumulative_generated_coins_at_def)
  have "fst ` set (block_infos u) = {..<?h}" "fst ` set (block_header_blobs u) = {..<?h}" "fst ` set (block_txs_hashes u) = {..<?h}"
    using ok h(3) unfolding same db_ok_def by (simp_all add: ids_ok_keys)
  then have puts: "tbl_put (block_infos u) ?h v1 = block_infos u @ [(?h, v1)]"
    "tbl_put (block_header_blobs u) ?h v2 = block_header_blobs u @ [(?h, v2)]"
    "tbl_put (block_txs_hashes u) ?h v3 = block_txs_hashes u @ [(?h, v3)]"
    "tbl_put (block_heights u) (vb_hash b) ?h = block_heights u @ [(vb_hash b, ?h)]" for v1 v2 v3
    using b by (simp_all add: tbl_put_fresh same(4) block_addable_def)
  have "add_block io b t = Ok (with_block io b (info_of b coins (length (rct_outputs u)) ?n) u)"
    using h(2) u0(1) u(1) coins(2)
    by (simp add: add_block_def h(1) [symmetric] Let_def puts with_block_def info_of_def get_rct_num_outputs_def tbl_len_def split_beta)
  then show ?thesis
    using u(2) coins(1) by blast
qed


subsection \<open>Popping what was added\<close>

lemma tbl_pop_last_ids:
  assumes "ids_ok t"
  shows "tbl_pop_last (t @ [(length t, v)]) = Ok (t, length t, v)"
proof -
  have ok: "ids_ok (t @ [(length t, v)])"
    using assms by (rule ids_ok_snoc)
  have "Max (set (map fst (t @ [(length t, v)]))) = length t"
    using ok unfolding ids_ok_def by (simp only:) (simp add: Max_eq_iff)
  then show ?thesis
    using ids_ok_delete_last(1) [OF ok] ids_ok_get_last [OF assms, of v]
    unfolding tbl_pop_last_def Let_def by simp
qed

lemma tbl_take_ids: "ids_ok t \<Longrightarrow> tbl_take (t @ [(length t, v)]) (length t) = Ok (t, v)"
  using ids_ok_delete_last(1) [OF ids_ok_snoc, of t v] by (simp add: tbl_take_def ids_ok_get_last)

lemma miner_stored:
  assumes ok: "tx_tables_ok t" and addable: "txs_addable io (block_entries io b) t"
    and u: "with_txs h (length (tx_ids t)) (block_entries io b) t u"
  shows "tbl_get (tx_blobs u) (length (tx_ids t)) = Ok (tx_serialize io (miner_transaction (vb_block b)))"
    "tx_read io (tx_serialize io (miner_transaction (vb_block b))) = Some (miner_transaction (vb_block b))"
proof -
  have "length (tx_ids t) \<notin> fst ` set (tx_blobs t)"
    using ok by (simp add: tx_tables_ok_def ids_ok_keys)
  then have "map_of (tx_blobs t) (length (tx_ids t)) = None"
    by (simp add: map_of_eq_None_iff)
  then show "tbl_get (tx_blobs u) (length (tx_ids t)) = Ok (tx_serialize io (miner_transaction (vb_block b)))"
    using u by (auto simp: with_txs_def stored_def tbl_get_Ok map_add_Some_iff upt_conv_Cons simp del: upt_Suc)
  show "tx_read io (tx_serialize io (miner_transaction (vb_block b))) = Some (miner_transaction (vb_block b))"
    using txs_addable_ConsD(1) [OF addable] by (simp add: tx_storable_def)
qed

text \<open>What \<open>pop_block\<close> does with the transactions, after the block's own entries are gone.\<close>

lemma pop_block_with_block:
  assumes ok: "db_ok t" and b: "block_addable io b t"
    and u: "with_txs (vb_height b) (length (tx_ids t)) (block_entries io b) t u"
  shows "\<exists>u'. with_txs (vb_height b) (length (tx_ids t) + 1) (vb_txs b) t u' \<and>
    pop_block io c (with_block io b (info_of b coins rct (length (tx_ids t))) u) =
      and_then
       (case c of
          Some chain_id \<Rightarrow>
            and_then (remove_txs io (alt_transaction io) (map vt_hash (vb_txs b)) u') (\<lambda>(t, txs).
            add_alt_block
              \<lparr>ab_block = vb_block b, ab_block_blob = block_serialize io (vb_block b), ab_txs = txs,
               ab_block_hash = vb_hash b, ab_pow_hash = replicate 32 0, ab_height = vb_height b,
               ab_weight = vb_weight b, ab_long_term_weight = vb_long_term_weight b,
               ab_cumulative_difficulty =
                 combine_low_high_bits_to_u128 (fst (split_u128_into_low_high_bits (vb_cumulative_difficulty b)))
                   (snd (split_u128_into_low_high_bits (vb_cumulative_difficulty b))),
               ab_chain_id = chain_id\<rparr> t)
        | None \<Rightarrow> and_then (remove_txs io Ok (map vt_hash (vb_txs b)) u') (\<lambda>(t, _). Ok t)) (\<lambda>t.
      Ok (t, vb_height b, vb_hash b, vb_block b))"
proof -
  let ?h = "vb_height b" and ?n = "length (tx_ids t)" and ?info = "info_of b coins rct (length (tx_ids t))"
  have h: "?h = length (block_infos t)"
    using ok b by (simp add: block_addable_def db_ok_height)
  have ok': "tx_tables_ok t" and addable: "txs_addable io (block_entries io b) t" and room: "room_for (block_entries io b) t"
    using ok b by (simp_all add: db_ok_def block_addable_def)
  note same = with_txs_block_tables [OF u]
  obtain u' where u': "remove_tx io (tx_hash_of io (miner_transaction (vb_block b))) u = Ok (u', ?n, miner_transaction (vb_block b))"
    "with_txs ?h (?n + 1) (vb_txs b) t u'"
    using with_txs_remove [OF u ok' _ _ room] txs_addable_ConsD [OF addable] by fastforce
  have taken: "tbl_pop_last (block_infos t @ [(?h, ?info)]) = Ok (block_infos t, ?h, ?info)"
    "tbl_take (block_header_blobs t @ [(?h, v)]) ?h = Ok (block_header_blobs t, v)"
    "tbl_take (block_txs_hashes t @ [(?h, w)]) ?h = Ok (block_txs_hashes t, w)" for v w
    using ok tbl_pop_last_ids [of "block_infos t" ?info] tbl_take_ids [of "block_header_blobs t" v]
      tbl_take_ids [of "block_txs_hashes t" w] by (simp_all add: db_ok_def h)
  have height: "tbl_delete (block_heights t @ [(vb_hash b, ?h)]) (vb_hash b) = block_heights t"
    using b by (simp add: tbl_delete_append tbl_delete_fresh block_addable_def)
  note miner = miner_stored [OF ok' addable u]
  have restored: "u\<lparr>block_infos := block_infos t, block_heights := block_heights t,
      block_header_blobs := block_header_blobs t, block_txs_hashes := block_txs_hashes t\<rparr> = u"
    by (simp add: same [symmetric])
  have codec: "header_read io (header_serialize io (header (vb_block b))) = Some (header (vb_block b))"
    "block_new io (header (vb_block b)) (miner_transaction (vb_block b)) (transactions (vb_block b)) = Some (vb_block b)"
    "map vt_hash (vb_txs b) = transactions (vb_block b)"
    using b by (simp_all add: block_addable_def)
  show ?thesis
    using u'
    by (intro exI [of _ u'], cases c)
      (simp_all add: pop_block_def with_block_def same taken height miner restored codec Let_def)
qed


subsection \<open>Both operations keep the invariant\<close>

lemma ids_ok_append:
  assumes "ids_ok t" "map fst u = [length t..<length t + length u]"
  shows "ids_ok (t @ u)"
  using assms upt_add_eq_append [of 0 "length t" "length u"] by (simp add: ids_ok_def)

lemma with_txs_tables_ok:
  assumes st: "with_txs h (length (tx_ids base)) xs base t" and ok: "tx_tables_ok base" and addable: "txs_addable io xs base"
  shows "tx_tables_ok t"
proof -
  let ?n = "length (tx_ids base)"
  obtain L X os where t: "t = stored h ?n xs L X os base"
    and os: "length os = length xs" and X: "ids_ok (rct_outputs base @ X)"
    using st by (auto simp: with_txs_def)
  have "map fst (tx_ids t) = map fst (tx_ids base) @ map vt_hash xs"
    by (simp add: t stored_def)
  moreover have "\<forall>x \<in> set xs. vt_hash x \<notin> fst ` set (tx_ids base)" "distinct (map vt_hash xs)" "distinct (map fst (tx_ids base))"
    using ok addable by (simp_all add: txs_addable_def tx_tables_ok_def list_all_iff)
  moreover from this(1) have "vt_hash ` set xs \<inter> fst ` set (tx_ids base) = {}"
    unfolding disjoint_iff by (simp only: ball_simps image_iff) metis
  ultimately have "distinct (map fst (tx_ids t))"
    by (simp add: Int_commute)
  moreover have "ids_ok (tx_blobs t)" "ids_ok (tx_heights t)" "ids_ok (tx_outputs t)"
    using ok os by (simp_all add: t stored_def tx_tables_ok_def ids_ok_append comp_def)
  moreover have "length (tx_blobs t) = length (tx_ids t)" "length (tx_heights t) = length (tx_ids t)" "length (tx_outputs t) = length (tx_ids t)"
    using ok os by (simp_all add: t stored_def tx_tables_ok_def)
  moreover have "\<forall>i \<in> fst ` set (tx_unlock_time t). i < length (tx_ids t)"
    using stored_keys(5) [OF ok os, of h L X, folded t] by (auto simp: t stored_def)
  moreover have "ids_ok (rct_outputs t)" "outputs_ok (pre_of t)"
    using X ok by (simp_all add: t stored_def tx_tables_ok_def outputs_ok_puts)
  ultimately show ?thesis
    by (simp add: tx_tables_ok_def)
qed

lemma db_ok_with_block:
  assumes ok: "db_ok t" and b: "block_addable io b t"
    and u: "with_txs (vb_height b) (length (tx_ids t)) (block_entries io b) t u"
  shows "db_ok (with_block io b (info_of b coins rct (length (tx_ids t))) u)"
proof -
  note same = with_txs_block_tables [OF u]
  have h: "vb_height b = length (block_infos t)" and hash: "vb_hash b \<notin> fst ` set (block_heights t)"
    using b by (simp_all add: block_addable_def db_ok_height [OF ok])
  let ?i = "length (tx_ids t)"
  have "tx_tables_ok u"
    using ok b by (intro with_txs_tables_ok [OF u, of io]) (simp_all add: db_ok_def block_addable_def)
  then have "tx_tables_ok (with_block io b (info_of b coins rct ?i) u)"
    by (simp add: tx_tables_ok_def with_block_def)
  moreover have "ids_ok (block_infos t @ [(length (block_infos t), v)])" "ids_ok (block_header_blobs t @ [(length (block_infos t), w)])"
    "ids_ok (block_txs_hashes t @ [(length (block_infos t), z)])" for v w z
    using ok ids_ok_snoc [of "block_infos t"] ids_ok_snoc [of "block_header_blobs t"] ids_ok_snoc [of "block_txs_hashes t"]
    by (simp_all add: db_ok_def)
  moreover have "length (tx_ids u) = Suc (?i + length (vb_txs b))"
    using u by (auto simp: with_txs_def stored_def)
  then have "list_all (\<lambda>(h, info). mining_tx_index info < length (tx_ids u)) (block_infos t @ [(length (block_infos t), info_of b coins rct ?i)])"
    using ok by (auto simp: db_ok_def list_all_iff)
  moreover have "distinct (map fst (block_heights t))"
    using ok unfolding db_ok_def by blast
  then have "distinct (map fst (block_heights t @ [(vb_hash b, length (block_infos t))]))"
    using hash by simp
  moreover have "block_heights t @ [(vb_hash b, length (block_infos t))] =
      map (\<lambda>(h, info). (bi_block_hash info, h)) (block_infos t @ [(length (block_infos t), info_of b coins rct ?i)])"
    using ok by (simp add: db_ok_def)
  moreover have "length (block_header_blobs t) = length (block_infos t)" "length (block_txs_hashes t) = length (block_infos t)"
    using ok by (simp_all add: db_ok_def)
  ultimately show ?thesis
    unfolding db_ok_def [of "with_block io b _ u"] by (simp only: with_block_def same h) simp
qed

lemma restores:
  assumes ok: "db_ok t" and b: "block_addable io b t" and add: "add_block io b t = Ok t'"
  shows "pop_block io None t' = Ok (t, vb_height b, vb_hash b, vb_block b)"
proof -
  obtain u coins where u: "with_txs (vb_height b) (length (tx_ids t)) (block_entries io b) t u"
    and t': "t' = with_block io b (info_of b coins (length (rct_outputs u)) (length (tx_ids t))) u"
    using add_block_eq [OF ok b] add by auto
  have ok': "tx_tables_ok t" "txs_addable io (vb_txs b) t" "room_for (vb_txs b) t"
    using ok b by (auto simp: db_ok_def block_addable_def room_for_def dest: txs_addable_ConsD(5))
  obtain u' where u': "with_txs (vb_height b) (length (tx_ids t) + 1) (vb_txs b) t u'"
    "pop_block io None t' =
      and_then (and_then (remove_txs io Ok (map vt_hash (vb_txs b)) u') (\<lambda>(t, _). Ok t)) (\<lambda>t.
      Ok (t, vb_height b, vb_hash b, vb_block b))"
    using pop_block_with_block [OF ok b u, of None] unfolding t' option.case by blast
  have "remove_txs io Ok (map vt_hash (vb_txs b)) u' = Ok (t, map vt_tx (vb_txs b))"
    using remove_txs_with_txs [OF ok'(1) _ u'(1) ok'(2,3), of Ok vt_tx] by simp
  then show ?thesis
    by (simp add: u'(2))
qed

subsection \<open>The database as a stack of blocks\<close>

inductive built :: "codecs \<Rightarrow> verified_block list \<Rightarrow> tables \<Rightarrow> bool" for io where
  built_empty: "built io [] empty_tables"
| built_add: "built io bs t \<Longrightarrow> block_addable io b t \<Longrightarrow> add_block io b t = Ok t' \<Longrightarrow> built io (bs @ [b]) t'"

inductive_cases built_NilE: "built io [] t"
inductive_cases built_snocE: "built io (bs @ [b]) t"

lemma db_ok_empty: "db_ok empty_tables"
  by (simp add: db_ok_def empty_tables_def tx_tables_ok_def ids_ok_def outputs_ok_def count_of_def)

lemma add_block_keeps_ok:
  assumes "db_ok t" "block_addable io b t" "add_block io b t = Ok t'"
  shows "db_ok t'" "chain_height_of t' = chain_height_of t + 1"
proof -
  obtain u coins where u: "with_txs (vb_height b) (length (tx_ids t)) (block_entries io b) t u"
    and t': "t' = with_block io b (info_of b coins (length (rct_outputs u)) (length (tx_ids t))) u"
    using add_block_eq [OF assms(1,2)] assms(3) by auto
  show "db_ok t'"
    unfolding t' by (rule db_ok_with_block [OF assms(1,2) u])
  show "chain_height_of t' = chain_height_of t + 1"
    by (simp add: t' with_block_def chain_height_of_def tbl_len_def with_txs_block_tables [OF u])
qed

lemma built_ok: "built io bs t \<Longrightarrow> db_ok t \<and> chain_height_of t = length bs"
proof (induction rule: built.induct)
  case built_empty
  show ?case
    using db_ok_empty by (simp add: empty_tables_def chain_height_of_def tbl_len_def)
qed (use add_block_keeps_ok in auto)


inductive reachable :: "codecs \<Rightarrow> tables \<Rightarrow> bool" for io where
  reach_empty: "reachable io empty_tables"
| reach_add: "reachable io t \<Longrightarrow> block_addable io b t \<Longrightarrow> add_block io b t = Ok t' \<Longrightarrow> reachable io t'"
| reach_pop: "reachable io t \<Longrightarrow> pop_block io None t = Ok (t', r) \<Longrightarrow> reachable io t'"

lemma pop_empty: "pop_block io c empty_tables = Err (Fault KeyNotFound)"
  by (simp add: pop_block_def empty_tables_def tbl_pop_last_def)

lemma reachable_built: "reachable io t \<Longrightarrow> \<exists>bs. built io bs t"
proof (induction rule: reachable.induct)
  case reach_empty
  then show ?case
    using built_empty by blast
next
  case (reach_add t b t')
  then show ?case
    using built_add by blast
next
  case (reach_pop t t' r)
  then obtain bs where bs: "built io bs t"
    by blast
  then show ?case
  proof (cases rule: built.cases)
    case built_empty
    then show ?thesis
      using reach_pop.hyps(2) by (simp add: pop_empty)
  next
    case (built_add bs' t0 b)
    then have "pop_block io None t = Ok (t0, vb_height b, vb_hash b, vb_block b)"
      using built_ok [of io bs' t0] restores [of t0 io b t] by blast
    then show ?thesis
      using reach_pop.hyps(2) built_add by auto
  qed
qed

subsection \<open>Reading what was added\<close>

definition header_of :: "verified_block \<Rightarrow> hard_fork \<Rightarrow> ext_header" where
  "header_of b v =
     \<lparr>eh_version = v, eh_vote = hardfork_signal (header (vb_block b)), eh_timestamp = hdr_timestamp (header (vb_block b)),
      eh_cumulative_difficulty = vb_cumulative_difficulty b, eh_block_weight = vb_weight b,
      eh_long_term_weight = vb_long_term_weight b\<rparr>"

lemma tbl_get_append_old: "k \<in> fst ` set t \<Longrightarrow> tbl_get (t @ u) k = tbl_get t k"
  by (auto simp: tbl_get_def map_add_def map_of_eq_None_iff split: option.splits)

lemma reads_of_new_block:
  assumes ok: "db_ok t" and b: "block_addable io b t" and add: "add_block io b t = Ok t'"
  shows "get_block io (vb_height b) t' = Ok (vb_block b)"
    and "get_block_height (vb_hash b) t' = Ok (vb_height b)"
    and "from_version (hardfork_version (header (vb_block b))) = Ok v \<Longrightarrow> vb_cumulative_difficulty b < 2 ^ 128 \<Longrightarrow>
      get_block_extended_header_from_height io (vb_height b) t' = Ok (header_of b v)"
proof -
  obtain u coins where u: "with_txs (vb_height b) (length (tx_ids t)) (block_entries io b) t u"
    and t': "t' = with_block io b (info_of b coins (length (rct_outputs u)) (length (tx_ids t))) u"
    using add_block_eq [OF ok b] add by auto
  note same = with_txs_block_tables [OF u]
  have h: "vb_height b = length (block_infos t)"
    using b by (simp add: block_addable_def db_ok_height [OF ok])
  have codec: "header_read io (header_serialize io (header (vb_block b))) = Some (header (vb_block b))"
    "block_new io (header (vb_block b)) (miner_transaction (vb_block b)) (transactions (vb_block b)) = Some (vb_block b)"
    using b by (simp_all add: block_addable_def)
  have ok': "tx_tables_ok t" and addable: "txs_addable io (block_entries io b) t"
    using ok b by (simp_all add: db_ok_def block_addable_def)
  have gets: "tbl_get (block_infos t @ [(vb_height b, v1)]) (vb_height b) = Ok v1"
    "tbl_get (block_header_blobs t @ [(vb_height b, v2)]) (vb_height b) = Ok v2"
    "tbl_get (block_txs_hashes t @ [(vb_height b, v3)]) (vb_height b) = Ok v3" for v1 v2 v3
    using ok ids_ok_get_last [of "block_infos t" v1] ids_ok_get_last [of "block_header_blobs t" v2]
      ids_ok_get_last [of "block_txs_hashes t" v3] by (simp_all add: db_ok_def h)
  show "get_block io (vb_height b) t' = Ok (vb_block b)"
    using miner_stored [OF ok' addable u]
    by (simp add: t' get_block_def with_block_def same gets codec get_tx_from_id_def)
  have "map_of (block_heights t) (vb_hash b) = None"
    using b by (simp add: block_addable_def map_of_eq_None_iff)
  then show "get_block_height (vb_hash b) t' = Ok (vb_height b)"
    by (simp add: t' get_block_height_def with_block_def same tbl_get_def map_add_def)
  show "get_block_extended_header_from_height io (vb_height b) t' = Ok (header_of b v)"
    if "from_version (hardfork_version (header (vb_block b))) = Ok v" "vb_cumulative_difficulty b < 2 ^ 128"
    using that split_combine_u128 [OF that(2)]
    by (simp add: t' get_block_extended_header_from_height_def with_block_def same gets codec header_of_def split_beta)
qed

lemma reads_of_old_blocks:
  assumes ok: "db_ok t" and b: "block_addable io b t" and add: "add_block io b t = Ok t'" and h: "h < chain_height_of t"
  shows "get_block_extended_header_from_height io h t' = get_block_extended_header_from_height io h t"
    and "get_block io h t' = get_block io h t"
proof -
  obtain u coins where u: "with_txs (vb_height b) (length (tx_ids t)) (block_entries io b) t u"
    and t': "t' = with_block io b (info_of b coins (length (rct_outputs u)) (length (tx_ids t))) u"
    using add_block_eq [OF ok b] add by auto
  note same = with_txs_block_tables [OF u]
  have h': "h < length (block_infos t)" "ids_ok (block_infos t)"
    using h ok by (simp_all add: db_ok_height) (simp add: db_ok_def)
  have gets: "tbl_get (block_infos t @ v1) h = tbl_get (block_infos t) h"
    "tbl_get (block_header_blobs t @ v2) h = tbl_get (block_header_blobs t) h"
    "tbl_get (block_txs_hashes t @ v3) h = tbl_get (block_txs_hashes t) h" for v1 v2 v3
    using ok h'(1) by (auto intro!: tbl_get_append_old simp: db_ok_def ids_ok_keys)
  define info where "info = snd (block_infos t ! h)"
  have info: "tbl_get (block_infos t) h = Ok info" "mining_tx_index info < length (tx_ids t)"
    using ids_ok_get [OF h'(2,1)] ok h'(1) by (simp_all add: info_def db_ok_def list_all_length split_beta)
  have "tbl_get (tx_blobs u) (mining_tx_index info) = tbl_get (tx_blobs t) (mining_tx_index info)"
    using u info(2) ok by (auto intro!: tbl_get_append_old simp: with_txs_def stored_def db_ok_def tx_tables_ok_def ids_ok_keys)
  then show "get_block io h t' = get_block io h t"
    by (simp add: t' get_block_def with_block_def same gets get_tx_from_id_def info(1))
  show "get_block_extended_header_from_height io h t' = get_block_extended_header_from_height io h t"
    by (simp add: t' get_block_extended_header_from_height_def with_block_def same gets)
qed

lemma old_block_height:
  assumes ok: "db_ok t" and b: "block_addable io b t" and add: "add_block io b t = Ok t'"
    and old: "get_block_height hash t = Ok h"
  shows "get_block_height hash t' = Ok h"
proof -
  obtain u coins where u: "with_txs (vb_height b) (length (tx_ids t)) (block_entries io b) t u"
    and t': "t' = with_block io b (info_of b coins (length (rct_outputs u)) (length (tx_ids t))) u"
    using add_block_eq [OF ok b] add by auto
  have "map_of (block_heights t) hash = Some h"
    using old by (simp add: get_block_height_def no_panic_eq tbl_get_Ok)
  then show ?thesis
    by (simp add: t' get_block_height_def with_block_def with_txs_block_tables [OF u] no_panic_eq tbl_get_Ok map_add_Some_iff)
qed

subsection \<open>Theorems\<close>

text \<open>
  C7: \<open>pop_block\<close> undoes \<open>add_block\<close>: on a database in the invariant, a block that is new to it is added without an error or a
  panic, and popping it returns that block and restores every table, the counters and outputs of every amount included.
\<close>

theorem pop_block_undoes_add_block:
  assumes "db_ok t" "block_addable io b t"
  shows "\<exists>t'. add_block io b t = Ok t' \<and> pop_block io None t' = Ok (t, vb_height b, vb_hash b, vb_block b)"
  using add_block_eq [OF assms] restores [OF assms] by blast

text \<open>
  C19: However blocks are added and popped, the tables stay in the invariant, and they are those of a sequence of \<open>add_block\<close>s
  whose length is the chain height: no trace of a popped block remains.
\<close>

theorem reachable_store_is_stack:
  assumes "reachable io t"
  shows "db_ok t \<and> (\<exists>bs. built io bs t \<and> chain_height_of t = length bs)"
  using reachable_built [OF assms] built_ok by blast

text \<open>
  C20: The database represents its list of blocks: the block, its extended header and its height are read back for every block added,
  also after later blocks were added on top.
\<close>

theorem store_represents_blocks:
  assumes "built io bs t" "i < length bs"
    and "from_version (hardfork_version (header (vb_block (bs ! i)))) = Ok v" "vb_cumulative_difficulty (bs ! i) < 2 ^ 128"
  shows "get_block io i t = Ok (vb_block (bs ! i)) \<and> get_block_height (vb_hash (bs ! i)) t = Ok i \<and>
    get_block_extended_header_from_height io i t = Ok (header_of (bs ! i) v)"
  using assms
proof (induction rule: built.induct)
  case (built_add bs t b t')
  have ok: "db_ok t" "chain_height_of t = length bs" "vb_height b = length bs"
    using built_ok [OF built_add.hyps(1)] built_add.hyps(2) by (simp_all add: block_addable_def)
  show ?case
  proof (cases "i < length bs")
    case True
    then show ?thesis
      using built_add reads_of_old_blocks [OF ok(1) built_add.hyps(2,3), of i] old_block_height [OF ok(1) built_add.hyps(2,3)] ok(2)
      by (simp add: nth_append)
  next
    case False
    then have "i = length bs"
      using built_add.prems(1) by simp
    then show ?thesis
      using reads_of_new_block [OF ok(1) built_add.hyps(2,3)] built_add.prems ok(3) by simp
  qed
qed simp

subsection \<open>A concrete database\<close>

text \<open>
  Two blocks: the first has only its miner transaction, the second also spends an output into two outputs of the same amount. The codecs
  read back what they serialise for these blocks; the miner transactions differ in their extra field.
\<close>

definition store_miner :: "bytes \<Rightarrow> transaction" where
  "store_miner e =
     TxV2 \<lparr>additional_timelock = TBlock 60, inputs = [Gen 0],
           outputs = [\<lparr>amount = Some 5, out_key = [1], view_tag = None\<rparr>], extra = e\<rparr> None"

definition store_tx :: transaction where
  "store_tx =
     TxV1 \<lparr>additional_timelock = TNone, inputs = [ToKey (Some 9) [1] [7]],
           outputs = [\<lparr>amount = Some 4, out_key = [2], view_tag = None\<rparr>, \<lparr>amount = Some 4, out_key = [3], view_tag = None\<rparr>],
           extra = []\<rparr> []"

definition store_header :: block_header where
  "store_header = \<lparr>hardfork_version = 1, hardfork_signal = 1, hdr_timestamp = 100, previous = [5], nonce = 0\<rparr>"

definition store_genesis :: verified_block where
  "store_genesis =
     \<lparr>vb_block = \<lparr>header = store_header, miner_transaction = store_miner [0], transactions = []\<rparr>,
      vb_block_blob = [3], vb_txs = [], vb_hash = [5], vb_pow_hash = [15], vb_height = 0, vb_generated_coins = 5, vb_weight = 100, vb_long_term_weight = 100,
      vb_cumulative_difficulty = 1\<rparr>"

definition store_block :: verified_block where
  "store_block =
     \<lparr>vb_block = \<lparr>header = store_header, miner_transaction = store_miner [1], transactions = [[10, 1]]\<rparr>, vb_block_blob = [3],
      vb_txs = [\<lparr>vt_tx = store_tx, vt_blob = [1], vt_weight = 0, vt_fee = 1, vt_hash = [10, 1]\<rparr>],
      vb_hash = [6], vb_pow_hash = [16], vb_height = 1, vb_generated_coins = 5, vb_weight = 100, vb_long_term_weight = 100,
      vb_cumulative_difficulty = 2\<rparr>"

definition store_codecs :: codecs where
  "store_codecs =
     (let ser = (\<lambda>tx. case tx of TxV1 _ _ \<Rightarrow> [1] | TxV2 pre _ \<Rightarrow> 2 # extra pre)
      in \<lparr>header_serialize = (\<lambda>_. [9]), header_read = (\<lambda>_. Some store_header), tx_serialize = ser,
          tx_read = (\<lambda>b. if b = [1] then Some store_tx else if hd b = 2 then Some (store_miner (tl b)) else None),
          tx_hash_of = (\<lambda>tx. 10 # ser tx), tx_weight_of = (\<lambda>_. 0),
          tx_version_of = (\<lambda>tx. case tx of TxV1 _ _ \<Rightarrow> 1 | TxV2 _ _ \<Rightarrow> 2),
          block_serialize = (\<lambda>_. [3]), block_read = (\<lambda>_. Some (vb_block store_block)),
          block_new = (\<lambda>h m txs. Some \<lparr>header = h, miner_transaction = m, transactions = txs\<rparr>),
          zero_commitment = (\<lambda>_. []), varint_write = (\<lambda>n. [of_nat n])\<rparr>)"

definition store_tables :: tables where
  "store_tables = empty_tables
     \<lparr>block_header_blobs := [(0, [9])], block_txs_hashes := [(0, [])], block_heights := [([5], 0)],
      block_infos := [(0, info_of store_genesis 0 1 0)],
      rct_outputs := [(0, \<lparr>do_key = [1], do_height = 0, non_zero_unlock_time = True, do_tx_idx = 0, ro_commitment = []\<rparr>)],
      tx_blobs := [(0, [2, 0])], tx_ids := [([10, 2, 0], 0)], tx_heights := [(0, 0)], tx_outputs := [(0, [0])],
      tx_unlock_time := [(0, 60)]\<rparr>"

lemmas store_sample_defs = store_miner_def store_tx_def store_header_def store_codecs_def store_block_def store_genesis_def

lemmas store_eval = store_sample_defs empty_tables_def chain_height_of_def tbl_len_def txs_addable_def tx_storable_def
  miner_entry_def room_for_def pre_amounts_def rct_count_def is_gen_def Let_def block_addable_def

lemma store_genesis_addable: "block_addable store_codecs store_genesis empty_tables"
  by (simp add: store_eval)

lemma store_genesis_added: "add_block store_codecs store_genesis empty_tables = Ok store_tables"
  by (simp add: add_block_def add_tx_def store_eval store_tables_def get_num_tx_def tbl_put_def add_rct_output_def get_rct_num_outputs_def
      output_commitment_def cumulative_generated_coins_at_def tbl_get_def info_of_def split_u128_into_low_high_bits_def)

lemma store_block_addable: "block_addable store_codecs store_block store_tables"
  by (simp add: store_eval store_tables_def)

lemma store_tables_built: "built store_codecs [store_genesis] store_tables"
  using built_add [OF built_empty store_genesis_addable store_genesis_added] by simp

lemma store_tables_ok: "db_ok store_tables"
  using built_ok [OF store_tables_built] by blast

theorem pop_block_undoes_add_block_witness:
  "\<exists>t'. add_block store_codecs store_block store_tables = Ok t' \<and>
     pop_block store_codecs None t' = Ok (store_tables, vb_height store_block, vb_hash store_block, vb_block store_block)"
  by (rule pop_block_undoes_add_block [OF store_tables_ok store_block_addable])

lemma store_built:
  "\<exists>t. add_block store_codecs store_block store_tables = Ok t \<and> built store_codecs [store_genesis, store_block] t \<and> reachable store_codecs t"
  using add_block_eq [OF store_tables_ok store_block_addable] built_add [OF store_tables_built store_block_addable]
    reach_add [OF reach_add [OF reach_empty store_genesis_addable store_genesis_added] store_block_addable] by fastforce

theorem reachable_store_is_stack_witness:
  "\<exists>t. add_block store_codecs store_block store_tables = Ok t \<and> db_ok t \<and> (\<exists>bs. built store_codecs bs t \<and> chain_height_of t = length bs)"
  using store_built reachable_store_is_stack by blast

theorem store_represents_blocks_witness:
  "\<exists>t. add_block store_codecs store_block store_tables = Ok t \<and> get_block store_codecs 0 t = Ok (vb_block store_genesis) \<and>
     get_block_height (vb_hash store_genesis) t = Ok 0 \<and>
     get_block_extended_header_from_height store_codecs 0 t = Ok (header_of store_genesis V1)"
proof -
  obtain t where t: "add_block store_codecs store_block store_tables = Ok t" "built store_codecs [store_genesis, store_block] t"
    using store_built by blast
  have "from_version (hardfork_version (header (vb_block ([store_genesis, store_block] ! 0)))) = Ok V1"
    "vb_cumulative_difficulty ([store_genesis, store_block] ! 0) < 2 ^ 128"
    using from_version_as_u8 [of V1] by (simp_all add: store_sample_defs)
  then show ?thesis
    using store_represents_blocks [OF t(2), of 0 V1] t(1) by simp
qed

end
