(* ===== verification/Alt_Chains.thy ===== *)
theory Alt_Chains
  imports Alt_Blocks
begin

text \<open>
  Laws of the alternative chains in the database. Under the invariant \<open>infos_ok\<close> (a chain splits off above its parent's split and below its
  parent's tip) both walks towards the main chain end, and they agree: \<open>get_alt_chain_history_ranges\<close> names for every height of
  the range the chain that \<open>get_alt_block_hash\<close> looks it up in. \<open>add_alt_block\<close> keeps the invariant. Two deviations are stated as theorems: the
  extended header of an alternative block has the block's version as its vote, and a range entirely below the split is answered with more than
  was asked.
\<close>

subsection \<open>The history of an alternative chain\<close>

text \<open>Every chain splits from its parent above the parent's own split and below the parent's tip.\<close>

definition infos_ok :: "(nat, alt_chain_info) table \<Rightarrow> bool" where
  "infos_ok infos \<longleftrightarrow>
     (\<forall>c info p. map_of infos c = Some info \<longrightarrow> chain_from_raw (parent_chain info) = Alt p \<longrightarrow>
        (\<exists>pinfo. map_of infos p = Some pinfo \<and> common_ancestor_height pinfo < common_ancestor_height info \<and>
           common_ancestor_height info < aci_chain_height pinfo))"

lemma infos_okD:
  assumes "infos_ok infos" "map_of infos c = Some info" "chain_from_raw (parent_chain info) = Alt p"
  obtains pinfo where "map_of infos p = Some pinfo" "common_ancestor_height pinfo < common_ancestor_height info"
    "common_ancestor_height info < aci_chain_height pinfo"
  using assms unfolding infos_ok_def by blast

fun expand :: "(chain \<times> nat \<times> nat) list \<Rightarrow> (chain \<times> nat) list" where
  "expand [] = []"
| "expand ((c, a, b) # rs) = map (Pair c) [a..<b] @ expand rs"

lemma expand_append: "expand (rs @ rs') = expand rs @ expand rs'"
  by (induction rs rule: expand.induct) simp_all

definition chain_at :: "nat \<Rightarrow> nat \<Rightarrow> (nat, alt_chain_info) table \<Rightarrow> chain" where
  "chain_at h c infos = (case alt_block_chain h c infos of Some (Inr ch) \<Rightarrow> ch | _ \<Rightarrow> Main)"

lemma chain_at_eq:
  assumes "map_of infos c = Some info"
  shows "chain_at h c infos =
    (if common_ancestor_height info < h then Alt c
     else case chain_from_raw (parent_chain info) of Main \<Rightarrow> Main | Alt p \<Rightarrow> chain_at h p infos)"
  using assms
  by (simp add: chain_at_def tbl_get_def alt_block_chain.simps [of h c infos] split: chain.splits)

lemma alt_block_chain_returns:
  assumes "infos_ok infos" "map_of infos c = Some info"
  shows "\<exists>ch. alt_block_chain h c infos = Some (Ok ch)"
  using assms(2)
proof (induction "common_ancestor_height info" arbitrary: c info rule: less_induct)
  case less
  show ?case
  proof (cases "chain_from_raw (parent_chain info)")
    case Main
    then show ?thesis
      using less.prems by (simp add: alt_block_chain.simps [of h c] tbl_get_def)
  next
    case (Alt p)
    then obtain pinfo where "map_of infos p = Some pinfo" "common_ancestor_height pinfo < common_ancestor_height info"
      using infos_okD [OF assms(1) less.prems] by blast
    then show ?thesis
      using less.hyps less.prems Alt by (simp add: alt_block_chain.simps [of h c] tbl_get_def)
  qed
qed

lemma history_ranges_spec:
  assumes "infos_ok infos" "map_of infos c = Some info"
    "common_ancestor_height info < i" "i \<le> aci_chain_height info"
  shows "\<exists>rs. history_ranges start i c infos = Some (Ok rs) \<and>
     expand (rev rs) = map (\<lambda>h. (chain_at h c infos, h)) [start..<i]"
  using assms(2-)
proof (induction "common_ancestor_height info" arbitrary: c info i rule: less_induct)
  case less
  let ?i = "common_ancestor_height info + 1"
  let ?r = "(Alt c, max start ?i, min i (aci_chain_height info))"
  show ?case
  proof (cases "start < i")
    case False
    then show ?thesis
      by (simp add: history_ranges.simps [of start i])
  next
    case True
    have upt: "[start..<i] = [start..<?i] @ [max start ?i..<i]"
      using less.prems(2) True by (cases "start \<le> ?i") (simp_all add: upt_split [of start ?i i] max_def del: upt_Suc)
    have own: "map (\<lambda>h. (chain_at h c infos, h)) [max start ?i..<i] = map (Pair (Alt c)) [max start ?i..<i]"
      by (simp add: chain_at_eq [OF less.prems(1)])
    show ?thesis
    proof (cases "chain_from_raw (parent_chain info)")
      case Main
      then have "history_ranges start i c infos = Some (Ok [?r, (Main, start, ?i)])"
        using True less.prems(1) by (simp add: history_ranges.simps [of start i] tbl_get_def Let_def)
      moreover have "map (\<lambda>h. (chain_at h c infos, h)) [start..<?i] = map (Pair Main) [start..<?i]"
        using Main by (simp add: chain_at_eq [OF less.prems(1)])
      ultimately show ?thesis
        using own less.prems(3) by (simp add: upt min_absorb1 del: upt_Suc)
    next
      case (Alt p)
      obtain pinfo where p: "map_of infos p = Some pinfo" "common_ancestor_height pinfo < common_ancestor_height info"
        "common_ancestor_height info < aci_chain_height pinfo"
        using infos_okD [OF assms(1) less.prems(1) Alt] by blast
      have "p \<noteq> c"
        using p less.prems(1) by auto
      obtain rs where rs: "history_ranges start ?i p infos = Some (Ok rs)"
        "expand (rev rs) = map (\<lambda>h. (chain_at h p infos, h)) [start..<?i]"
        using less.hyps [OF p(2) p(1), of ?i] p by auto
      have "history_ranges start i c infos = Some (Ok (?r # rs))"
        using True less.prems(1) Alt \<open>p \<noteq> c\<close> rs(1) by (simp add: history_ranges.simps [of start i] tbl_get_def Let_def)
      moreover have "map (\<lambda>h. (chain_at h c infos, h)) [start..<?i] = map (\<lambda>h. (chain_at h p infos, h)) [start..<?i]"
        using Alt by (simp add: chain_at_eq [OF less.prems(1)])
      ultimately show ?thesis
        using own rs(2) less.prems(3) by (simp add: upt expand_append min_absorb1 del: upt_Suc)
    qed
  qed
qed


subsection \<open>Adding alternative blocks\<close>

text \<open>Every alternative block stored lies on its chain: above the split and below the tip.\<close>

definition alt_ok :: "tables \<Rightarrow> bool" where
  "alt_ok t \<longleftrightarrow>
     infos_ok (alt_chain_infos t) \<and>
     (\<forall>hash p k. map_of (alt_block_heights t) hash = Some (p, k) \<longrightarrow>
        (\<exists>info. map_of (alt_chain_infos t) p = Some info \<and> common_ancestor_height info < k \<and> k < aci_chain_height info))"

text \<open>
  A block extends the alternative chain it names at its tip, or opens a new one on top of a block of the main chain or of an
  alternative chain.
\<close>

definition alt_addable :: "alt_block_information \<Rightarrow> tables \<Rightarrow> bool" where
  "alt_addable ab t \<longleftrightarrow>
     0 < ab_height ab \<and> length (ab_txs ab) = length (transactions (ab_block ab)) \<and>
     previous (header (ab_block ab)) \<noteq> ab_block_hash ab \<and>
     ab_block_hash ab \<notin> fst ` set (alt_block_heights t) \<and>
     (case map_of (alt_chain_infos t) (ab_chain_id ab) of
        Some info \<Rightarrow> aci_chain_height info = ab_height ab \<and> common_ancestor_height info < ab_height ab
      | None \<Rightarrow>
          (case map_of (alt_block_heights t) (previous (header (ab_block ab))) of
             Some (p, k) \<Rightarrow> k + 1 = ab_height ab
           | None \<Rightarrow> True))"

lemma add_alt_transaction_blob_frame [simp]:
  "alt_chain_infos (add_alt_transaction_blob tx t) = alt_chain_infos t"
  "alt_block_heights (add_alt_transaction_blob tx t) = alt_block_heights t"
  "alt_blocks_info (add_alt_transaction_blob tx t) = alt_blocks_info t"
  "alt_block_blobs (add_alt_transaction_blob tx t) = alt_block_blobs t"
  by (simp_all add: add_alt_transaction_blob_def Let_def)

lemma add_alt_transaction_blobs_frame [simp]:
  "alt_chain_infos (fold add_alt_transaction_blob txs t) = alt_chain_infos t"
  "alt_block_heights (fold add_alt_transaction_blob txs t) = alt_block_heights t"
  "alt_blocks_info (fold add_alt_transaction_blob txs t) = alt_blocks_info t"
  "alt_block_blobs (fold add_alt_transaction_blob txs t) = alt_block_blobs t"
  by (induction txs arbitrary: t) simp_all

lemma infos_ok_grow:
  assumes "infos_ok infos" "map_of infos c = Some info" "aci_chain_height info \<le> n"
  shows "infos_ok (tbl_put infos c (info\<lparr>aci_chain_height := n\<rparr>))"
  unfolding infos_ok_def
proof (intro allI impI)
  fix d dinfo p
  assume d: "map_of (tbl_put infos c (info\<lparr>aci_chain_height := n\<rparr>)) d = Some dinfo" "chain_from_raw (parent_chain dinfo) = Alt p"
  then obtain dinfo' where d': "map_of infos d = Some dinfo'" "parent_chain dinfo' = parent_chain dinfo"
    "common_ancestor_height dinfo' = common_ancestor_height dinfo"
    using assms(2) by (auto simp: map_of_tbl_put split: if_splits)
  then obtain pinfo where "map_of infos p = Some pinfo" "common_ancestor_height pinfo < common_ancestor_height dinfo"
    "common_ancestor_height dinfo < aci_chain_height pinfo"
    using infos_okD [OF assms(1) d'(1), of p] d(2) by auto
  then show "\<exists>pinfo. map_of (tbl_put infos c (info\<lparr>aci_chain_height := n\<rparr>)) p = Some pinfo \<and>
      common_ancestor_height pinfo < common_ancestor_height dinfo \<and> common_ancestor_height dinfo < aci_chain_height pinfo"
    using assms(2,3) by (auto simp: map_of_tbl_put)
qed

lemma infos_ok_new:
  assumes "infos_ok infos" "map_of infos c = None"
    "\<And>p. chain_from_raw (parent_chain info) = Alt p \<Longrightarrow>
       \<exists>pinfo. map_of infos p = Some pinfo \<and> common_ancestor_height pinfo < common_ancestor_height info \<and>
         common_ancestor_height info < aci_chain_height pinfo"
  shows "infos_ok (tbl_put infos c info)"
  unfolding infos_ok_def
proof (intro allI impI)
  fix d dinfo p
  assume d: "map_of (tbl_put infos c info) d = Some dinfo" "chain_from_raw (parent_chain dinfo) = Alt p"
  then obtain pinfo where "map_of infos p = Some pinfo" "common_ancestor_height pinfo < common_ancestor_height dinfo"
    "common_ancestor_height dinfo < aci_chain_height pinfo"
    using assms(3) infos_okD [OF assms(1), of d dinfo p] by (auto simp: map_of_tbl_put split: if_splits)
  then show "\<exists>pinfo. map_of (tbl_put infos c info) p = Some pinfo \<and>
      common_ancestor_height pinfo < common_ancestor_height dinfo \<and> common_ancestor_height dinfo < aci_chain_height pinfo"
    using assms(2) by (auto simp: map_of_tbl_put)
qed

text \<open>What \<open>update_alt_chain_info\<close> stores for an addable block.\<close>

lemma update_alt_chain_info_ok:
  assumes ok: "alt_ok t" and add: "alt_addable ab t"
    and hs: "hs = tbl_put (alt_block_heights t) (ab_block_hash ab) (ab_chain_id ab, ab_height ab)"
  shows "\<exists>info. update_alt_chain_info (ab_chain_id ab, ab_height ab) (previous (header (ab_block ab))) (t\<lparr>alt_block_heights := hs\<rparr>) =
      Ok (t\<lparr>alt_block_heights := hs, alt_chain_infos := tbl_put (alt_chain_infos t) (ab_chain_id ab) info\<rparr>) \<and>
     infos_ok (tbl_put (alt_chain_infos t) (ab_chain_id ab) info) \<and>
     common_ancestor_height info < ab_height ab \<and> aci_chain_height info = ab_height ab + 1 \<and>
     (\<forall>old. map_of (alt_chain_infos t) (ab_chain_id ab) = Some old \<longrightarrow>
        common_ancestor_height old = common_ancestor_height info \<and> aci_chain_height old \<le> aci_chain_height info)"
proof -
  let ?c = "ab_chain_id ab" and ?h = "ab_height ab" and ?prev = "previous (header (ab_block ab))" and ?infos = "alt_chain_infos t"
  have infos: "infos_ok ?infos"
    using ok by (simp add: alt_ok_def)
  show ?thesis
  proof (cases "map_of ?infos ?c")
    case (Some info)
    then have h: "aci_chain_height info = ?h" "common_ancestor_height info < ?h"
      using add by (simp_all add: alt_addable_def)
    then show ?thesis
      using Some infos_ok_grow [OF infos Some, of "?h + 1"]
      by (intro exI [of _ "info\<lparr>aci_chain_height := ?h + 1\<rparr>"]) (simp add: update_alt_chain_info_def tbl_get_def Let_def)
  next
    case None
    define parent where "parent = (case tbl_get hs ?prev of Inr p \<Rightarrow> Alt (fst p) | Inl _ \<Rightarrow> Main)"
    let ?info = "\<lparr>parent_chain = raw_chain parent, common_ancestor_height = ?h - 1, aci_chain_height = ?h + 1\<rparr>"
    have prev: "map_of hs ?prev = map_of (alt_block_heights t) ?prev" and h: "0 < ?h"
      using add by (simp_all add: hs map_of_tbl_put alt_addable_def)
    have "\<exists>pinfo. map_of ?infos p = Some pinfo \<and> common_ancestor_height pinfo < ?h - 1 \<and> ?h - 1 < aci_chain_height pinfo"
      if "chain_from_raw (raw_chain parent) = Alt p" for p
    proof -
      from that obtain k where k: "map_of (alt_block_heights t) ?prev = Some (p, k)"
        by (cases "map_of (alt_block_heights t) ?prev")
          (auto simp: parent_def tbl_get_def prev chain_from_raw_def raw_chain_def split: if_splits)
      then have "k = ?h - 1"
        using add None by (auto simp: alt_addable_def)
      then show ?thesis
        using ok k by (auto simp: alt_ok_def)
    qed
    then have "infos_ok (tbl_put ?infos ?c ?info)"
      by (intro infos_ok_new [OF infos None]) simp
    moreover have "update_alt_chain_info (?c, ?h) ?prev (t\<lparr>alt_block_heights := hs\<rparr>) =
        Ok (t\<lparr>alt_block_heights := hs, alt_chain_infos := tbl_put ?infos ?c ?info\<rparr>)"
      using None h by (simp add: update_alt_chain_info_def tbl_get_def [of ?infos] parent_def [symmetric] Let_def checked_sub_def)
    ultimately show ?thesis
      using None h by (intro exI [of _ ?info]) simp
  qed
qed

lemma add_alt_block_ok:
  assumes ok: "alt_ok t" and add: "alt_addable ab t"
  shows "\<exists>t'. add_alt_block ab t = Ok t' \<and> alt_ok t'"
proof -
  define hs where "hs = tbl_put (alt_block_heights t) (ab_block_hash ab) (ab_chain_id ab, ab_height ab)"
  obtain info where info: "update_alt_chain_info (ab_chain_id ab, ab_height ab) (previous (header (ab_block ab))) (t\<lparr>alt_block_heights := hs\<rparr>) =
      Ok (t\<lparr>alt_block_heights := hs, alt_chain_infos := tbl_put (alt_chain_infos t) (ab_chain_id ab) info\<rparr>)"
    "infos_ok (tbl_put (alt_chain_infos t) (ab_chain_id ab) info)" "common_ancestor_height info < ab_height ab"
    "aci_chain_height info = ab_height ab + 1"
    "\<And>old. map_of (alt_chain_infos t) (ab_chain_id ab) = Some old \<Longrightarrow>
        common_ancestor_height old = common_ancestor_height info \<and> aci_chain_height old \<le> aci_chain_height info"
    using update_alt_chain_info_ok [OF ok add hs_def] by blast
  have heights: "\<exists>info'. map_of (tbl_put (alt_chain_infos t) (ab_chain_id ab) info) p = Some info' \<and>
      common_ancestor_height info' < k \<and> k < aci_chain_height info'" if stored: "map_of hs hash = Some (p, k)" for hash p k
  proof (cases "hash = ab_block_hash ab")
    case True
    then show ?thesis
      using stored info(3,4) by (simp add: hs_def map_of_tbl_put)
  next
    case False
    then have "map_of (alt_block_heights t) hash = Some (p, k)"
      using stored by (simp add: hs_def map_of_tbl_put)
    then obtain old where "map_of (alt_chain_infos t) p = Some old" "common_ancestor_height old < k" "k < aci_chain_height old"
      using ok unfolding alt_ok_def by blast
    then show ?thesis
      using info(5) by (fastforce simp: map_of_tbl_put)
  qed
  show ?thesis
    using add info(1,2) heights
    by (auto simp: add_alt_block_def hs_def [symmetric] Let_def split_beta alt_addable_def alt_ok_def)
qed

subsection \<open>Theorems\<close>

text \<open>
  C22: The walk back to the main chain ends, and its ranges, oldest first, attribute every height of the requested range once and in
  order to the chain in which \<open>get_alt_block_hash\<close> finds it, for a range that reaches above the chain's split.
\<close>

theorem alt_history_covers_range:
  assumes "infos_ok infos" "map_of infos c = Some info" "common_ancestor_height info < stop" "stop \<le> aci_chain_height info"
  shows "\<exists>rs. get_alt_chain_history_ranges start stop c infos = Some (Ok rs) \<and>
    expand (rev rs) = map (\<lambda>h. (chain_at h c infos, h)) [start..<stop] \<and>
    (\<forall>h. \<exists>ch. alt_block_chain h c infos = Some (Ok ch))"
  using history_ranges_spec [OF assms] alt_block_chain_returns [OF assms(1,2)] by (simp add: get_alt_chain_history_ranges_def)

definition sample_infos :: "(nat, alt_chain_info) table" where
  "sample_infos =
     [(7, \<lparr>parent_chain = 0, common_ancestor_height = 10, aci_chain_height = 15\<rparr>),
      (8, \<lparr>parent_chain = 7, common_ancestor_height = 12, aci_chain_height = 14\<rparr>)]"

lemma sample_infos_ok: "infos_ok sample_infos"
  by (auto simp: infos_ok_def sample_infos_def chain_from_raw_def split: if_splits)

theorem alt_history_covers_range_witness:
  "\<exists>rs. get_alt_chain_history_ranges 9 14 8 sample_infos = Some (Ok rs) \<and>
    expand (rev rs) = map (\<lambda>h. (chain_at h 8 sample_infos, h)) [9..<14] \<and>
    (\<forall>h. \<exists>ch. alt_block_chain h 8 sample_infos = Some (Ok ch))"
  by (rule alt_history_covers_range [OF sample_infos_ok,
        where info = "\<lparr>parent_chain = 7, common_ancestor_height = 12, aci_chain_height = 14\<rparr>"])
    (simp_all add: sample_infos_def)

text \<open>
  C23: Adding an alternative block succeeds and keeps the invariant of the alternative chains, both when the block extends its chain and when it
  opens a new one on a block of the main chain or of another alternative chain.
\<close>

theorem add_alt_block_keeps_chains:
  assumes "alt_ok t" "alt_addable ab t"
  shows "\<exists>t'. add_alt_block ab t = Ok t' \<and> alt_ok t'"
  by (rule add_alt_block_ok [OF assms])

definition sample_header :: block_header where
  "sample_header = \<lparr>hardfork_version = 14, hardfork_signal = 15, hdr_timestamp = 100, previous = [1], nonce = 0\<rparr>"

definition sample_alt_block :: alt_block_information where
  "sample_alt_block =
     \<lparr>ab_block = \<lparr>header = sample_header, miner_transaction = TxV1 \<lparr>additional_timelock = TNone, inputs = [], outputs = [], extra = []\<rparr> [],
                  transactions = []\<rparr>,
      ab_block_blob = [9], ab_txs = [], ab_block_hash = [2], ab_pow_hash = [], ab_height = 5, ab_weight = 10, ab_long_term_weight = 10,
      ab_cumulative_difficulty = 1, ab_chain_id = 7\<rparr>"

theorem add_alt_block_keeps_chains_witness: "\<exists>t'. add_alt_block sample_alt_block empty_tables = Ok t' \<and> alt_ok t'"
  by (rule add_alt_block_keeps_chains)
    (simp_all add: alt_ok_def infos_ok_def alt_addable_def empty_tables_def sample_alt_block_def sample_header_def)

text \<open>
  The extended header read for an alternative block has the block's version where the header's vote belongs.
\<close>

theorem alt_header_vote_is_version:
  assumes "get_alt_block_extended_header_from_height io abh t = Ok eh"
    and "tbl_get (alt_block_blobs t) abh = Ok blob" "header_read io blob = Some hdr"
  shows "eh_vote eh = hardfork_version hdr \<and> as_u8 (eh_version eh) = hardfork_version hdr"
proof -
  from assms obtain v where v: "from_version (hardfork_version hdr) = Ok v" "eh_version eh = v" "eh_vote eh = hardfork_version hdr"
    by (cases "from_version (hardfork_version hdr)")
      (auto simp: get_alt_block_extended_header_from_height_def and_then_eq_Inr no_panic_eq)
  from v(1) have "v = VARIANTS ! (hardfork_version hdr - 1)" "1 \<le> hardfork_version hdr" "hardfork_version hdr \<le> 16"
    by (auto simp: from_version_def from_repr_def split: if_splits)
  then show ?thesis
    using v(2,3) by simp
qed

text \<open>A database with the sample block; only the header codec is used.\<close>

definition sample_alt_tables :: tables where
  "sample_alt_tables = empty_tables
     \<lparr>alt_blocks_info := [((7, 5), \<lparr>ca_block_hash = [2], ca_pow_hash = [], ca_height = 5, ca_weight = 10, ca_long_term_weight = 10,
                                  ca_cumulative_difficulty_low = 1, ca_cumulative_difficulty_high = 0\<rparr>)],
      alt_block_blobs := [((7, 5), [9])]\<rparr>"

definition sample_codecs :: codecs where
  "sample_codecs =
     \<lparr>header_serialize = (\<lambda>_. [9]), header_read = (\<lambda>_. Some sample_header), tx_serialize = (\<lambda>_. []), tx_read = (\<lambda>_. None),
      tx_hash_of = (\<lambda>_. []), tx_weight_of = (\<lambda>_. 0), tx_version_of = (\<lambda>_. 1), block_serialize = (\<lambda>_. []), block_read = (\<lambda>_. None),
      block_new = (\<lambda>_ _ _. None), zero_commitment = (\<lambda>_. []), varint_write = (\<lambda>_. [])\<rparr>"

theorem alt_header_vote_is_version_witness:
  "\<exists>eh. get_alt_block_extended_header_from_height sample_codecs (7, 5) sample_alt_tables = Ok eh \<and>
     eh_vote eh = 14 \<and> hardfork_signal sample_header = 15"
proof -
  obtain eh where "get_alt_block_extended_header_from_height sample_codecs (7, 5) sample_alt_tables = Ok eh"
    using from_version_as_u8 [of V14]
    by (simp add: get_alt_block_extended_header_from_height_def sample_alt_tables_def sample_codecs_def sample_header_def tbl_get_def)
  then show ?thesis
    using alt_header_vote_is_version [of sample_codecs "(7, 5)" sample_alt_tables eh "[9]" sample_header]
    by (simp add: sample_alt_tables_def sample_codecs_def sample_header_def tbl_get_def)
qed

text \<open>
  A range that ends at or below the split is answered with the main chain up to the split, more than was asked for.
\<close>

theorem alt_history_below_split:
  assumes "map_of infos c = Some info" "chain_from_raw (parent_chain info) = Main"
    and "start < stop" "stop \<le> common_ancestor_height info"
  shows "\<exists>r. get_alt_chain_history_ranges start stop c infos = Some (Ok [r, (Main, start, common_ancestor_height info + 1)]) \<and>
    expand [r] = []"
  using assms
  by (simp add: get_alt_chain_history_ranges_def history_ranges.simps [of start stop] tbl_get_def Let_def)

theorem alt_history_below_split_witness:
  "\<exists>r. get_alt_chain_history_ranges 0 5 7 sample_infos = Some (Ok [r, (Main, 0, 11)]) \<and> expand [r] = []"
  using alt_history_below_split [of sample_infos 7 "\<lparr>parent_chain = 0, common_ancestor_height = 10, aci_chain_height = 15\<rparr>" 0 5]
  by (simp add: sample_infos_def chain_from_raw_def)

end
