(* ===== verification/Store_Service.thy ===== *)
theory Store_Service
  imports Chain_Store Alt_Chains
begin

text \<open>
  The database services: \<^verbatim>\<open>src/storage/blockchain/src/service/write.rs\<close>, \<^verbatim>\<open>read.rs\<close> and the compact history of \<^verbatim>\<open>free.rs\<close>.

  A write request runs in one transaction: on success its tables are committed, on an error or a panic the old ones stay. A read
  request runs one handler on the committed tables; the handlers use a thread pool, and where several lookups fail the model reports
  the first in the order of the request. Requests whose handler is \<open>todo!()\<close> panic. A walk over alternative chains need not end on a
  corrupt database, hence the \<open>option\<close> around the answers that need one.
\<close>

subsection \<open>Writing\<close>

datatype write_request =
  WriteBlock verified_block
| BatchWriteBlocks "verified_block list"
| WriteAltBlock alt_block_information
| PopBlocks nat
| FlushAltBlocks

datatype write_response = WriteOk | PoppedBlocks nat

fun write_blocks :: "codecs \<Rightarrow> verified_block list \<Rightarrow> tables \<Rightarrow> tables db_result" where
  "write_blocks io [] t = Ok t"
| "write_blocks io (b # bs) t = and_then (add_block io b t) (\<lambda>t. write_blocks io bs t)"

fun pop_blocks_loop :: "codecs \<Rightarrow> nat \<Rightarrow> nat \<Rightarrow> tables \<Rightarrow> tables db_result" where
  "pop_blocks_loop io chain_id 0 t = Ok t"
| "pop_blocks_loop io chain_id (Suc n) t =
     and_then (pop_block io (Some chain_id) t) (\<lambda>(t, _). pop_blocks_loop io chain_id n t)"

text \<open>The chain id of the popped blocks is random: the argument \<open>random_id\<close>.\<close>

definition pop_blocks :: "codecs \<Rightarrow> nat \<Rightarrow> nat \<Rightarrow> tables \<Rightarrow> tables db_result" where
  "pop_blocks io random_id numb_blocks t = pop_blocks_loop io random_id numb_blocks (flush_alt_blocks t)"

definition run_transaction :: "tables \<Rightarrow> tables db_result \<Rightarrow> write_response \<Rightarrow> tables \<times> write_response db_result" where
  "run_transaction t result response = (case result of Inr t' \<Rightarrow> (t', Ok response) | Inl e \<Rightarrow> (t, Err e))"

definition handle_blockchain_request ::
  "codecs \<Rightarrow> nat \<Rightarrow> write_request \<Rightarrow> tables \<Rightarrow> tables \<times> write_response db_result" where
  "handle_blockchain_request io random_id req t =
     (case req of
        WriteBlock b \<Rightarrow> run_transaction t (add_block io b t) WriteOk
      | BatchWriteBlocks bs \<Rightarrow> run_transaction t (write_blocks io bs t) WriteOk
      | WriteAltBlock ab \<Rightarrow> run_transaction t (add_alt_block ab t) WriteOk
      | PopBlocks n \<Rightarrow> run_transaction t (pop_blocks io random_id n t) (PoppedBlocks random_id)
      | FlushAltBlocks \<Rightarrow> run_transaction t (Ok (flush_alt_blocks t)) WriteOk)"

subsection \<open>Reading blocks\<close>

text \<open>The hashes that are not found are collected apart from the entries.\<close>

fun block_complete_entries ::
  "codecs \<Rightarrow> bytes list \<Rightarrow> tables \<Rightarrow> (bytes list \<times> block_complete_entry list) db_result" where
  "block_complete_entries io [] t = Ok ([], [])"
| "block_complete_entries io (h # hs) t =
     (case get_block_complete_entry io h t of
        Inl (Fault KeyNotFound) \<Rightarrow> and_then (block_complete_entries io hs t) (\<lambda>(missing, blocks). Ok (h # missing, blocks))
      | Inl e \<Rightarrow> Err e
      | Inr b \<Rightarrow> and_then (block_complete_entries io hs t) (\<lambda>(missing, blocks). Ok (missing, b # blocks)))"

definition block_complete_entries_by_height :: "codecs \<Rightarrow> nat list \<Rightarrow> tables \<Rightarrow> block_complete_entry list db_result" where
  "block_complete_entries_by_height io heights t =
     collect_results (\<lambda>h. get_block_complete_entry_from_height io h t) heights"

definition block_hash :: "nat \<Rightarrow> chain \<Rightarrow> tables \<Rightarrow> bytes db_result option" where
  "block_hash block_height chain t =
     (case chain of
        Main \<Rightarrow> Some (and_then (get_block_info block_height t) (\<lambda>info. Ok (bi_block_hash info)))
      | Alt c \<Rightarrow> get_alt_block_hash block_height c t)"

fun block_hashes :: "nat list \<Rightarrow> chain \<Rightarrow> tables \<Rightarrow> bytes list db_result option" where
  "block_hashes [] chain t = Some (Ok [])"
| "block_hashes (h # hs) chain t =
     (case block_hash h chain t of
        None \<Rightarrow> None
      | Some (Inl e) \<Rightarrow> Some (Err e)
      | Some (Inr hash) \<Rightarrow> map_option (\<lambda>r. and_then r (\<lambda>rest. Ok (hash # rest))) (block_hashes hs chain t))"

definition block_hash_in_range :: "nat \<Rightarrow> nat \<Rightarrow> chain \<Rightarrow> tables \<Rightarrow> bytes list db_result option" where
  "block_hash_in_range start stop chain t = block_hashes [start..<stop] chain t"

definition find_block :: "bytes \<Rightarrow> tables \<Rightarrow> (chain \<times> nat) option" where
  "find_block hash t =
     (case tbl_get (block_heights t) hash of
        Inr height \<Rightarrow> Some (Main, height)
      | Inl _ \<Rightarrow>
          (case tbl_get (alt_block_heights t) hash of
             Inr (chain_id, height) \<Rightarrow> Some (Alt chain_id, height)
           | Inl _ \<Rightarrow> None))"

definition filter_unknown_hashes :: "bytes list \<Rightarrow> tables \<Rightarrow> bytes list" where
  "filter_unknown_hashes hashes t = filter (\<lambda>h. block_exists h t) hashes"

definition header_on_chain :: "codecs \<Rightarrow> tables \<Rightarrow> chain \<times> nat \<Rightarrow> ext_header db_result" where
  "header_on_chain io t ch =
     (case fst ch of
        Main \<Rightarrow> get_block_extended_header_from_height io (snd ch) t
      | Alt c \<Rightarrow> get_alt_block_extended_header_from_height io (c, snd ch) t)"

definition block_extended_header_in_range ::
  "codecs \<Rightarrow> nat \<Rightarrow> nat \<Rightarrow> chain \<Rightarrow> tables \<Rightarrow> ext_header list db_result option" where
  "block_extended_header_in_range io start stop chain t =
     (case chain of
        Main \<Rightarrow> Some (collect_results (\<lambda>h. get_block_extended_header_from_height io h t) [start..<stop])
      | Alt c \<Rightarrow>
          map_option
            (\<lambda>r. and_then r (\<lambda>ranges. collect_results (header_on_chain io t) (expand (rev ranges))))
            (get_alt_chain_history_ranges start stop c (alt_chain_infos t)))"

definition read_chain_height :: "tables \<Rightarrow> (nat \<times> bytes) db_result" where
  "read_chain_height t =
     (let h = chain_height_of t
      in and_then (get_block_info (h - 1) t) (\<lambda>info. Ok (h, bi_block_hash info)))"

definition generated_coins :: "nat \<Rightarrow> tables \<Rightarrow> nat db_result" where
  "generated_coins height t = cumulative_generated_coins_at height t"

subsection \<open>Outputs and key images\<close>

definition amount_of_outs :: "tables \<Rightarrow> nat \<Rightarrow> nat" where
  "amount_of_outs t a =
     (if a = 0 then get_rct_num_outputs t else case tbl_get (num_outputs t) a of Inr n \<Rightarrow> n | Inl _ \<Rightarrow> 0)"

fun outputs_of_amount ::
  "codecs \<Rightarrow> bool \<Rightarrow> nat \<Rightarrow> nat list \<Rightarrow> tables \<Rightarrow> ((nat \<times> output_on_chain) list \<times> nat list) db_result" where
  "outputs_of_amount io get_txid a [] t = Ok ([], [])"
| "outputs_of_amount io get_txid a (i # is) t =
     (case id_to_output_on_chain io (a, i) get_txid t of
        Inr out \<Rightarrow> and_then (outputs_of_amount io get_txid a is t) (\<lambda>(found, wanted). Ok ((i, out) # found, wanted))
      | Inl (Fault KeyNotFound) \<Rightarrow> and_then (outputs_of_amount io get_txid a is t) (\<lambda>(found, wanted). Ok (found, i # wanted))
      | Inl e \<Rightarrow> Err e)"

text \<open>\<open>OutputCache\<close>: outputs found, number of outputs per amount, outputs asked for and not found.\<close>

record output_cache =
  cached_outputs :: "(nat \<times> (nat \<times> output_on_chain) list) list"
  number_of_outputs :: "(nat \<times> nat) list"
  wanted_outputs :: "(nat \<times> nat list) list"

definition read_outputs :: "codecs \<Rightarrow> (nat \<times> nat list) list \<Rightarrow> bool \<Rightarrow> tables \<Rightarrow> output_cache db_result" where
  "read_outputs io request get_txid t =
     and_then (collect_results (\<lambda>(a, is). and_then (outputs_of_amount io get_txid a is t) (\<lambda>r. Ok (a, r))) request) (\<lambda>rs.
     Ok \<lparr>cached_outputs = map (\<lambda>(a, found, _). (a, found)) rs,
         number_of_outputs = map (\<lambda>(a, _). (a, amount_of_outs t a)) request,
         wanted_outputs = map (\<lambda>(a, _, wanted). (a, wanted)) rs\<rparr>)"

definition number_outputs_with_amount :: "nat list \<Rightarrow> tables \<Rightarrow> (nat \<times> nat) list" where
  "number_outputs_with_amount amounts t = map (\<lambda>a. (a, amount_of_outs t a)) amounts"

definition key_images_spent :: "bytes list \<Rightarrow> tables \<Rightarrow> bool" where
  "key_images_spent kis t = list_ex (\<lambda>ki. key_image_exists ki t) kis"

definition key_images_spent_vec :: "bytes list \<Rightarrow> tables \<Rightarrow> bool list" where
  "key_images_spent_vec kis t = map (\<lambda>ki. key_image_exists ki t) kis"

subsection \<open>Synchronisation\<close>

definition INITIAL_BLOCKS :: nat where
  "INITIAL_BLOCKS = 11"

definition compact_history_index_to_height_offset :: "nat \<Rightarrow> nat" where
  "compact_history_index_to_height_offset i =
     (if i \<le> INITIAL_BLOCKS then i else wsub 64 (wadd 64 INITIAL_BLOCKS (shl 64 2 ((i - INITIAL_BLOCKS) mod 64))) 2)"

definition is_power_of_two :: "nat \<Rightarrow> bool" where
  "is_power_of_two n = list_ex (\<lambda>k. n = 2 ^ k) [0..<64]"

definition compact_history_genesis_not_included :: "nat \<Rightarrow> bool" where
  "compact_history_genesis_not_included top_height \<longleftrightarrow>
     INITIAL_BLOCKS < top_height \<and> \<not> is_power_of_two (top_height - INITIAL_BLOCKS + 2)"

partial_function (option) compact_heights :: "nat \<Rightarrow> nat \<Rightarrow> nat list option" where
  "compact_heights tip i =
     (case checked_sub tip (compact_history_index_to_height_offset i) of
        None \<Rightarrow> Some []
      | Some h \<Rightarrow> Option.bind (compact_heights tip (i + 1)) (\<lambda>hs. Some (h # hs)))"

definition compact_chain_history :: "tables \<Rightarrow> (nat \<times> bytes list) db_result option" where
  "compact_chain_history t =
     (case top_block_height t of
        Inl e \<Rightarrow> Some (Err e)
      | Inr tip \<Rightarrow>
          (case get_block_info tip t of
             Inl e \<Rightarrow> Some (Err e)
           | Inr info \<Rightarrow>
               let cumulative_difficulty =
                     combine_low_high_bits_to_u128 (cumulative_difficulty_low info) (cumulative_difficulty_high info);
                   hash_at = (\<lambda>h. and_then (get_block_info h t) (\<lambda>info. Ok (bi_block_hash info)))
               in map_option (\<lambda>heights.
                    and_then (collect_results hash_at heights) (\<lambda>block_ids.
                    if compact_history_genesis_not_included tip
                    then and_then (hash_at 0) (\<lambda>genesis. Ok (cumulative_difficulty, block_ids @ [genesis]))
                    else Ok (cumulative_difficulty, block_ids)))
                  (compact_heights tip 0)))"

record chain_entry =
  ce_start_height :: "nat option"
  ce_chain_height :: nat
  ce_block_ids :: "bytes list"
  ce_block_weights :: "nat list"
  ce_cumulative_difficulty :: nat
  ce_first_block_blob :: "bytes option"

definition next_chain_entry :: "codecs \<Rightarrow> bytes list \<Rightarrow> nat \<Rightarrow> tables \<Rightarrow> chain_entry db_result" where
  "next_chain_entry io block_ids next_entry_size t =
     (let idx = find_split_point block_ids False False t in
      if idx = length block_ids
      then Ok \<lparr>ce_start_height = None, ce_chain_height = 0, ce_block_ids = [], ce_block_weights = [],
               ce_cumulative_difficulty = 0, ce_first_block_blob = None\<rparr>
      else
        and_then (get_block_height (block_ids ! idx) t) (\<lambda>first_known_height.
        let h = chain_height_of t;
            last_height = min (wadd 64 first_known_height next_entry_size) h
        in
        and_then (collect_results (\<lambda>height. and_then (get_block_info height t) (\<lambda>info. Ok (bi_block_hash info, bi_weight info)))
                    [first_known_height..<last_height]) (\<lambda>entries.
        and_then (get_block_info (wsub 64 h 1) t) (\<lambda>top_block_info.
        and_then
          (if 2 \<le> length entries
           then and_then (get_block_blob_with_tx_indexes io (first_known_height + 1) t) (\<lambda>(blob, _). Ok (Some blob))
           else Ok None) (\<lambda>first_block_blob.
        Ok \<lparr>ce_start_height = Some first_known_height, ce_chain_height = h, ce_block_ids = map fst entries,
            ce_block_weights = map snd entries,
            ce_cumulative_difficulty =
              combine_low_high_bits_to_u128 (cumulative_difficulty_low top_block_info) (cumulative_difficulty_high top_block_info),
            ce_first_block_blob = first_block_blob\<rparr>)))))"

definition find_first_unknown :: "bytes list \<Rightarrow> tables \<Rightarrow> (nat \<times> nat) option db_result" where
  "find_first_unknown block_ids t =
     (let idx = find_split_point block_ids True True t in
      if idx = length block_ids then Ok None
      else if idx = 0 then Ok (Some (0, 0))
      else and_then (get_block_height (block_ids ! (idx - 1)) t) (\<lambda>last_known_height.
           Ok (Some (idx, last_known_height + 1))))"

definition txs_in_block :: "codecs \<Rightarrow> bytes \<Rightarrow> nat list \<Rightarrow> tables \<Rightarrow> (bytes \<times> bytes list) option db_result" where
  "txs_in_block io hash missing_txs t =
     and_then (get_block_height hash t) (\<lambda>block_height.
     and_then (get_block_blob_with_tx_indexes io block_height t) (\<lambda>(blob, miner_tx_index, numb_txs).
     let first_tx_index = wadd 64 miner_tx_index 1 in
     if numb_txs < length missing_txs then Ok None
     else and_then (collect_results (\<lambda>offset. no_panic (tbl_get (tx_blobs t) (wadd 64 first_tx_index offset))) missing_txs) (\<lambda>txs.
          Ok (Some (blob, txs)))))"

text \<open>The last range of the history is the main chain's and is skipped; another one on the main chain panics.\<close>

definition alt_blocks_in_chain :: "codecs \<Rightarrow> nat \<Rightarrow> tables \<Rightarrow> alt_block_information list db_result option" where
  "alt_blocks_in_chain io chain_id t =
     map_option (\<lambda>r. and_then r (\<lambda>history.
       collect_results
         (\<lambda>ch. case fst ch of Main \<Rightarrow> Err Panic | Alt c \<Rightarrow> get_alt_block io (c, snd ch) t)
         (expand (tl (rev history)))))
     (get_alt_chain_history_ranges 0 (2 ^ 64 - 1) chain_id (alt_chain_infos t))"

definition total_rct_outputs :: "tables \<Rightarrow> nat" where
  "total_rct_outputs t = get_rct_num_outputs t"

definition tx_output_indexes :: "bytes \<Rightarrow> tables \<Rightarrow> nat list db_result" where
  "tx_output_indexes hash t =
     and_then (no_panic (tbl_get (tx_ids t) hash)) (\<lambda>tx_id. no_panic (tbl_get (tx_outputs t) tx_id))"

subsection \<open>The read service\<close>

datatype read_request =
  BlockCompleteEntries "bytes list"
| BlockCompleteEntriesByHeight "nat list"
| BlockExtendedHeader nat
| BlockHash nat chain
| BlockHashInRange nat nat chain
| FindBlock bytes
| FilterUnknownHashes "bytes list"
| BlockExtendedHeaderInRange nat nat chain
| ChainHeight
| GeneratedCoins nat
| Outputs "(nat \<times> nat list) list" bool
| OutputsVec "(nat \<times> nat) list" bool
| NumberOutputsWithAmount "nat list"
| KeyImagesSpent "bytes list"
| KeyImagesSpentVec "bytes list"
| CompactChainHistory
| NextChainEntry "bytes list" nat
| FindFirstUnknown "bytes list"
| TxsInBlock bytes "nat list"
| AltBlocksInChain nat
| Block nat
| BlockByHash bytes
| TotalTxCount
| DatabaseSize
| OutputHistogram
| CoinbaseTxSum nat nat
| AltChains
| AltChainCount
| Transactions "bytes list"
| TotalRctOutputs
| TxOutputIndexes bytes
| OutputDistribution

datatype read_response =
  RBlockCompleteEntries "block_complete_entry list" "bytes list" nat
| RBlockCompleteEntriesByHeight "block_complete_entry list"
| RBlockExtendedHeader ext_header
| RBlockHash bytes
| RBlockHashInRange "bytes list"
| RFindBlock "(chain \<times> nat) option"
| RFilterUnknownHashes "bytes list"
| RBlockExtendedHeaderInRange "ext_header list"
| RChainHeight nat bytes
| RGeneratedCoins nat
| ROutputs output_cache
| RNumberOutputsWithAmount "(nat \<times> nat) list"
| RKeyImagesSpent bool
| RKeyImagesSpentVec "bool list"
| RCompactChainHistory nat "bytes list"
| RNextChainEntry chain_entry
| RFindFirstUnknown "(nat \<times> nat) option"
| RTxsInBlock "(bytes \<times> bytes list) option"
| RAltBlocksInChain "alt_block_information list"
| RBlock block
| RTotalRctOutputs nat
| RTxOutputIndexes "nat list"

abbreviation answer :: "('a \<Rightarrow> 'b) \<Rightarrow> 'a db_result \<Rightarrow> 'b db_result option" where
  "answer f r \<equiv> Some (and_then r (\<lambda>x. Ok (f x)))"

abbreviation answer_walk :: "('a \<Rightarrow> 'b) \<Rightarrow> 'a db_result option \<Rightarrow> 'b db_result option" where
  "answer_walk f r \<equiv> map_option (\<lambda>r. and_then r (\<lambda>x. Ok (f x))) r"

definition map_request :: "codecs \<Rightarrow> read_request \<Rightarrow> tables \<Rightarrow> read_response db_result option" where
  "map_request io req t =
     (case req of
        BlockCompleteEntries hashes \<Rightarrow>
          answer (\<lambda>(missing, blocks). RBlockCompleteEntries blocks missing (chain_height_of t)) (block_complete_entries io hashes t)
      | BlockCompleteEntriesByHeight hs \<Rightarrow> answer RBlockCompleteEntriesByHeight (block_complete_entries_by_height io hs t)
      | BlockExtendedHeader h \<Rightarrow> answer RBlockExtendedHeader (get_block_extended_header_from_height io h t)
      | BlockHash h c \<Rightarrow> answer_walk RBlockHash (block_hash h c t)
      | BlockHashInRange a b c \<Rightarrow> answer_walk RBlockHashInRange (block_hash_in_range a b c t)
      | FindBlock hash \<Rightarrow> Some (Ok (RFindBlock (find_block hash t)))
      | FilterUnknownHashes hashes \<Rightarrow> Some (Ok (RFilterUnknownHashes (filter_unknown_hashes hashes t)))
      | BlockExtendedHeaderInRange a b c \<Rightarrow> answer_walk RBlockExtendedHeaderInRange (block_extended_header_in_range io a b c t)
      | ChainHeight \<Rightarrow> answer (\<lambda>(h, hash). RChainHeight h hash) (read_chain_height t)
      | GeneratedCoins h \<Rightarrow> answer RGeneratedCoins (generated_coins h t)
      | Outputs request get_txid \<Rightarrow> answer ROutputs (read_outputs io request get_txid t)
      | NumberOutputsWithAmount amounts \<Rightarrow> Some (Ok (RNumberOutputsWithAmount (number_outputs_with_amount amounts t)))
      | KeyImagesSpent kis \<Rightarrow> Some (Ok (RKeyImagesSpent (key_images_spent kis t)))
      | KeyImagesSpentVec kis \<Rightarrow> Some (Ok (RKeyImagesSpentVec (key_images_spent_vec kis t)))
      | CompactChainHistory \<Rightarrow> answer_walk (\<lambda>(d, ids). RCompactChainHistory d ids) (compact_chain_history t)
      | NextChainEntry ids n \<Rightarrow> answer RNextChainEntry (next_chain_entry io ids n t)
      | FindFirstUnknown ids \<Rightarrow> answer RFindFirstUnknown (find_first_unknown ids t)
      | TxsInBlock hash idxs \<Rightarrow> answer RTxsInBlock (txs_in_block io hash idxs t)
      | AltBlocksInChain c \<Rightarrow> answer_walk RAltBlocksInChain (alt_blocks_in_chain io c t)
      | Block h \<Rightarrow> answer RBlock (get_block io h t)
      | BlockByHash hash \<Rightarrow> answer RBlock (get_block_by_hash io hash t)
      | TotalRctOutputs \<Rightarrow> Some (Ok (RTotalRctOutputs (total_rct_outputs t)))
      | TxOutputIndexes hash \<Rightarrow> answer RTxOutputIndexes (tx_output_indexes hash t)
      | _ \<Rightarrow> Some (Err Panic))"

end
