(* ===== verification/Context_Caches.thy ===== *)
theory Context_Caches
  imports Store_Service Medians Tx_Rules
begin

text \<open>
  The caches of the blockchain context: \<^verbatim>\<open>src/consensus/context/src/difficulty.rs\<close>, \<^verbatim>\<open>weight.rs\<close> and \<^verbatim>\<open>hardforks.rs\<close>.

  The caches are generic over the database, a service that answers the read requests: here a function from requests to answers. An
  answer is \<open>None\<close> when the walk it needs does not end, otherwise a value, an error or a panic, and an answer of the wrong kind panics.
  Subtractions on heights and the sums wrap at their width where nothing bounds them; \<open>saturating_sub\<close> is the subtraction of natural
  numbers. The debug assertions of the source are not part of the release build.
\<close>

subsection \<open>Talking to the database\<close>

datatype context_cache_error = ConErr consensus_error | DBErr runtime_error

type_synonym 'a cache_result = "(context_cache_error fault + 'a) option"

type_synonym database = "read_request \<Rightarrow> read_response db_result option"

definition cbind :: "('e + 'a) option \<Rightarrow> ('a \<Rightarrow> ('e + 'b) option) \<Rightarrow> ('e + 'b) option" where
  "cbind r k = (case r of None \<Rightarrow> None | Some (Inl e) \<Rightarrow> Some (Inl e) | Some (Inr v) \<Rightarrow> k v)"

definition cok :: "'a \<Rightarrow> ('e + 'a) option" where
  "cok v = Some (Ok v)"

definition cunwrap :: "'a option \<Rightarrow> ('e fault + 'a) option" where
  "cunwrap x = Some (unwrap x)"

definition db_fault :: "runtime_error fault \<Rightarrow> context_cache_error fault" where
  "db_fault e = (case e of Panic \<Rightarrow> Panic | Fault r \<Rightarrow> Fault (DBErr r))"

definition query :: "database \<Rightarrow> read_request \<Rightarrow> (read_response \<Rightarrow> 'a option) \<Rightarrow> 'a cache_result" where
  "query db req sel = cbind (map_option (map_err db_fault) (db req)) (\<lambda>r. cunwrap (sel r))"

definition headers_in_range :: "database \<Rightarrow> nat \<Rightarrow> nat \<Rightarrow> chain \<Rightarrow> ext_header list cache_result" where
  "headers_in_range db start stop chain =
     query db (BlockExtendedHeaderInRange start stop chain)
       (\<lambda>r. case r of RBlockExtendedHeaderInRange hs \<Rightarrow> Some hs | _ \<Rightarrow> None)"

definition get_blocks_in_pow_info :: "database \<Rightarrow> nat \<Rightarrow> nat \<Rightarrow> chain \<Rightarrow> (nat list \<times> nat list) cache_result" where
  "get_blocks_in_pow_info db start stop chain =
     cbind (headers_in_range db start stop chain) (\<lambda>hs. cok (map eh_timestamp hs, map eh_cumulative_difficulty hs))"

definition get_blocks_weight_in_range :: "database \<Rightarrow> nat \<Rightarrow> nat \<Rightarrow> chain \<Rightarrow> nat list cache_result" where
  "get_blocks_weight_in_range db start stop chain =
     cbind (headers_in_range db start stop chain) (\<lambda>hs. cok (map eh_block_weight hs))"

definition get_long_term_weight_in_range :: "database \<Rightarrow> nat \<Rightarrow> nat \<Rightarrow> chain \<Rightarrow> nat list cache_result" where
  "get_long_term_weight_in_range db start stop chain =
     cbind (headers_in_range db start stop chain) (\<lambda>hs. cok (map eh_long_term_weight hs))"

definition get_votes_in_range :: "database \<Rightarrow> nat \<Rightarrow> nat \<Rightarrow> nat \<Rightarrow> hf_votes cache_result" where
  "get_votes_in_range db start stop w =
     cbind (headers_in_range db start stop Main) (\<lambda>hs.
     cok (foldl (\<lambda>v h. add_vote_for_hf v (from_vote (eh_vote h))) (hf_votes_new w) hs))"

subsection \<open>The difficulty cache\<close>

definition DIFFICULTY_WINDOW :: nat where
  "DIFFICULTY_WINDOW = 720"

definition DIFFICULTY_CUT :: nat where
  "DIFFICULTY_CUT = 60"

definition DIFFICULTY_LAG :: nat where
  "DIFFICULTY_LAG = 15"

record difficulty_cache_config =
  dc_window :: nat
  dc_cut :: nat
  dc_lag :: nat
  fixed_difficulty :: "nat option"

definition total_block_count :: "difficulty_cache_config \<Rightarrow> nat" where
  "total_block_count cfg = wadd 64 (dc_window cfg) (dc_lag cfg)"

definition accounted_window_len :: "difficulty_cache_config \<Rightarrow> nat" where
  "accounted_window_len cfg = wsub 64 (dc_window cfg) (wmul 64 2 (dc_cut cfg))"

definition difficulty_main_net :: difficulty_cache_config where
  "difficulty_main_net =
     \<lparr>dc_window = DIFFICULTY_WINDOW, dc_cut = DIFFICULTY_CUT, dc_lag = DIFFICULTY_LAG, fixed_difficulty = None\<rparr>"

record difficulty_cache =
  timestamps :: "nat list"
  cumulative_difficulties :: "nat list"
  last_accounted_height :: nat
  dc_config :: difficulty_cache_config

definition difficulty_init_from_chain_height ::
  "nat \<Rightarrow> difficulty_cache_config \<Rightarrow> database \<Rightarrow> chain \<Rightarrow> difficulty_cache cache_result" where
  "difficulty_init_from_chain_height height cfg db chain =
     (let block_start = height - total_block_count cfg;
          block_start = (if block_start = 0 then 1 else block_start)
      in cbind (get_blocks_in_pow_info db block_start height chain) (\<lambda>(ts, cds).
         cok \<lparr>timestamps = ts, cumulative_difficulties = cds, last_accounted_height = wsub 64 height 1, dc_config = cfg\<rparr>))"

definition difficulty_pop_blocks_main_chain :: "difficulty_cache \<Rightarrow> nat \<Rightarrow> database \<Rightarrow> difficulty_cache cache_result" where
  "difficulty_pop_blocks_main_chain c numb_blocks db =
     (case checked_sub (length (timestamps c)) numb_blocks of
        None \<Rightarrow>
          difficulty_init_from_chain_height (wadd 64 (wsub 64 (last_accounted_height c) numb_blocks) 1) (dc_config c) db Main
      | Some retained_blocks \<Rightarrow>
          let current_chain_height = wadd 64 (last_accounted_height c) 1;
              new_start_height = current_chain_height - total_block_count (dc_config c) - numb_blocks;
              new_start_height = (if new_start_height = 0 then 1 else new_start_height)
          in
          cbind (get_blocks_in_pow_info db new_start_height (wsub 64 current_chain_height (length (timestamps c))) Main) (\<lambda>(ts, cds).
          cbind (Some (assert (retained_blocks \<le> length (cumulative_difficulties c)))) (\<lambda>_.
          let ts = ts @ take retained_blocks (timestamps c);
              cds = cds @ take retained_blocks (cumulative_difficulties c)
          in
          cbind (Some (assert (length ts = length cds))) (\<lambda>_.
          cok (c\<lparr>timestamps := ts, cumulative_difficulties := cds,
                 last_accounted_height := wsub 64 (last_accounted_height c) numb_blocks\<rparr>)))))"

definition difficulty_new_block :: "difficulty_cache \<Rightarrow> nat \<Rightarrow> nat \<Rightarrow> nat \<Rightarrow> difficulty_cache option" where
  "difficulty_new_block c height timestamp cumulative_difficulty =
     (if wadd 64 (last_accounted_height c) 1 \<noteq> height then None
      else
        let ts = timestamps c @ [timestamp];
            cds = cumulative_difficulties c @ [cumulative_difficulty];
            full = total_block_count (dc_config c) < length ts
        in Some (c\<lparr>timestamps := (if full then tl ts else ts),
                   cumulative_difficulties := (if full then tl cds else cds),
                   last_accounted_height := wadd 64 (last_accounted_height c) 1\<rparr>))"

definition get_window_start_and_end :: "nat \<Rightarrow> nat \<Rightarrow> nat \<Rightarrow> nat \<times> nat" where
  "get_window_start_and_end window_len accounted_window w =
     (let window_len = (if w < window_len then w else window_len)
      in if window_len \<le> accounted_window then (0, window_len)
         else let start = div_ceil (window_len - accounted_window) 2 in (start, wadd 64 start accounted_window))"

text \<open>
  \<open>select_nth_unstable k\<close> finds the \<open>k\<close>-th smallest item, whatever the order it leaves the others in. Indices out of range panic.
\<close>

definition next_difficulty_in :: "difficulty_cache_config \<Rightarrow> nat list \<Rightarrow> nat list \<Rightarrow> hard_fork \<Rightarrow> nat option" where
  "next_difficulty_in cfg ts cds hf =
     (case fixed_difficulty cfg of
        Some d \<Rightarrow> Some d
      | None \<Rightarrow>
          if length ts \<le> 1 then Some 1
          else
            let ts = (if dc_window cfg < length ts then take (dc_window cfg) ts else ts);
                (window_start, window_end) = get_window_start_and_end (length ts) (accounted_window_len cfg) (dc_window cfg);
                top = wsub 64 window_end 1
            in
            if length ts \<le> top \<or> length ts \<le> window_start \<or> length cds \<le> top \<or> length cds \<le> window_start then None
            else
              let time_span = wsub 64 (sort ts ! top) (sort ts ! window_start);
                  windowed_work = wsub 128 (cds ! top) (cds ! window_start);
                  time_span = (if time_span = 0 then 1 else time_span)
              in Some (div_ceil (wmul 128 windowed_work (block_time hf)) time_span))"

definition difficulty_next_difficulty :: "difficulty_cache \<Rightarrow> hard_fork \<Rightarrow> nat option" where
  "difficulty_next_difficulty c hf = next_difficulty_in (dc_config c) (timestamps c) (cumulative_difficulties c) hf"

definition last_or_one :: "nat list \<Rightarrow> nat" where
  "last_or_one cds = (if cds = [] then 1 else last cds)"

fun next_difficulties_loop ::
  "difficulty_cache_config \<Rightarrow> nat list \<Rightarrow> nat list \<Rightarrow> nat \<Rightarrow> (nat \<times> hard_fork) list \<Rightarrow> nat list option" where
  "next_difficulties_loop cfg ts cds d [] = Some []"
| "next_difficulties_loop cfg ts cds d ((new_timestamp, hf) # blocks) =
     (let ts = ts @ [new_timestamp];
          cds = cds @ [wadd 128 (last_or_one cds) d];
          full = total_block_count cfg < length ts;
          ts = (if full then tl ts else ts);
          cds = (if full then tl cds else cds)
      in Option.bind (next_difficulty_in cfg ts cds hf) (\<lambda>d.
         Option.bind (next_difficulties_loop cfg ts cds d blocks) (\<lambda>ds. Some (d # ds))))"

definition next_difficulties :: "difficulty_cache \<Rightarrow> (nat \<times> hard_fork) list \<Rightarrow> hard_fork \<Rightarrow> nat list option" where
  "next_difficulties c blocks current_hf =
     Option.bind (difficulty_next_difficulty c current_hf) (\<lambda>d.
     Option.bind (next_difficulties_loop (dc_config c) (timestamps c) (cumulative_difficulties c) d blocks) (\<lambda>ds. Some (d # ds)))"

text \<open>The outer \<open>option\<close> is the panic of \<open>median\<close> on an empty slice.\<close>

definition median_timestamp :: "difficulty_cache \<Rightarrow> nat \<Rightarrow> nat option option" where
  "median_timestamp c numb_blocks =
     (if wadd 64 (last_accounted_height c) 1 = numb_blocks
      then map_option Some (median (sort (0 # timestamps c)))
      else case checked_sub (length (timestamps c)) numb_blocks of
             None \<Rightarrow> Some None
           | Some from \<Rightarrow> map_option Some (median (sort (drop from (timestamps c)))))"

definition cumulative_difficulty :: "difficulty_cache \<Rightarrow> nat" where
  "cumulative_difficulty c = last_or_one (cumulative_difficulties c)"

definition top_block_timestamp :: "difficulty_cache \<Rightarrow> nat option" where
  "top_block_timestamp c = (if timestamps c = [] then None else Some (last (timestamps c)))"

subsection \<open>The block weight cache\<close>

definition SHORT_TERM_WINDOW :: nat where
  "SHORT_TERM_WINDOW = 100"

definition LONG_TERM_WINDOW :: nat where
  "LONG_TERM_WINDOW = 100000"

record block_weights_cache_config =
  short_term_window :: nat
  long_term_window :: nat

definition weights_main_net :: block_weights_cache_config where
  "weights_main_net = \<lparr>short_term_window = SHORT_TERM_WINDOW, long_term_window = LONG_TERM_WINDOW\<rparr>"

record block_weights_cache =
  short_term_block_weights :: rolling_median
  long_term_weights :: rolling_median
  tip_height :: nat
  bw_config :: block_weights_cache_config

definition weights_init_from_chain_height ::
  "nat \<Rightarrow> block_weights_cache_config \<Rightarrow> database \<Rightarrow> chain \<Rightarrow> block_weights_cache cache_result" where
  "weights_init_from_chain_height height cfg db chain =
     cbind (get_long_term_weight_in_range db (height - long_term_window cfg) height chain) (\<lambda>long_term.
     cbind (get_blocks_weight_in_range db (height - short_term_window cfg) height chain) (\<lambda>short_term.
     cbind (cunwrap (rm_from_vec short_term (short_term_window cfg))) (\<lambda>short_term.
     cbind (cunwrap (rm_from_vec long_term (long_term_window cfg))) (\<lambda>long_term.
     cok \<lparr>short_term_block_weights = short_term, long_term_weights = long_term,
          tip_height = wsub 64 height 1, bw_config = cfg\<rparr>))))"

fun pop_both :: "nat \<Rightarrow> rolling_median \<times> rolling_median \<Rightarrow> (rolling_median \<times> rolling_median) option" where
  "pop_both 0 p = Some p"
| "pop_both (Suc n) (s, l) = Option.bind (rm_pop_back s) (\<lambda>s. Option.bind (rm_pop_back l) (\<lambda>l. pop_both n (s, l)))"

definition weights_pop_blocks_main_chain :: "block_weights_cache \<Rightarrow> nat \<Rightarrow> database \<Rightarrow> block_weights_cache cache_result" where
  "weights_pop_blocks_main_chain c numb_blocks db =
     (if rm_window_len (long_term_weights c) \<le> numb_blocks
      then weights_init_from_chain_height (wadd 64 (wsub 64 (tip_height c) numb_blocks) 1) (bw_config c) db Main
      else
        let chain_height = wadd 64 (tip_height c) 1 in
        cbind (get_long_term_weight_in_range db (chain_height - wadd 64 (long_term_window (bw_config c)) numb_blocks)
                 (wsub 64 chain_height (rm_window_len (long_term_weights c))) Main) (\<lambda>old_long_term.
        cbind (get_blocks_weight_in_range db (chain_height - wadd 64 (short_term_window (bw_config c)) numb_blocks)
                 (min (wsub 64 chain_height (rm_window_len (short_term_block_weights c))) (wsub 64 chain_height numb_blocks))
                 Main) (\<lambda>old_short_term.
        cbind (cunwrap (pop_both numb_blocks (short_term_block_weights c, long_term_weights c))) (\<lambda>(short_term, long_term).
        cbind (cunwrap (rm_append_front long_term old_long_term)) (\<lambda>long_term.
        cbind (cunwrap (rm_append_front short_term old_short_term)) (\<lambda>short_term.
        cok (c\<lparr>short_term_block_weights := short_term, long_term_weights := long_term,
               tip_height := wsub 64 (tip_height c) numb_blocks\<rparr>)))))))"

definition weights_new_block :: "block_weights_cache \<Rightarrow> nat \<Rightarrow> nat \<Rightarrow> nat \<Rightarrow> block_weights_cache option" where
  "weights_new_block c block_height block_weight long_term_weight =
     (if wadd 64 (tip_height c) 1 \<noteq> block_height then None
      else Option.bind (rm_push (long_term_weights c) long_term_weight) (\<lambda>long_term.
           Option.bind (rm_push (short_term_block_weights c) block_weight) (\<lambda>short_term.
           Some (c\<lparr>short_term_block_weights := short_term, long_term_weights := long_term,
                   tip_height := wadd 64 (tip_height c) 1\<rparr>))))"

definition median_long_term_weight :: "block_weights_cache \<Rightarrow> nat option" where
  "median_long_term_weight c = rm_median (long_term_weights c)"

definition median_short_term_weight :: "block_weights_cache \<Rightarrow> nat option" where
  "median_short_term_weight c = rm_median (short_term_block_weights c)"

definition calculate_effective_median_block_weight :: "hard_fork \<Rightarrow> nat \<Rightarrow> nat \<Rightarrow> nat" where
  "calculate_effective_median_block_weight hf short_term_weight long_term_weight =
     (if hf < V10 then max short_term_weight (penalty_free_zone hf)
      else
        let long_term_median = max long_term_weight PENALTY_FREE_ZONE_5;
            short_term_median = short_term_weight;
            effective_median =
              (if V10 \<le> hf \<and> hf < V15
               then min (max PENALTY_FREE_ZONE_5 short_term_median) (wmul 64 50 long_term_median)
               else min (max long_term_median short_term_median) (wmul 64 50 long_term_median))
        in max effective_median (penalty_free_zone hf))"

definition effective_median_block_weight :: "block_weights_cache \<Rightarrow> hard_fork \<Rightarrow> nat option" where
  "effective_median_block_weight c hf =
     Option.bind (median_short_term_weight c) (\<lambda>short_term.
     Option.bind (median_long_term_weight c) (\<lambda>long_term.
     Some (calculate_effective_median_block_weight hf short_term long_term)))"

definition median_for_block_reward :: "block_weights_cache \<Rightarrow> hard_fork \<Rightarrow> nat option" where
  "median_for_block_reward c hf =
     map_option (\<lambda>m. max m (penalty_free_zone hf))
       (if hf < V12 then median_short_term_weight c else effective_median_block_weight c hf)"

definition calculate_block_long_term_weight :: "hard_fork \<Rightarrow> nat \<Rightarrow> nat \<Rightarrow> nat" where
  "calculate_block_long_term_weight hf block_weight long_term_median =
     (if hf < V10 then block_weight
      else
        let long_term_median = max (penalty_free_zone hf) long_term_median;
            (short_term_constraint, adjusted_block_weight) =
              (if V10 \<le> hf \<and> hf < V15
               then (wadd 64 long_term_median (wmul 64 long_term_median 2 div 5), block_weight)
               else (wadd 64 long_term_median (wmul 64 long_term_median 7 div 10),
                     max block_weight (wmul 64 long_term_median 10 div 17)))
        in min short_term_constraint adjusted_block_weight)"

subsection \<open>The hard-fork state\<close>

definition DEFAULT_WINDOW_SIZE :: nat where
  "DEFAULT_WINDOW_SIZE = 10080"

record hard_fork_config =
  hfc_info :: hfs_info
  hfc_window :: nat

definition hard_fork_main_net :: hard_fork_config where
  "hard_fork_main_net = \<lparr>hfc_info = hfs_main_net, hfc_window = DEFAULT_WINDOW_SIZE\<rparr>"

definition hard_fork_stage_net :: hard_fork_config where
  "hard_fork_stage_net = \<lparr>hfc_info = hfs_stage_net, hfc_window = DEFAULT_WINDOW_SIZE\<rparr>"

definition hard_fork_test_net :: hard_fork_config where
  "hard_fork_test_net = \<lparr>hfc_info = hfs_test_net, hfc_window = DEFAULT_WINDOW_SIZE\<rparr>"

record hard_fork_state =
  current_hardfork :: hard_fork
  hf_config :: hard_fork_config
  hf_votes_of :: hf_votes
  last_height :: nat

definition check_set_new_hf :: "hard_fork_state \<Rightarrow> hard_fork_state" where
  "check_set_new_hf s =
     s\<lparr>current_hardfork :=
         current_fork (hf_votes_of s) (current_hardfork s) (wadd 64 (last_height s) 1) (hfc_window (hf_config s)) (hfc_info (hf_config s))\<rparr>"

definition hard_fork_init_from_chain_height :: "nat \<Rightarrow> hard_fork_config \<Rightarrow> database \<Rightarrow> hard_fork_state cache_result" where
  "hard_fork_init_from_chain_height height cfg db =
     cbind (get_votes_in_range db (height - hfc_window cfg) height (hfc_window cfg)) (\<lambda>votes.
     cbind (query db (BlockExtendedHeader (wsub 64 height 1)) (\<lambda>r. case r of RBlockExtendedHeader h \<Rightarrow> Some h | _ \<Rightarrow> None)) (\<lambda>ext_header.
     cok (check_set_new_hf
            \<lparr>current_hardfork = eh_version ext_header, hf_config = cfg, hf_votes_of = votes, last_height = wsub 64 height 1\<rparr>)))"

definition hard_fork_pop_blocks_main_chain :: "hard_fork_state \<Rightarrow> nat \<Rightarrow> database \<Rightarrow> hard_fork_state cache_result" where
  "hard_fork_pop_blocks_main_chain s numb_blocks db =
     (case checked_sub (total_votes (hf_votes_of s)) (hfc_window (hf_config s)) of
        None \<Rightarrow> hard_fork_init_from_chain_height (wsub 64 (wadd 64 (last_height s) 1) numb_blocks) (hf_config s) db
      | Some retained_blocks \<Rightarrow>
          let current_chain_height = wadd 64 (last_height s) 1 in
          cbind (get_votes_in_range db (current_chain_height - hfc_window (hf_config s) - numb_blocks)
                   (current_chain_height - numb_blocks - retained_blocks) numb_blocks) (\<lambda>oldest_votes.
          cbind (cunwrap (reverse_blocks (hf_votes_of s) numb_blocks oldest_votes)) (\<lambda>votes.
          cok (s\<lparr>hf_votes_of := votes, last_height := wsub 64 (last_height s) numb_blocks\<rparr>))))"

definition hard_fork_new_block :: "hard_fork_state \<Rightarrow> hard_fork \<Rightarrow> nat \<Rightarrow> hard_fork_state option" where
  "hard_fork_new_block s vote height =
     (if wadd 64 (last_height s) 1 \<noteq> height then None
      else Some (check_set_new_hf
                   (s\<lparr>hf_votes_of := add_vote_for_hf (hf_votes_of s) vote, last_height := wadd 64 (last_height s) 1\<rparr>)))"

end
