(* ===== verification/Context_Laws.thy ===== *)
theory Context_Laws
  imports Context_Caches
begin

text \<open>
  Laws of the context caches. What a cache should hold for a chain is a function of the chain's headers (\<open>difficulty_at\<close>,
  \<open>weights_at\<close>, \<open>hard_fork_at\<close>): the cache of the code refines it, whether it was built from the database, moved on by new blocks or moved
  back by popping them.

  The locale \<open>chain_reader\<close> is what the caches rely on of the database: a range of headers of a chain is a slice of that chain's history.
  It is interpreted on the requests of the storage engine, for the main chain and for alternative chains.
\<close>

subsection \<open>Lists\<close>

lemma last_n_refill:
  assumes "n \<le> min w (length xs)"
  shows "slice (length xs - (w + n)) (length xs - min w (length xs)) xs @ take (min w (length xs) - n) (last_n w xs) =
    last_n w (take (length xs - n) xs)"
proof -
  let ?L = "length xs"
  have "min ?L (?L - w + (min w ?L - n)) = ?L - n"
    using assms by (cases "w \<le> ?L") auto
  then have "take (min w ?L - n) (last_n w xs) = slice (?L - w) (?L - n) xs"
    by (simp add: last_n_slice take_slice)
  moreover have "?L - min w ?L = ?L - w"
    by simp
  moreover have "slice (?L - (w + n)) (?L - w) xs @ slice (?L - w) (?L - n) xs = slice (?L - (w + n)) (?L - n) xs"
    using assms by (intro slice_append_slice) auto
  moreover have "last_n w (take (?L - n) xs) = slice (?L - (w + n)) (?L - n) xs"
    by (simp add: last_n_def slice_def add.commute)
  ultimately show ?thesis
    by simp
qed

lemma last_n_map: "last_n n (map f xs) = map f (last_n n xs)"
  by (simp add: last_n_def drop_map)

lemma tl_take: "tl (take n xs) = take (n - 1) (tl xs)"
  by (cases xs; cases n) simp_all

lemma slice_tl: "slice s e (tl xs) = slice (Suc s) (Suc e) xs"
  by (cases xs) (simp_all add: slice_def)

lemma cbind_simps [simp]:
  "cbind None k = None" "cbind (Some (Inl e)) k = Some (Inl e)" "cbind (Some (Inr v)) k = k v" "cbind (cok v) k = k v"
  by (simp_all add: cbind_def cok_def)

lemma cunwrap_simps [simp]: "cunwrap None = Some (Inl Panic)" "cunwrap (Some v) = cok v"
  by (simp_all add: cunwrap_def cok_def)

lemma cok_inject [simp]: "cok a = cok b \<longleftrightarrow> a = b"
  by (simp add: cok_def)

lemma query_Ok: "db req = Some (Ok r) \<Longrightarrow> query db req sel = cunwrap (sel r)"
  by (simp add: query_def)

subsection \<open>What the caches should hold\<close>

definition difficulty_at :: "difficulty_cache_config \<Rightarrow> ext_header list \<Rightarrow> difficulty_cache" where
  "difficulty_at cfg hs =
     \<lparr>timestamps = map eh_timestamp (last_n (total_block_count cfg) (tl hs)),
      cumulative_difficulties = map eh_cumulative_difficulty (last_n (total_block_count cfg) (tl hs)),
      last_accounted_height = length hs - 1, dc_config = cfg\<rparr>"

definition rm_of :: "nat \<Rightarrow> nat list \<Rightarrow> rolling_median" where
  "rm_of t xs = \<lparr>window = last_n t xs, sorted_window = sort (last_n t xs), target_window = t\<rparr>"

definition weights_at :: "block_weights_cache_config \<Rightarrow> ext_header list \<Rightarrow> block_weights_cache" where
  "weights_at cfg hs =
     \<lparr>short_term_block_weights = rm_of (short_term_window cfg) (map eh_block_weight hs),
      long_term_weights = rm_of (long_term_window cfg) (map eh_long_term_weight hs),
      tip_height = length hs - 1, bw_config = cfg\<rparr>"

definition votes_at :: "nat \<Rightarrow> ext_header list \<Rightarrow> hf_votes" where
  "votes_at w hs = foldl add_vote_for_hf (hf_votes_new w) (map (\<lambda>h. from_vote (eh_vote h)) hs)"

definition hard_fork_at :: "hard_fork_config \<Rightarrow> ext_header list \<Rightarrow> hard_fork_state" where
  "hard_fork_at cfg hs =
     \<lparr>current_hardfork =
        current_fork (votes_at (hfc_window cfg) hs) (eh_version (last hs)) (length hs) (hfc_window cfg) (hfc_info cfg),
      hf_config = cfg, hf_votes_of = votes_at (hfc_window cfg) hs, last_height = length hs - 1\<rparr>"

lemma rm_of_simps [simp]:
  "window (rm_of t xs) = last_n t xs" "target_window (rm_of t xs) = t" "rm_wf (rm_of t xs)"
  by (simp_all add: rm_of_def rm_wf_def)

lemma rm_eq_rm_of: "rm_wf m \<Longrightarrow> target_window m = t \<Longrightarrow> window m = last_n t xs \<Longrightarrow> m = rm_of t xs"
  by (rule rm_wf_eqI) simp_all

lemma votes_at_wf:
  "votes_wf (votes_at w hs)" "vote_list (votes_at w hs) = last_n w (map (\<lambda>h. from_vote (eh_vote h)) hs)"
  "window_size (votes_at w hs) = w"
  using add_votes [OF votes_wf_new] by (simp_all add: votes_at_def hf_votes_new_def)

lemma votes_wf_eqI:
  "votes_wf a \<Longrightarrow> votes_wf b \<Longrightarrow> vote_list a = vote_list b \<Longrightarrow> window_size a = window_size b \<Longrightarrow> (a :: hf_votes) = b"
  by (simp add: votes_wf_def)

lemma votes_at_last_n: "votes_at w (last_n w hs) = votes_at w hs"
  by (rule votes_wf_eqI) (simp_all add: votes_at_wf last_n_map last_n_all)

subsection \<open>The cache moves on with a new block\<close>

lemma last_n_push:
  "(if t < length (last_n t xs @ [x]) then tl (last_n t xs @ [x]) else last_n t xs @ [x]) = last_n t (xs @ [x])"
proof (cases "t \<le> length xs")
  case True
  then have "tl (drop (length xs - t) xs @ [x]) = drop (Suc (length xs - t)) (xs @ [x])"
    by (cases t) (auto simp: drop_Suc tl_append drop_tl split: list.split)
  with True show ?thesis
    by (simp add: last_n_def Suc_diff_le)
qed (simp add: last_n_def)

lemma difficulty_new_block_at:
  assumes "hs \<noteq> []" "length hs < 2 ^ 64"
  shows "difficulty_new_block (difficulty_at cfg hs) (length hs) (eh_timestamp h) (eh_cumulative_difficulty h) =
    Some (difficulty_at cfg (hs @ [h]))"
proof -
  let ?t = "total_block_count cfg"
  have push: "(if ?t < length (map f (last_n ?t (tl hs)) @ [f h]) then tl (map f (last_n ?t (tl hs)) @ [f h])
      else map f (last_n ?t (tl hs)) @ [f h]) = map f (last_n ?t (tl hs @ [h]))" for f :: "ext_header \<Rightarrow> nat"
    using last_n_push [of ?t "map f (tl hs)" "f h"] unfolding last_n_map [symmetric] map_append list.map .
  have "wadd 64 (length hs - 1) 1 = length hs"
    using assms by (cases hs) (simp_all add: wadd_exact)
  then show ?thesis
    using assms(1) push [of eh_timestamp] push [of eh_cumulative_difficulty]
    by (simp add: difficulty_new_block_def difficulty_at_def Let_def split: if_splits)
qed

lemma height_step: "hs \<noteq> [] \<Longrightarrow> length hs < 2 ^ 64 \<Longrightarrow> wadd 64 (length hs - 1) 1 = length hs"
  by (cases hs) (simp_all add: wadd_exact)

lemma rm_push_rm_of: "0 < t \<Longrightarrow> rm_push (rm_of t xs) x = Some (rm_of t (xs @ [x]))"
  using rm.push_law [of "rm_of t xs" x] rm_eq_rm_of [of _ t "xs @ [x]"] by (auto simp: last_n_last_n)

lemma weights_new_block_at:
  assumes "hs \<noteq> []" "length hs < 2 ^ 64" "0 < short_term_window cfg" "0 < long_term_window cfg"
  shows "weights_new_block (weights_at cfg hs) (length hs) (eh_block_weight h) (eh_long_term_weight h) =
    Some (weights_at cfg (hs @ [h]))"
  using assms height_step [of hs]
  by (simp add: weights_new_block_def weights_at_def rm_push_rm_of)

lemma hard_fork_new_block_at:
  assumes "hs \<noteq> []" "length hs < 2 ^ 64 - 1" "eh_version h = current_hardfork (hard_fork_at cfg hs)"
  shows "hard_fork_new_block (hard_fork_at cfg hs) (from_vote (eh_vote h)) (length hs) = Some (hard_fork_at cfg (hs @ [h]))"
  using assms height_step [of hs] height_step [of "hs @ [h]"]
  by (simp add: hard_fork_new_block_def hard_fork_at_def check_set_new_hf_def votes_at_def)

subsection \<open>Popping a rolling median and refilling it\<close>

lemma pop_both_eq:
  "pop_both n (s, l) = Option.bind (rm.pops n s) (\<lambda>s. Option.bind (rm.pops n l) (\<lambda>l. Some (s, l)))"
proof (induction n arbitrary: s l)
  case (Suc n)
  show ?case
    by (cases "rm_pop_back s"; cases "rm_pop_back l") (simp_all add: Suc split: Option.bind_split)
qed simp

lemma rm_refill:
  assumes "n \<le> length xs"
  shows "\<exists>m. rm.pops n (rm_of w xs) = Some m \<and>
    rm_append_front m (slice (length xs - (w + n)) (min (length xs - min w (length xs)) (length xs - n)) xs) =
      Some (rm_of w (take (length xs - n) xs))"
proof -
  let ?L = "length xs" and ?m = "rm_of w xs"
  let ?ys = "slice (?L - (w + n)) (min (?L - min w ?L) (?L - n)) xs"
  obtain m where m: "rm.pops n ?m = Some m"
    using rm.pops_items [of ?m n] by auto
  have ys: "?ys @ take (min w ?L - n) (last_n w xs) = last_n w (take (?L - n) xs)"
  proof (cases "n \<le> min w ?L")
    case True
    then have "min (?L - min w ?L) (?L - n) = ?L - min w ?L"
      by (intro min_absorb1 diff_le_mono2)
    with last_n_refill [OF True] show ?thesis
      by simp
  next
    case False
    then have "min (?L - min w ?L) (?L - n) = ?L - n" "min w ?L - n = 0"
      using assms by auto
    then show ?thesis
      by (simp add: last_n_def slice_def add.commute)
  qed
  have "length ?ys + (min w ?L - n) = length (last_n w (take (?L - n) xs))"
    by (subst ys [symmetric]) (simp del: length_slice)
  then have "length ?ys + (min w ?L - n) \<le> w"
    by (simp del: length_slice)
  then obtain m' where "rm_append_front m ?ys = Some m'" "rm_wf m'" "target_window m' = w"
    "window m' = last_n w (take (?L - n) xs)"
    using rm.pops_append_front [of ?m ?ys n] m ys by (auto simp del: length_slice)
  moreover from this have "m' = rm_of w (take (?L - n) xs)"
    by (intro rm_eq_rm_of)
  ultimately show ?thesis
    using m by simp
qed

subsection \<open>What the caches rely on of the database\<close>

locale chain_reader =
  fixes db :: "'t \<Rightarrow> database"
    and covers :: "'t \<Rightarrow> chain \<Rightarrow> nat \<Rightarrow> bool"
    and history :: "'t \<Rightarrow> chain \<Rightarrow> ext_header list"
  assumes covers_length: "covers t ch e \<Longrightarrow> e \<le> length (history t ch)"
    and covers_prefix: "covers t Main e \<Longrightarrow> e' \<le> e \<Longrightarrow> covers t Main e'"
    and range_law: "covers t ch e \<Longrightarrow> s \<le> e \<Longrightarrow> headers_in_range (db t) s e ch = cok (slice s e (history t ch))"
begin

lemma difficulty_init:
  assumes "covers t ch e" "0 < e" "e < 2 ^ 64"
  shows "difficulty_init_from_chain_height e cfg (db t) ch = cok (difficulty_at cfg (take e (history t ch)))"
proof -
  let ?n = "total_block_count cfg" and ?hs = "take e (history t ch)"
  define s where "s = (if e - ?n = 0 then 1 else e - ?n)"
  have len: "length ?hs = e"
    using covers_length [OF assms(1)] by simp
  have "last_n ?n (tl ?hs) = drop s ?hs"
    using len assms(2) by (simp add: last_n_def s_def drop_Suc [symmetric] drop_tl Suc_diff_Suc)
  moreover have "s \<le> e"
    using assms(2) by (simp add: s_def)
  ultimately show ?thesis
    using range_law [OF assms(1), of s] assms(2,3) len
    unfolding difficulty_init_from_chain_height_def Let_def s_def [symmetric]
    by (simp add: get_blocks_in_pow_info_def difficulty_at_def slice_def wsub_exact)
qed

lemma weights_init:
  assumes "covers t ch e" "0 < e" "e < 2 ^ 64"
  shows "weights_init_from_chain_height e cfg (db t) ch = cok (weights_at cfg (take e (history t ch)))"
proof -
  have len: "length (take e (history t ch)) = e"
    using covers_length [OF assms(1)] by simp
  have from_vec: "rm_from_vec (map f (slice (e - w) e (history t ch))) w = Some (rm_of w (map f (take e (history t ch))))"
    for w and f :: "ext_header \<Rightarrow> nat"
  proof -
    have "e - (e - w) \<le> w"
      by simp
    then show ?thesis
      using len by (simp add: rm_from_vec_def rm_of_def last_n_map last_n_def slice_def drop_map)
  qed
  show ?thesis
    using range_law [OF assms(1)] assms(2,3) len
    by (simp add: weights_init_from_chain_height_def get_long_term_weight_in_range_def get_blocks_weight_in_range_def
        from_vec weights_at_def wsub_exact)
qed

text \<open>Popping \<open>n\<close> blocks, with the database already moved back: its main chain agrees below the new height.\<close>

lemma range_before:
  assumes "covers t Main m" "take m (history t Main) = take m hs" "s \<le> e" "e \<le> m"
  shows "headers_in_range (db t) s e Main = cok (slice s e hs)"
  using range_law [OF covers_prefix [OF assms(1,4)] assms(3)] assms(2) slice_take [OF assms(4)] by metis

lemma difficulty_pop:
  assumes covers: "covers t Main (length hs - n)" and same: "take (length hs - n) (history t Main) = take (length hs - n) hs"
    and n: "n < length hs" "length hs < 2 ^ 64"
  shows "difficulty_pop_blocks_main_chain (difficulty_at cfg hs) n (db t) = cok (difficulty_at cfg (take (length hs - n) hs))"
proof -
  let ?L = "length hs" and ?w = "total_block_count cfg"
  have "hs \<noteq> []"
    using n by auto
  obtain M where M: "?L = Suc M" "length (tl hs) = M"
    using \<open>hs \<noteq> []\<close> by (cases hs) simp_all
  have lens: "length (timestamps (difficulty_at cfg hs)) = min ?w M" "last_accounted_height (difficulty_at cfg hs) = M"
    "dc_config (difficulty_at cfg hs) = cfg" "wadd 64 M 1 = ?L" "wsub 64 M n = M - n"
    using n height_step [of hs] \<open>hs \<noteq> []\<close> M by (simp_all add: difficulty_at_def wsub_exact)
  show ?thesis
  proof (cases "n \<le> min ?w M")
    case False
    then have "checked_sub (min ?w M) n = None" "wadd 64 (M - n) 1 = ?L - n"
      using n M by (auto simp: checked_sub_def wadd_exact Suc_diff_le)
    then have "difficulty_pop_blocks_main_chain (difficulty_at cfg hs) n (db t) = difficulty_init_from_chain_height (?L - n) cfg (db t) Main"
      unfolding difficulty_pop_blocks_main_chain_def lens by simp
    then show ?thesis
      using difficulty_init [OF covers] n same by simp
  next
    case True
    define s where "s = (if ?L - ?w - n = 0 then 1 else ?L - ?w - n)"
    have s: "s = Suc (M - (?w + n))"
      using M(1) by (auto simp: s_def)
    have e: "?L - min ?w M = Suc (M - min ?w M)" "wsub 64 ?L (min ?w M) = ?L - min ?w M"
      using n M(1) by (simp_all add: wsub_exact)
    have "headers_in_range (db t) s (?L - min ?w M) Main = cok (slice s (?L - min ?w M) hs)"
      using True M(1) by (intro range_before [OF covers same]) (auto simp: s e)
    then have range: "headers_in_range (db t) s (?L - min ?w M) Main = cok (slice (M - (?w + n)) (M - min ?w M) (tl hs))"
      by (simp only: s e slice_tl)
    have refill: "map f (slice (M - (?w + n)) (M - min ?w M) (tl hs)) @ take (min ?w M - n) (map f (last_n ?w (tl hs))) =
        map f (last_n ?w (tl (take (?L - n) hs)))" for f :: "ext_header \<Rightarrow> nat"
      using last_n_refill [of n ?w "tl hs"] True M n unfolding M(2) by (simp add: take_map tl_take flip: map_append)
    have keep: "min ?w M - n \<le> ?w" "min ?w M - n \<le> length hs - Suc 0"
      using M(1) by auto
    have "difficulty_pop_blocks_main_chain (difficulty_at cfg hs) n (db t) =
        cbind (get_blocks_in_pow_info (db t) s (?L - min ?w M) Main) (\<lambda>(ts, cds).
        cbind (Some (assert (length (ts @ take (min ?w M - n) (map eh_timestamp (last_n ?w (tl hs)))) =
            length (cds @ take (min ?w M - n) (map eh_cumulative_difficulty (last_n ?w (tl hs))))))) (\<lambda>_.
        cok \<lparr>timestamps = ts @ take (min ?w M - n) (map eh_timestamp (last_n ?w (tl hs))),
            cumulative_difficulties = cds @ take (min ?w M - n) (map eh_cumulative_difficulty (last_n ?w (tl hs))),
            last_accounted_height = M - n, dc_config = cfg\<rparr>))"
      using True unfolding difficulty_pop_blocks_main_chain_def Let_def lens checked_sub_def e s_def [symmetric]
      by (simp add: difficulty_at_def keep)
    moreover have "length (take (?L - n) hs) - 1 = M - n"
      using M(1) n by simp
    ultimately show ?thesis
      unfolding get_blocks_in_pow_info_def range
      by (simp add: difficulty_at_def refill [of eh_timestamp] refill [of eh_cumulative_difficulty])
  qed
qed

lemma weights_pop:
  assumes covers: "covers t Main (length hs - n)" and same: "take (length hs - n) (history t Main) = take (length hs - n) hs"
    and n: "n < length hs" "long_term_window cfg + length hs < 2 ^ 64" "short_term_window cfg + length hs < 2 ^ 64"
  shows "weights_pop_blocks_main_chain (weights_at cfg hs) n (db t) = cok (weights_at cfg (take (length hs - n) hs))"
proof -
  let ?L = "length hs" and ?l = "long_term_window cfg" and ?s = "short_term_window cfg"
  have "hs \<noteq> []"
    using n by auto
  have lens: "rm_window_len (long_term_weights (weights_at cfg hs)) = min ?l ?L"
    "rm_window_len (short_term_block_weights (weights_at cfg hs)) = min ?s ?L"
    "tip_height (weights_at cfg hs) = ?L - 1" "bw_config (weights_at cfg hs) = cfg"
    "wadd 64 (?L - 1) 1 = ?L" "wsub 64 (?L - 1) n = ?L - 1 - n" "wadd 64 ?l n = ?l + n" "wadd 64 ?s n = ?s + n"
    "wsub 64 ?L n = ?L - n" "wsub 64 ?L (min ?l ?L) = ?L - min ?l ?L" "wsub 64 ?L (min ?s ?L) = ?L - min ?s ?L"
    using n height_step [of hs] \<open>hs \<noteq> []\<close> by (simp_all add: weights_at_def rm_window_len_def wsub_exact wadd_exact)
  show ?thesis
  proof (cases "min ?l ?L \<le> n")
    case True
    then have "weights_pop_blocks_main_chain (weights_at cfg hs) n (db t) = weights_init_from_chain_height (?L - n) cfg (db t) Main"
      using n by (simp only: weights_pop_blocks_main_chain_def lens) (simp add: wadd_exact Suc_diff_Suc)
    then show ?thesis
      using weights_init [OF covers] n same by simp
  next
    case False
    let ?es = "min (?L - min ?s ?L) (?L - n)" and ?el = "?L - min ?l ?L"
    have el: "min ?el (?L - n) = ?el"
      using False by (intro min_absorb1 diff_le_mono2) linarith
    have ranges: "headers_in_range (db t) (?L - (?l + n)) ?el Main = cok (slice (?L - (?l + n)) ?el hs)"
      "headers_in_range (db t) (?L - (?s + n)) ?es Main = cok (slice (?L - (?s + n)) ?es hs)"
      using False by (auto intro!: range_before [OF covers same])
    obtain s where s: "rm.pops n (rm_of ?s (map eh_block_weight hs)) = Some s"
      "rm_append_front s (map eh_block_weight (slice (?L - (?s + n)) ?es hs)) = Some (rm_of ?s (map eh_block_weight (take (?L - n) hs)))"
      using rm_refill [of n "map eh_block_weight hs" ?s] n(1) by (auto simp: slice_map take_map)
    obtain l where l: "rm.pops n (rm_of ?l (map eh_long_term_weight hs)) = Some l"
      "rm_append_front l (map eh_long_term_weight (slice (?L - (?l + n)) ?el hs)) = Some (rm_of ?l (map eh_long_term_weight (take (?L - n) hs)))"
      using rm_refill [of n "map eh_long_term_weight hs" ?l] n(1) el by (auto simp: slice_map take_map)
    show ?thesis
      unfolding weights_pop_blocks_main_chain_def lens Let_def get_long_term_weight_in_range_def get_blocks_weight_in_range_def ranges
      using False s l by (simp add: weights_at_def pop_both_eq)
  qed
qed

end

text \<open>On the main chain also single headers, hashes and the generated coins are read.\<close>

locale main_chain_reader = chain_reader db covers history
  for db :: "'t \<Rightarrow> database" and covers :: "'t \<Rightarrow> chain \<Rightarrow> nat \<Rightarrow> bool" and history :: "'t \<Rightarrow> chain \<Rightarrow> ext_header list" +
  fixes hash_of :: "'t \<Rightarrow> nat \<Rightarrow> bytes"
    and coins_of :: "'t \<Rightarrow> nat \<Rightarrow> nat"
  assumes header_law: "covers t Main e \<Longrightarrow> i < e \<Longrightarrow> db t (BlockExtendedHeader i) = Some (Ok (RBlockExtendedHeader (history t Main ! i)))"
    and hash_law: "covers t Main e \<Longrightarrow> i < e \<Longrightarrow> db t (BlockHash i Main) = Some (Ok (RBlockHash (hash_of t i)))"
    and coins_law: "covers t Main e \<Longrightarrow> i < e \<Longrightarrow> db t (GeneratedCoins i) = Some (Ok (RGeneratedCoins (coins_of t i)))"
begin

lemma votes_in_range:
  assumes "covers t Main e" "s \<le> e"
  shows "get_votes_in_range (db t) s e w = cok (votes_at w (slice s e (history t Main)))"
  using range_law [OF assms] by (simp add: get_votes_in_range_def votes_at_def foldl_map)

lemma hard_fork_init:
  assumes "covers t Main e" "0 < e" "e < 2 ^ 64"
  shows "hard_fork_init_from_chain_height e cfg (db t) = cok (hard_fork_at cfg (take e (history t Main)))"
proof -
  let ?hs = "take e (history t Main)" and ?w = "hfc_window cfg"
  have len: "length ?hs = e"
    using covers_length [OF assms(1)] by simp
  then have "slice (e - ?w) e (history t Main) = last_n ?w ?hs"
    by (simp add: slice_def last_n_def)
  then have votes: "get_votes_in_range (db t) (e - ?w) e ?w = cok (votes_at ?w ?hs)"
    using votes_in_range [OF assms(1), of "e - ?w" ?w] by (simp add: votes_at_last_n)
  have "last ?hs = history t Main ! (e - 1)"
    using len assms(2) last_conv_nth [of ?hs] by (cases "?hs = []") auto
  then show ?thesis
    using votes header_law [OF assms(1), of "e - 1"] assms(2,3) len
    by (simp add: hard_fork_init_from_chain_height_def query_def cunwrap_def hard_fork_at_def check_set_new_hf_def wsub_exact wadd_exact)
qed

text \<open>While the window of votes is not full, popping builds the state anew.\<close>

lemma hard_fork_pop_not_full:
  assumes covers: "covers t Main (length hs - n)" and same: "take (length hs - n) (history t Main) = take (length hs - n) hs"
    and n: "n < length hs" "length hs < 2 ^ 64" "length hs < hfc_window cfg"
  shows "hard_fork_pop_blocks_main_chain (hard_fork_at cfg hs) n (db t) = cok (hard_fork_at cfg (take (length hs - n) hs))"
proof -
  have "hs \<noteq> []"
    using n by auto
  have "checked_sub (total_votes (votes_at (hfc_window cfg) hs)) (hfc_window cfg) = None"
    using n(3) by (simp add: checked_sub_def total_votes_def votes_at_wf)
  then have "hard_fork_pop_blocks_main_chain (hard_fork_at cfg hs) n (db t) = hard_fork_init_from_chain_height (length hs - n) cfg (db t)"
    using n height_step [OF \<open>hs \<noteq> []\<close>] by (simp add: hard_fork_pop_blocks_main_chain_def hard_fork_at_def wsub_exact)
  then show ?thesis
    using hard_fork_init [OF covers] n same by simp
qed

text \<open>With a full window the refilled votes are the newest of the range read, not the oldest, and the fork stays.\<close>

lemma hard_fork_pop_full:
  assumes covers: "covers t Main (length hs - n)" and same: "take (length hs - n) (history t Main) = take (length hs - n) hs"
    and n: "n \<le> hfc_window cfg" "hfc_window cfg \<le> length hs" "n < length hs" "length hs < 2 ^ 64"
  defines "vs \<equiv> map (\<lambda>h. from_vote (eh_vote h)) hs"
  shows "\<exists>s. hard_fork_pop_blocks_main_chain (hard_fork_at cfg hs) n (db t) = cok s \<and>
    current_hardfork s = current_hardfork (hard_fork_at cfg hs) \<and> last_height s = length hs - 1 - n \<and> hf_config s = cfg \<and>
    votes_wf (hf_votes_of s) \<and> window_size (hf_votes_of s) = hfc_window cfg \<and>
    vote_list (hf_votes_of s) =
      last_n n (slice (length hs - hfc_window cfg - n) (length hs - n) vs) @ slice (length hs - hfc_window cfg) (length hs - n) vs"
proof -
  let ?L = "length hs" and ?w = "hfc_window cfg"
  let ?old = "votes_at n (slice (?L - ?w - n) (?L - n) hs)"
  have "hs \<noteq> []"
    using n by auto
  have "slice (?L - ?w - n) (?L - n) (history t Main) = slice (?L - ?w - n) (?L - n) hs"
    using slice_take [of "?L - n" "?L - n"] same by (metis order_refl)
  then have range: "get_votes_in_range (db t) (?L - ?w - n) (?L - n) n = cok ?old"
    using votes_in_range [OF covers, of "?L - ?w - n" n] by simp
  have len: "length (vote_list (votes_at ?w hs)) = ?w"
    using n by (simp add: votes_at_wf)
  have keep: "take (?w - n) (vote_list (votes_at ?w hs)) = slice (?L - ?w) (?L - n) vs"
    using n by (simp add: votes_at_wf vs_def last_n_slice take_slice min_absorb2)
  have "checked_sub (total_votes (votes_at ?w hs)) ?w = Some 0"
    by (simp add: checked_sub_def total_votes_def len)
  moreover have "\<exists>v. reverse_blocks (votes_at ?w hs) n ?old = Some v \<and>
      vote_list v = vote_list ?old @ slice (?L - ?w) (?L - n) vs \<and> votes_wf v \<and> window_size v = ?w"
    using reverse_blocks_eq [OF votes_at_wf(1), of n ?w hs ?old] n len keep by (simp add: votes_at_wf votes_wf_def)
  ultimately show ?thesis
    using height_step [OF \<open>hs \<noteq> []\<close>] n range
    by (auto simp: hard_fork_pop_blocks_main_chain_def hard_fork_at_def wsub_exact votes_at_wf vs_def slice_map Let_def)
qed

end

subsection \<open>The storage engine as a chain reader\<close>

text \<open>
  The headers of a chain as the storage engine has them: those of the main chain by height; those of an alternative chain by height,
  each from the chain that holds the height.
\<close>

fun store_db :: "codecs \<times> tables \<Rightarrow> database" where
  "store_db (io, t) = (\<lambda>req. map_request io req t)"

fun chain_heights :: "tables \<Rightarrow> chain \<Rightarrow> (chain \<times> nat) list" where
  "chain_heights t Main = map (Pair Main) [0..<chain_height_of t]"
| "chain_heights t (Alt c) =
     (case map_of (alt_chain_infos t) c of
        Some info \<Rightarrow> map (\<lambda>h. (chain_at h c (alt_chain_infos t), h)) [0..<aci_chain_height info]
      | None \<Rightarrow> [])"

fun store_history :: "codecs \<times> tables \<Rightarrow> chain \<Rightarrow> ext_header list" where
  "store_history (io, t) ch = (case collect_results (header_on_chain io t) (chain_heights t ch) of Inr hs \<Rightarrow> hs | Inl _ \<Rightarrow> [])"

fun store_covers :: "codecs \<times> tables \<Rightarrow> chain \<Rightarrow> nat \<Rightarrow> bool" where
  "store_covers (io, t) ch e \<longleftrightarrow>
     is_ok (collect_results (header_on_chain io t) (chain_heights t ch)) \<and> db_ok t \<and> e \<le> length (chain_heights t ch) \<and>
     (case ch of
        Main \<Rightarrow> True
      | Alt c \<Rightarrow> infos_ok (alt_chain_infos t) \<and> list_ex (\<lambda>(c', info). c' = c \<and> common_ancestor_height info < e \<and>
                   map_of (alt_chain_infos t) c = Some info) (alt_chain_infos t))"

fun store_hash :: "codecs \<times> tables \<Rightarrow> nat \<Rightarrow> bytes" where
  "store_hash (io, t) i = bi_block_hash (snd (block_infos t ! i))"

fun store_coins :: "codecs \<times> tables \<Rightarrow> nat \<Rightarrow> nat" where
  "store_coins (io, t) i = cumulative_generated_coins (snd (block_infos t ! i))"

lemma collect_results_slice:
  "collect_results f xs = Inr ys \<Longrightarrow> collect_results f (slice s e xs) = Inr (slice s e ys)"
  by (simp add: collect_results_Ok slice_def list_all2_takeI list_all2_dropI)

lemma collect_results_length: "collect_results f xs = Inr ys \<Longrightarrow> length ys = length xs"
  by (auto simp: collect_results_Ok dest: list_all2_lengthD)

lemma slice_map_upt: "e \<le> n \<Longrightarrow> slice s e (map f [0..<n]) = map f [s..<e]"
  by (simp add: slice_def take_map drop_map)

lemma store_range:
  assumes "store_covers (io, t) ch e" "s \<le> e"
  shows "headers_in_range (store_db (io, t)) s e ch = cok (slice s e (store_history (io, t) ch))"
proof -
  obtain hs where hs: "collect_results (header_on_chain io t) (chain_heights t ch) = Inr hs"
    using assms(1) by (auto simp: is_ok_iff)
  note part = collect_results_slice [OF hs, of s e]
  have "block_extended_header_in_range io s e ch t = Some (Ok (slice s e hs))"
  proof (cases ch)
    case Main
    then show ?thesis
      using part assms(1)
      by (simp add: block_extended_header_in_range_def slice_map_upt collect_results_comp header_on_chain_def)
  next
    case (Alt c)
    then obtain info where info: "map_of (alt_chain_infos t) c = Some info" "common_ancestor_height info < e"
      "e \<le> aci_chain_height info" "infos_ok (alt_chain_infos t)"
      using assms(1) by (auto simp: list_ex_iff split: option.splits)
    obtain rs where rs: "get_alt_chain_history_ranges s e c (alt_chain_infos t) = Some (Ok rs)"
      "expand (rev rs) = map (\<lambda>h. (chain_at h c (alt_chain_infos t), h)) [s..<e]"
      using history_ranges_spec [OF info(4,1-3)] by (auto simp: get_alt_chain_history_ranges_def)
    then show ?thesis
      using Alt part info by (simp add: block_extended_header_in_range_def slice_map_upt)
  qed
  then show ?thesis
    by (simp add: headers_in_range_def query_def cunwrap_def map_request_def hs cok_def)
qed

lemma store_covers_get:
  assumes "store_covers (io, t) Main e" "i < e"
  shows "get_block_extended_header_from_height io i t = Ok (store_history (io, t) Main ! i)"
    and "tbl_get (block_infos t) i = Ok (snd (block_infos t ! i))"
proof -
  obtain hs where hs: "collect_results (header_on_chain io t) (chain_heights t Main) = Inr hs"
    using assms(1) by (auto simp: is_ok_iff)
  have i: "i < chain_height_of t"
    using assms by simp
  then have "header_on_chain io t (map (Pair Main) [0..<chain_height_of t] ! i) = Ok (hs ! i)"
    using hs list_all2_nthD [of "\<lambda>x y. header_on_chain io t x = Inr y" "map (Pair Main) [0..<chain_height_of t]" hs i]
    by (simp add: collect_results_Ok)
  then show "get_block_extended_header_from_height io i t = Ok (store_history (io, t) Main ! i)"
    using i hs by (simp add: header_on_chain_def)
  have ok: "db_ok t"
    using assms(1) by simp
  then have "i < length (block_infos t)" "ids_ok (block_infos t)"
    using i by (simp_all add: db_ok_height) (simp add: db_ok_def)
  then show "tbl_get (block_infos t) i = Ok (snd (block_infos t ! i))"
    by (intro ids_ok_get)
qed

interpretation store: main_chain_reader store_db store_covers store_history store_hash store_coins
proof
  fix s :: "codecs \<times> tables" and ch e e' i
  obtain io t where s: "s = (io, t)"
    by (cases s)
  show "e \<le> length (store_history s ch)" if "store_covers s ch e"
    using that by (cases "collect_results (header_on_chain io t) (chain_heights t ch)")
      (auto simp: s dest: collect_results_length)
  show "store_covers s Main e'" if "store_covers s Main e" "e' \<le> e"
    using that by (simp add: s)
  show "headers_in_range (store_db s) n e ch = cok (slice n e (store_history s ch))" if "store_covers s ch e" "n \<le> e" for n
    unfolding s using that by (intro store_range) (simp_all add: s)
  assume c: "store_covers s Main e" "i < e"
  note get = store_covers_get [OF c [unfolded s]]
  show "store_db s (BlockExtendedHeader i) = Some (Ok (RBlockExtendedHeader (store_history s Main ! i)))"
    using get(1) by (simp add: s map_request_def)
  show "store_db s (BlockHash i Main) = Some (Ok (RBlockHash (store_hash s i)))"
    using get(2) by (simp add: s map_request_def block_hash_def get_block_info_def)
  show "store_db s (GeneratedCoins i) = Some (Ok (RGeneratedCoins (store_coins s i)))"
    using get(2) by (simp add: s map_request_def generated_coins_def cumulative_generated_coins_at_def)
qed

end
