(* ===== verification/Rx_Cache.thy ===== *)
theory Rx_Cache
  imports Context_Laws
begin

text \<open>
  The cache of RandomX virtual machines: \<^verbatim>\<open>src/consensus/context/src/rx_vms.rs\<close>. A virtual machine is made from a seed hash by the
  RandomX library: the argument \<open>new_vm\<close>, which is \<open>None\<close> when the library reports an error; the code unwraps it. The map of virtual
  machines is an association list with one entry per height.

  The laws: which seeds the cache holds for a chain, that new blocks move them on, and when popping blocks does.
\<close>

subsection \<open>The cache\<close>

definition RX_SEEDS_CACHED :: nat where
  "RX_SEEDS_CACHED = 2"

record 'vm rx_vm_cache =
  seeds :: "(nat \<times> bytes) list"
  vms :: "(nat \<times> 'vm) list"
  cached_vm :: "(bytes \<times> 'vm) option"

definition map_insert :: "'k \<Rightarrow> 'v \<Rightarrow> ('k \<times> 'v) list \<Rightarrow> ('k \<times> 'v) list" where
  "map_insert k v m = (k, v) # filter (\<lambda>p. fst p \<noteq> k) m"

fun rx_seed_loop :: "nat \<Rightarrow> nat \<Rightarrow> nat list" where
  "rx_seed_loop 0 h = []"
| "rx_seed_loop (Suc n) h =
     (if h = 0 then []
      else let seed_height = (h - 1) AND (2 ^ 64 - 1 - (RX_SEEDHASH_EPOCH_BLOCKS - 1))
           in seed_height # rx_seed_loop n seed_height)"

definition get_last_rx_seed_heights :: "nat \<Rightarrow> nat \<Rightarrow> nat list" where
  "get_last_rx_seed_heights h n =
     (if is_randomx_seed_height h then h # rx_seed_loop (wsub 64 n 1) h
      else rx_seed_loop n h)"

fun get_block_hashes :: "database \<Rightarrow> nat list \<Rightarrow> bytes list cache_result" where
  "get_block_hashes db [] = cok []"
| "get_block_hashes db (height # heights) =
     cbind (query db (BlockHash height Main) (\<lambda>r. case r of RBlockHash h \<Rightarrow> Some h | _ \<Rightarrow> None)) (\<lambda>hash.
     cbind (get_block_hashes db heights) (\<lambda>hashes. cok (hash # hashes)))"

fun make_vms :: "(bytes \<Rightarrow> 'vm option) \<Rightarrow> (nat \<times> bytes) list \<Rightarrow> (nat \<times> 'vm) list \<Rightarrow> (nat \<times> 'vm) list option" where
  "make_vms new_vm [] m = Some m"
| "make_vms new_vm ((height, seed) # rest) m = Option.bind (new_vm seed) (\<lambda>vm. make_vms new_vm rest (map_insert height vm m))"

definition rx_init_from_chain_height ::
  "(bytes \<Rightarrow> 'vm option) \<Rightarrow> nat \<Rightarrow> hard_fork \<Rightarrow> database \<Rightarrow> 'vm rx_vm_cache cache_result" where
  "rx_init_from_chain_height new_vm height hf db =
     (let seed_heights = get_last_rx_seed_heights (wsub 64 height 1) RX_SEEDS_CACHED in
      cbind (get_block_hashes db seed_heights) (\<lambda>seed_hashes.
      let seeds = zip seed_heights seed_hashes in
      cbind (if V12 \<le> hf then cunwrap (make_vms new_vm seeds []) else cok []) (\<lambda>vms.
      cok \<lparr>seeds = seeds, vms = vms, cached_vm = None\<rparr>)))"

definition add_vm :: "'vm rx_vm_cache \<Rightarrow> bytes \<times> 'vm \<Rightarrow> 'vm rx_vm_cache" where
  "add_vm c vm = c\<lparr>cached_vm := Some vm\<rparr>"

definition get_alt_vm :: "(bytes \<Rightarrow> 'vm option) \<Rightarrow> 'vm rx_vm_cache \<Rightarrow> nat \<Rightarrow> chain \<Rightarrow> database \<Rightarrow> 'vm cache_result" where
  "get_alt_vm new_vm c height chain db =
     cbind (query db (BlockHash (randomx_seed_height height) chain) (\<lambda>r. case r of RBlockHash h \<Rightarrow> Some h | _ \<Rightarrow> None)) (\<lambda>seed_hash.
     case find (\<lambda>(_, vm_seed_hash). vm_seed_hash = seed_hash) (seeds c) of
       Some (vm_main_chain_height, _) \<Rightarrow>
         (case map_of (vms c) vm_main_chain_height of
            Some vm \<Rightarrow> cok vm
          | None \<Rightarrow> cunwrap (new_vm seed_hash))
     | None \<Rightarrow> cunwrap (new_vm seed_hash))"

definition get_vms :: "(bytes \<Rightarrow> 'vm option) \<Rightarrow> 'vm rx_vm_cache \<Rightarrow> ('vm rx_vm_cache \<times> (nat \<times> 'vm) list) option" where
  "get_vms new_vm c =
     map_option (\<lambda>c. (c, vms c))
       (case checked_sub (length (seeds c)) (length (vms c)) of
          Some 0 \<Rightarrow> Some c
        | Some (Suc 0) \<Rightarrow>
            (case seeds c of
               [] \<Rightarrow> None
             | (seed_height, next_seed_hash) # _ \<Rightarrow>
                 map_option (\<lambda>vm. c\<lparr>vms := map_insert seed_height vm (vms c), cached_vm := None\<rparr>)
                   (case cached_vm c of
                      Some (cached_hash, cached) \<Rightarrow> if cached_hash = next_seed_hash then Some cached else new_vm next_seed_hash
                    | None \<Rightarrow> new_vm next_seed_hash))
        | _ \<Rightarrow> map_option (\<lambda>m. c\<lparr>vms := m\<rparr>) (make_vms new_vm (seeds c) []))"

definition rx_retain :: "'vm rx_vm_cache \<Rightarrow> nat \<Rightarrow> 'vm rx_vm_cache" where
  "rx_retain c new_height =
     c\<lparr>seeds := filter (\<lambda>(height, _). height < new_height) (seeds c),
       vms := filter (\<lambda>(height, _). height < new_height) (vms c)\<rparr>"

definition rx_pop_blocks_main_chain :: "'vm rx_vm_cache \<Rightarrow> nat \<Rightarrow> database \<Rightarrow> 'vm rx_vm_cache cache_result" where
  "rx_pop_blocks_main_chain c new_height db =
     (let c = rx_retain c new_height
      in if length (seeds c) < RX_SEEDS_CACHED
         then let heights = get_last_rx_seed_heights new_height RX_SEEDS_CACHED in
              cbind (Some (assert (length (seeds c) \<le> length heights))) (\<lambda>_.
              let seed_heights = drop (length (seeds c)) heights in
              cbind (get_block_hashes db seed_heights) (\<lambda>seed_hashes.
              cok (c\<lparr>seeds := seeds c @ zip seed_heights seed_hashes\<rparr>)))
         else cok c)"

definition rx_new_block :: "'vm rx_vm_cache \<Rightarrow> nat \<Rightarrow> bytes \<Rightarrow> 'vm rx_vm_cache" where
  "rx_new_block c height hash =
     (if is_randomx_seed_height height
      then let seeds' = (height, hash) # seeds c in
           if RX_SEEDS_CACHED < length seeds'
           then c\<lparr>seeds := butlast seeds', vms := filter (\<lambda>(h, _). h \<in> set (map fst (butlast seeds'))) (vms c)\<rparr>
           else c\<lparr>seeds := seeds'\<rparr>
      else c)"

subsection \<open>Which seeds the cache should hold\<close>

text \<open>The newest two seed heights not above \<open>h\<close>.\<close>

definition newest_seed_heights :: "nat \<Rightarrow> nat list" where
  "newest_seed_heights h =
     (let k = h div 2048 in if k = 0 then [0] else [2048 * k, 2048 * (k - 1)])"

definition seeds_at :: "(nat \<Rightarrow> bytes) \<Rightarrow> nat \<Rightarrow> (nat \<times> bytes) list" where
  "seeds_at hash_of h = map (\<lambda>i. (i, hash_of i)) (newest_seed_heights h)"

lemma seed_step:
  assumes "h < 2 ^ 64"
  shows "(h - 1) AND (2 ^ 64 - 1 - (RX_SEEDHASH_EPOCH_BLOCKS - 1)) = 2048 * ((h - 1) div 2048)"
  using assms and_clear_low_bits [of "h - 1" 64 11] by (simp add: RX_SEEDHASH_EPOCH_BLOCKS_def minus_mod_eq_mult_div)

lemma seed_loop_multiple:
  assumes "2048 * k < 2 ^ 64"
  shows "rx_seed_loop (Suc 0) (2048 * k) = (if k = 0 then [] else [2048 * (k - 1)])"
proof (cases k)
  case (Suc j)
  have "2048 * Suc j - 1 = 2047 + j * 2048"
    by simp
  then have "(2048 * Suc j - 1) div 2048 = j"
    by simp
  then have "(2048 * k - 1) AND (2 ^ 64 - 1 - (RX_SEEDHASH_EPOCH_BLOCKS - 1)) = 2048 * (k - 1)"
    using assms seed_step [of "2048 * k"] by (simp only: Suc diff_Suc_1)
  then show ?thesis
    by (simp only: rx_seed_loop.simps Let_def) (simp add: Suc)
qed simp

lemma get_last_rx_seed_heights_eq:
  assumes "h < 2 ^ 64"
  shows "get_last_rx_seed_heights h RX_SEEDS_CACHED = newest_seed_heights h"
proof (cases "h mod 2048 = 0")
  case True
  then have h: "h = 2048 * (h div 2048)"
    by (simp add: div_mult_mod_eq mult.commute dvd_eq_mod_eq_0)
  have "wsub 64 2 1 = Suc 0"
    by (simp add: wsub_exact)
  then show ?thesis
    using True assms h seed_loop_multiple [of "h div 2048"]
    by (simp add: get_last_rx_seed_heights_def is_randomx_seed_height_def RX_SEEDHASH_EPOCH_BLOCKS_def RX_SEEDS_CACHED_def
        newest_seed_heights_def Let_def)
next
  case False
  have "h \<noteq> 0"
    using False by (cases h) simp_all
  moreover from this False have "(h - 1) div 2048 = h div 2048"
    using div_Suc [of "h - 1" 2048] by simp
  moreover have "2048 * (h div 2048) < 2 ^ 64"
    using assms by (meson le_less_trans times_div_less_eq_dividend)
  ultimately have "rx_seed_loop (Suc (Suc 0)) h = newest_seed_heights h"
    using seed_step [OF assms] seed_loop_multiple [of "h div 2048"]
    by (simp only: rx_seed_loop.simps(2) [of "Suc 0"] Let_def if_False newest_seed_heights_def) simp
  then show ?thesis
    using False by (simp add: get_last_rx_seed_heights_def is_randomx_seed_height_def RX_SEEDHASH_EPOCH_BLOCKS_def RX_SEEDS_CACHED_def
        numeral_2_eq_2)
qed

text \<open>
  Popping goes wrong when the new top block is itself a seed block, not the genesis block, and the old top block was of the same epoch.
\<close>

definition pops_to_own_seed :: "nat \<Rightarrow> nat \<Rightarrow> bool" where
  "pops_to_own_seed h h' \<longleftrightarrow> 0 < h' \<and> h' mod 2048 = 0 \<and> h div 2048 = h' div 2048"

lemma newest_seed_heights_below:
  assumes "h' \<le> h"
  shows "filter (\<lambda>i. i < h') (newest_seed_heights h) =
    (if pops_to_own_seed h h' then [h' - 2048]
     else take (length (filter (\<lambda>i. i < h') (newest_seed_heights h))) (newest_seed_heights h'))"
proof -
  obtain k r where h': "h' = r + 2048 * k" "r < 2048" "h' div 2048 = k" "h' mod 2048 = r"
    by (metis mod_less_divisor mod_mult_div_eq zero_less_numeral)
  define K where "K = h div 2048"
  have "k \<le> K"
    using div_le_mono [OF assms, of 2048] h'(3) by (simp add: K_def)
  then consider "K = k" | "K = Suc k" | d where "K = Suc (Suc (k + d))"
    using less_iff_Suc_add [of k K] by (metis add.right_neutral add_Suc_right le_neq_implies_less not0_implies_Suc)
  then show ?thesis
  proof cases
    case 1
    then show ?thesis
      using h' by (cases k; cases "r = 0") (simp_all add: newest_seed_heights_def pops_to_own_seed_def Let_def flip: K_def)
  next
    case 2
    then show ?thesis
      using h' by (cases "r = 0"; cases k) (simp_all add: newest_seed_heights_def pops_to_own_seed_def Let_def flip: K_def)
  next
    case 3
    then show ?thesis
      using h' by (simp add: newest_seed_heights_def pops_to_own_seed_def Let_def flip: K_def)
  qed
qed

lemma newest_seed_heights_bounds:
  "\<forall>i \<in> set (newest_seed_heights h). i \<le> h" "length (newest_seed_heights h) \<le> RX_SEEDS_CACHED"
  using times_div_less_eq_dividend [of 2048 h]
  by (auto simp: newest_seed_heights_def Let_def RX_SEEDS_CACHED_def diff_mult_distrib2)

lemma seed_height_multiple: "h mod 2048 = 0 \<Longrightarrow> 0 < h \<Longrightarrow> \<exists>k. h = 2048 * k \<and> 0 < (k::nat)"
  by (auto simp: mod_eq_0_iff_dvd elim!: dvdE)

lemma seeds_at_filter:
  "filter (\<lambda>(height, _). height < n) (seeds_at hash_of h) = map (\<lambda>i. (i, hash_of i)) (filter (\<lambda>i. i < n) (newest_seed_heights h))"
  by (simp add: seeds_at_def filter_map comp_def)

lemma zip_map_same: "zip xs (map f xs) = map (\<lambda>x. (x, f x)) xs"
  by (simp add: zip_map2 zip_same_conv_map)

lemma rx_new_block_seeds:
  assumes "0 < h" "seeds c = seeds_at hash_of (h - 1)"
  shows "seeds (rx_new_block c h hash) = seeds_at (hash_of(h := hash)) h"
proof (cases "h mod 2048 = 0")
  case False
  then have "h div 2048 = (h - 1) div 2048"
    using div_Suc [of "h - 1" 2048] assms(1) by simp
  then have same: "newest_seed_heights h = newest_seed_heights (h - 1)"
    by (simp add: newest_seed_heights_def)
  have "h \<notin> set (newest_seed_heights (h - 1))"
    using newest_seed_heights_bounds(1) [of "h - 1"] assms(1) by auto
  then show ?thesis
    using False assms(2)
    by (auto simp: rx_new_block_def is_randomx_seed_height_def RX_SEEDHASH_EPOCH_BLOCKS_def seeds_at_def same)
next
  case True
  obtain k where k: "h = 2048 * k" "0 < k"
    using seed_height_multiple [OF True assms(1)] by blast
  have "(h - 1) div 2048 = k - 1"
    using div_Suc [of "h - 1" 2048] assms(1) True k by simp
  then have "newest_seed_heights (h - 1) = (if k = 1 then [0] else [2048 * (k - 1), 2048 * (k - 2)])"
    using k by (auto simp: newest_seed_heights_def Let_def)
  moreover have "newest_seed_heights h = [2048 * k, 2048 * (k - 1)]"
    using k by (simp add: newest_seed_heights_def)
  ultimately show ?thesis
    using True k assms(2)
    by (auto simp: rx_new_block_def is_randomx_seed_height_def RX_SEEDHASH_EPOCH_BLOCKS_def RX_SEEDS_CACHED_def seeds_at_def Let_def)
qed

context main_chain_reader
begin

lemma block_hashes:
  assumes "covers t Main e" "\<forall>i \<in> set is. i < e"
  shows "get_block_hashes (db t) is = cok (map (hash_of t) is)"
  using assms(2) by (induction "is") (simp_all add: query_def hash_law [OF assms(1)])

lemma rx_init:
  assumes "covers t Main e" "0 < e" "e < 2 ^ 64" "hf < V12 \<or> (\<forall>s. new_vm s \<noteq> None)"
  shows "\<exists>c :: 'vm rx_vm_cache. rx_init_from_chain_height new_vm e hf (db t) = cok c \<and> seeds c = seeds_at (hash_of t) (e - 1) \<and> cached_vm c = None"
proof -
  have heights: "get_last_rx_seed_heights (wsub 64 e 1) RX_SEEDS_CACHED = newest_seed_heights (e - 1)"
    using assms(2,3) get_last_rx_seed_heights_eq [of "e - 1"] by (simp add: wsub_exact)
  have "\<forall>i \<in> set (newest_seed_heights (e - 1)). i < e"
    using newest_seed_heights_bounds(1) [of "e - 1"] assms(2) by auto
  note hashes = block_hashes [OF assms(1) this]
  have "\<exists>m. make_vms new_vm xs m0 = Some m" if vm: "\<forall>s. new_vm s \<noteq> None" for xs m0
  proof (induction xs arbitrary: m0)
    case (Cons x xs)
    obtain vm where "new_vm (snd x) = Some vm"
      using vm by auto
    with Cons show ?case
      by (cases x) simp
  qed simp
  then have "\<exists>m. (if V12 \<le> hf then cunwrap (make_vms new_vm (seeds_at (hash_of t) (e - 1)) []) else cok []) =
      (cok m :: (nat \<times> 'vm) list cache_result)"
    using assms(4) not_le [of V12 hf] by (metis cunwrap_simps(2))
  then obtain m where m: "(if V12 \<le> hf then cunwrap (make_vms new_vm (seeds_at (hash_of t) (e - 1)) []) else cok []) =
      (cok m :: (nat \<times> 'vm) list cache_result)"
    by blast
  have "rx_init_from_chain_height new_vm e hf (db t) = cok \<lparr>seeds = seeds_at (hash_of t) (e - 1), vms = m, cached_vm = None\<rparr>"
    unfolding rx_init_from_chain_height_def heights Let_def hashes cbind_simps zip_map_same seeds_at_def [symmetric] m ..
  then show ?thesis
    by simp
qed

text \<open>The seeds after popping to the top height \<open>h'\<close>.\<close>

lemma rx_pop:
  assumes covers: "covers t Main (Suc h')" and le: "h' \<le> h" "h < 2 ^ 64"
    and c: "seeds c = seeds_at hash h" and same: "\<forall>i \<le> h'. hash i = hash_of t i"
  shows "\<exists>c'. rx_pop_blocks_main_chain c h' (db t) = cok c' \<and>
    seeds c' = (if pops_to_own_seed h h' then replicate 2 (h' - 2048, hash (h' - 2048)) else seeds_at hash h')"
proof -
  let ?new = "newest_seed_heights h'" and ?pair = "\<lambda>i. (i, hash i)"
  define kept where "kept = filter (\<lambda>i. i < h') (newest_seed_heights h)"
  have kept: "kept = (if pops_to_own_seed h h' then [h' - 2048] else take (length kept) ?new)"
    unfolding kept_def by (rule newest_seed_heights_below [OF le(1)])
  have new: "\<forall>i \<in> set ?new. i \<le> h'" "length ?new \<le> RX_SEEDS_CACHED"
    by (rule newest_seed_heights_bounds)+
  have hashes: "get_block_hashes (db t) (drop n ?new) = cok (map hash (drop n ?new))" for n
  proof -
    have "\<forall>i \<in> set (drop n ?new). i < Suc h'"
      using new(1) in_set_dropD by (fastforce simp: less_Suc_eq_le)
    moreover from this have "map hash (drop n ?new) = map (hash_of t) (drop n ?new)"
      using same by (auto simp: less_Suc_eq_le)
    ultimately show ?thesis
      using block_hashes [OF covers] by simp
  qed
  have heights: "get_last_rx_seed_heights h' RX_SEEDS_CACHED = ?new"
    using le by (intro get_last_rx_seed_heights_eq) simp
  have bad: "?new = [h', h' - 2048]" if own: "pops_to_own_seed h h'"
  proof -
    have "h' mod 2048 = 0" "0 < h'"
      using own by (simp_all add: pops_to_own_seed_def)
    then obtain j where j: "h' = 2048 * Suc j"
      using seed_height_multiple [of h'] Suc_pred' by metis
    then have "h' div 2048 = Suc j"
      by simp
    then show ?thesis
      by (simp add: newest_seed_heights_def) (simp add: j)
  qed
  have len: "length kept \<le> length ?new"
  proof (cases "pops_to_own_seed h h'")
    case True
    then have "kept = [h' - 2048]"
      using kept by simp
    with bad [OF True] show ?thesis
      by simp
  next
    case False
    with kept have "length kept = length (take (length kept) ?new)"
      by simp
    then show ?thesis
      by simp
  qed
  define d where "d = c\<lparr>seeds := map ?pair kept, vms := filter (\<lambda>(height, _). height < h') (vms c)\<rparr>"
  have d: "seeds d = map ?pair kept"
    by (simp add: d_def)
  have step: "rx_pop_blocks_main_chain c h' (db t) =
      (if length kept < RX_SEEDS_CACHED then cok (d\<lparr>seeds := map ?pair (kept @ drop (length kept) ?new)\<rparr>) else cok d)"
    using len unfolding rx_pop_blocks_main_chain_def rx_retain_def c seeds_at_filter kept_def [symmetric] d_def [symmetric] Let_def heights d
    by (simp add: hashes zip_map_same)
  show ?thesis
  proof (cases "pops_to_own_seed h h'")
    case True
    then show ?thesis
      using step kept bad by (simp add: RX_SEEDS_CACHED_def numeral_2_eq_2)
  next
    case False
    then have "kept @ drop (length kept) ?new = ?new"
      using kept by (metis append_take_drop_id)
    moreover have "kept = ?new" if "\<not> length kept < RX_SEEDS_CACHED"
      using that kept False new(2) len by (metis le_antisym not_less order_trans take_all)
    ultimately show ?thesis
      using False step d by (simp add: seeds_at_def)
  qed
qed

end

end
