(* ===== verification/Context_Task.thy ===== *)
theory Context_Task
  imports Block_Rules Rx_Cache
begin

text \<open>
  The blockchain context task: \<^verbatim>\<open>src/consensus/context/src/task.rs\<close>, the alternative-chain caches of \<^verbatim>\<open>alt_chains.rs\<close> and the context of
  \<^verbatim>\<open>lib.rs\<close>. The task owns the caches and handles one request at a time; a request returns the new state and an answer. When a request
  fails half-way the caches changed so far stay changed, as in the code. A panic ends the task, so the state beside it means nothing.
  The published context (an \<open>ArcSwap\<close>) is a field of the state.
\<close>

subsection \<open>The context\<close>

definition BLOCKCHAIN_TIMESTAMP_CHECK_WINDOW :: nat where
  "BLOCKCHAIN_TIMESTAMP_CHECK_WINDOW = 60"

record context_config =
  hard_fork_cfg :: hard_fork_config
  difficulty_cfg :: difficulty_cache_config
  weights_config :: block_weights_cache_config

definition context_main_net :: context_config where
  "context_main_net = \<lparr>hard_fork_cfg = hard_fork_main_net, difficulty_cfg = difficulty_main_net, weights_config = weights_main_net\<rparr>"

definition context_stage_net :: context_config where
  "context_stage_net = \<lparr>hard_fork_cfg = hard_fork_stage_net, difficulty_cfg = difficulty_main_net, weights_config = weights_main_net\<rparr>"

definition context_test_net :: context_config where
  "context_test_net = \<lparr>hard_fork_cfg = hard_fork_test_net, difficulty_cfg = difficulty_main_net, weights_config = weights_main_net\<rparr>"

record blockchain_context =
  bc_cumulative_difficulty :: nat
  bc_context_to_verify_block :: context_to_verify_block
  bc_median_long_term_weight :: nat
  bc_top_block_timestamp :: "nat option"

text \<open>The system clock is the argument \<open>now\<close>; \<open>None\<close> is the panic of the \<open>unwrap\<close>.\<close>

definition current_adjusted_timestamp_for_time_lock :: "nat \<Rightarrow> blockchain_context \<Rightarrow> nat option" where
  "current_adjusted_timestamp_for_time_lock now ctx =
     (let hf = current_hf (bc_context_to_verify_block ctx) in
      if hf < V13 then Some now
      else
        case median_block_timestamp (bc_context_to_verify_block ctx) of
          None \<Rightarrow> Some now
        | Some m \<Rightarrow>
            let block_time = block_time hf;
                adjusted_median = wadd 64 m (wmul 64 (BLOCKCHAIN_TIMESTAMP_CHECK_WINDOW + 1) block_time div 2)
            in Option.bind (bc_top_block_timestamp ctx) (\<lambda>t. Some (min adjusted_median (wadd 64 t block_time))))"

definition next_block_long_term_weight :: "blockchain_context \<Rightarrow> nat \<Rightarrow> nat" where
  "next_block_long_term_weight ctx block_weight =
     calculate_block_long_term_weight (current_hf (bc_context_to_verify_block ctx)) block_weight (bc_median_long_term_weight ctx)"

definition build_blockchain_context ::
  "block_weights_cache \<Rightarrow> difficulty_cache \<Rightarrow> hard_fork \<Rightarrow> bytes \<Rightarrow> nat \<Rightarrow> nat \<Rightarrow> blockchain_context option" where
  "build_blockchain_context w d hf hash height coins =
     Option.bind (median_for_block_reward w hf) (\<lambda>reward_median.
     Option.bind (effective_median_block_weight w hf) (\<lambda>effective_median.
     Option.bind (median_timestamp d BLOCKCHAIN_TIMESTAMP_CHECK_WINDOW) (\<lambda>timestamp_median.
     Option.bind (difficulty_next_difficulty d hf) (\<lambda>next_diff.
     Option.bind (median_long_term_weight w) (\<lambda>long_term_median.
     Some \<lparr>bc_cumulative_difficulty = cumulative_difficulty d,
           bc_context_to_verify_block =
             \<lparr>median_weight_for_block_reward = reward_median, effective_median_weight = effective_median, top_hash = hash,
              median_block_timestamp = timestamp_median, chain_height = height, current_hf = hf, next_difficulty = next_diff,
              already_generated_coins = coins\<rparr>,
           bc_median_long_term_weight = long_term_median, bc_top_block_timestamp = top_block_timestamp d\<rparr>)))))"

subsection \<open>Caches of alternative chains\<close>

record 'vm alt_chain_context_cache =
  ac_weight_cache :: "block_weights_cache option"
  ac_difficulty_cache :: "difficulty_cache option"
  cached_rx_vm :: "(nat \<times> 'vm) option"
  ac_chain_height :: nat
  ac_top_hash :: bytes
  ac_chain_id :: "nat option"
  ac_parent_chain :: chain

definition alt_add_new_block ::
  "'vm alt_chain_context_cache \<Rightarrow> nat \<Rightarrow> bytes \<Rightarrow> nat \<Rightarrow> nat \<Rightarrow> nat \<Rightarrow> nat \<Rightarrow> 'vm alt_chain_context_cache option" where
  "alt_add_new_block c height hash block_weight long_term_block_weight timestamp cum_diff =
     Option.bind
       (case ac_difficulty_cache c of
          Some d \<Rightarrow> map_option Some (difficulty_new_block d height timestamp cum_diff)
        | None \<Rightarrow> Some None) (\<lambda>d.
     Option.bind
       (case ac_weight_cache c of
          Some w \<Rightarrow> map_option Some (weights_new_block w height block_weight long_term_block_weight)
        | None \<Rightarrow> Some None) (\<lambda>w.
     Some (c\<lparr>ac_weight_cache := w, ac_difficulty_cache := d, ac_chain_height := wadd 64 (ac_chain_height c) 1, ac_top_hash := hash\<rparr>)))"

type_synonym 'vm alt_chain_map = "(bytes \<times> 'vm alt_chain_context_cache) list"

definition add_alt_cache :: "'vm alt_chain_map \<Rightarrow> 'vm alt_chain_context_cache \<Rightarrow> 'vm alt_chain_map" where
  "add_alt_cache m c = map_insert (ac_top_hash c) c m"

definition query_find_block :: "database \<Rightarrow> bytes \<Rightarrow> (chain \<times> nat) option cache_result" where
  "query_find_block db prev_id = query db (FindBlock prev_id) (\<lambda>r. case r of RFindBlock res \<Rightarrow> Some res | _ \<Rightarrow> None)"

definition prev_id_incorrect :: "context_cache_error fault" where
  "prev_id_incorrect = Fault (ConErr (BlockErr PreviousIDIncorrect))"

definition get_alt_chain_context ::
  "'vm alt_chain_map \<Rightarrow> bytes \<Rightarrow> database \<Rightarrow> ('vm alt_chain_map \<times> 'vm alt_chain_context_cache) cache_result" where
  "get_alt_chain_context m prev_id db =
     (case map_of m prev_id of
        Some cache \<Rightarrow> cok (filter (\<lambda>p. fst p \<noteq> prev_id) m, cache)
      | None \<Rightarrow>
          cbind (query_find_block db prev_id) (\<lambda>res.
          case res of
            None \<Rightarrow> Some (Err prev_id_incorrect)
          | Some (parent, top_height) \<Rightarrow>
              cok (m, \<lparr>ac_weight_cache = None, ac_difficulty_cache = None, cached_rx_vm = None,
                       ac_chain_height = wadd 64 top_height 1, ac_top_hash = prev_id, ac_chain_id = None,
                       ac_parent_chain = parent\<rparr>)))"

definition get_alt_chain_difficulty_cache :: "bytes \<Rightarrow> difficulty_cache \<Rightarrow> database \<Rightarrow> difficulty_cache cache_result" where
  "get_alt_chain_difficulty_cache prev_id main_cache db =
     cbind (query_find_block db prev_id) (\<lambda>res.
     case res of
       None \<Rightarrow> Some (Err prev_id_incorrect)
     | Some (Main, top_height) \<Rightarrow>
         difficulty_pop_blocks_main_chain main_cache (wsub 64 (last_accounted_height main_cache) top_height) db
     | Some (Alt c, top_height) \<Rightarrow>
         difficulty_init_from_chain_height (wadd 64 top_height 1) (dc_config main_cache) db (Alt c))"

definition get_alt_chain_weight_cache :: "bytes \<Rightarrow> block_weights_cache \<Rightarrow> database \<Rightarrow> block_weights_cache cache_result" where
  "get_alt_chain_weight_cache prev_id main_cache db =
     cbind (query_find_block db prev_id) (\<lambda>res.
     case res of
       None \<Rightarrow> Some (Err prev_id_incorrect)
     | Some (Main, top_height) \<Rightarrow>
         weights_pop_blocks_main_chain main_cache (wsub 64 (tip_height main_cache) top_height) db
     | Some (Alt c, top_height) \<Rightarrow>
         weights_init_from_chain_height (wadd 64 top_height 1) (bw_config main_cache) db (Alt c))"

subsection \<open>The task\<close>

record new_block_data =
  nb_block_hash :: bytes
  nb_height :: nat
  nb_timestamp :: nat
  nb_weight :: nat
  nb_long_term_weight :: nat
  nb_generated_coins :: nat
  nb_vote :: hard_fork
  nb_cumulative_difficulty :: nat

datatype 'vm context_request =
  CurrentRxVms
| BatchGetDifficulties "(nat \<times> hard_fork) list"
| NewRXVM "bytes \<times> 'vm"
| Update new_block_data
| PopContextBlocks nat
| HardForkInfo hard_fork
| FeeEstimate nat
| CalculatePow hard_fork nat block bytes
| ClearAltCache
| AltChainsInfo
| AltChainContextCache bytes
| AltChainDifficultyCache bytes
| AltChainWeightCache bytes
| AltChainRxVM nat chain
| AddAltChainContextCache "'vm alt_chain_context_cache"

datatype 'vm context_response =
  CtxOk
| RxVms "(nat \<times> 'vm) list"
| BatchDifficulties "nat list"
| CtxAltChainContextCache "'vm alt_chain_context_cache"
| CtxAltChainDifficultyCache difficulty_cache
| CtxAltChainRxVM 'vm
| CtxAltChainWeightCache block_weights_cache

record 'vm context_task =
  context_cache :: blockchain_context
  difficulty_cache_of :: difficulty_cache
  weight_cache_of :: block_weights_cache
  rx_vm_cache_of :: "'vm rx_vm_cache"
  hardfork_state_of :: hard_fork_state
  alt_chain_cache_map :: "'vm alt_chain_map"
  ct_chain_height :: nat
  top_block_hash :: bytes
  ct_already_generated_coins :: nat

definition query_generated_coins :: "database \<Rightarrow> nat \<Rightarrow> nat cache_result" where
  "query_generated_coins db height = query db (GeneratedCoins height) (\<lambda>r. case r of RGeneratedCoins c \<Rightarrow> Some c | _ \<Rightarrow> None)"

definition init_context :: "(bytes \<Rightarrow> 'vm option) \<Rightarrow> context_config \<Rightarrow> database \<Rightarrow> 'vm context_task cache_result" where
  "init_context new_vm cfg db =
     cbind (query db ChainHeight (\<lambda>r. case r of RChainHeight h hash \<Rightarrow> Some (h, hash) | _ \<Rightarrow> None)) (\<lambda>(height, hash).
     cbind (query_generated_coins db (wsub 64 height 1)) (\<lambda>coins.
     cbind (hard_fork_init_from_chain_height height (hard_fork_cfg cfg) db) (\<lambda>hfs.
     cbind (difficulty_init_from_chain_height height (difficulty_cfg cfg) db Main) (\<lambda>d.
     cbind (weights_init_from_chain_height height (weights_config cfg) db Main) (\<lambda>w.
     cbind (cunwrap (build_blockchain_context w d (current_hardfork hfs) hash height coins)) (\<lambda>ctx.
     cbind (rx_init_from_chain_height new_vm height (current_hardfork hfs) db) (\<lambda>rx.
     cok \<lparr>context_cache = ctx, difficulty_cache_of = d, weight_cache_of = w, rx_vm_cache_of = rx, hardfork_state_of = hfs,
          alt_chain_cache_map = [], ct_chain_height = height, top_block_hash = hash, ct_already_generated_coins = coins\<rparr>)))))))"

definition update_blockchain_context :: "'vm context_task \<Rightarrow> 'vm context_task option" where
  "update_blockchain_context s =
     map_option (\<lambda>ctx. s\<lparr>context_cache := ctx\<rparr>)
       (build_blockchain_context (weight_cache_of s) (difficulty_cache_of s) (current_hardfork (hardfork_state_of s))
          (top_block_hash s) (ct_chain_height s) (ct_already_generated_coins s))"

text \<open>A part of a request: on an error the request ends with the state reached so far.\<close>

definition crun :: "'a cache_result \<Rightarrow> 's \<Rightarrow> ('a \<Rightarrow> ('s \<times> (context_cache_error fault + 'r)) option) \<Rightarrow> ('s \<times> (context_cache_error fault + 'r)) option" where
  "crun r s k = (case r of None \<Rightarrow> None | Some (Inl e) \<Rightarrow> Some (s, Err e) | Some (Inr v) \<Rightarrow> k v)"

definition context_update ::
  "new_block_data \<Rightarrow> 'vm context_task \<Rightarrow> ('vm context_task \<times> (context_cache_error fault + 'vm context_response)) option" where
  "context_update new s =
     crun (cunwrap (difficulty_new_block (difficulty_cache_of s) (nb_height new) (nb_timestamp new) (nb_cumulative_difficulty new))) s (\<lambda>d.
     crun (cunwrap (weights_new_block (weight_cache_of s) (nb_height new) (nb_weight new) (nb_long_term_weight new))) s (\<lambda>w.
     crun (cunwrap (hard_fork_new_block (hardfork_state_of s) (nb_vote new) (nb_height new))) s (\<lambda>hfs.
     crun (cunwrap (update_blockchain_context
       (s\<lparr>difficulty_cache_of := d, weight_cache_of := w,
          rx_vm_cache_of := rx_new_block (rx_vm_cache_of s) (nb_height new) (nb_block_hash new), hardfork_state_of := hfs,
          ct_chain_height := wadd 64 (nb_height new) 1, top_block_hash := nb_block_hash new,
          ct_already_generated_coins := min (ct_already_generated_coins s + nb_generated_coins new) (2 ^ 64 - 1)\<rparr>))) s (\<lambda>s.
     Some (s, Ok CtxOk)))))"

definition context_pop_blocks ::
  "nat \<Rightarrow> database \<Rightarrow> 'vm context_task \<Rightarrow> ('vm context_task \<times> (context_cache_error fault + 'vm context_response)) option" where
  "context_pop_blocks numb_blocks db s =
     crun (Some (assert (numb_blocks < ct_chain_height s))) s (\<lambda>_.
     crun (difficulty_pop_blocks_main_chain (difficulty_cache_of s) numb_blocks db) s (\<lambda>d.
     let s = s\<lparr>difficulty_cache_of := d\<rparr> in
     crun (weights_pop_blocks_main_chain (weight_cache_of s) numb_blocks db) s (\<lambda>w.
     let s = s\<lparr>weight_cache_of := w\<rparr>; new_top = wsub 64 (wsub 64 (ct_chain_height s) numb_blocks) 1 in
     crun (rx_pop_blocks_main_chain (rx_vm_cache_of s) new_top db) (s\<lparr>rx_vm_cache_of := rx_retain (rx_vm_cache_of s) new_top\<rparr>) (\<lambda>rx.
     let s = s\<lparr>rx_vm_cache_of := rx\<rparr> in
     crun (hard_fork_pop_blocks_main_chain (hardfork_state_of s) numb_blocks db) s (\<lambda>hfs.
     let s = s\<lparr>hardfork_state_of := hfs, alt_chain_cache_map := [], ct_chain_height := wsub 64 (ct_chain_height s) numb_blocks\<rparr> in
     crun (query_generated_coins db (wsub 64 (ct_chain_height s) 1)) s (\<lambda>coins.
     crun (query db (BlockHash (wsub 64 (ct_chain_height s) 1) Main) (\<lambda>r. case r of RBlockHash h \<Rightarrow> Some h | _ \<Rightarrow> None)) s (\<lambda>hash.
     crun (cunwrap (update_blockchain_context (s\<lparr>top_block_hash := hash, ct_already_generated_coins := coins\<rparr>))) s (\<lambda>s.
     Some (s, Ok CtxOk)))))))))"

definition handle_req ::
  "(bytes \<Rightarrow> 'vm option) \<Rightarrow> database \<Rightarrow> 'vm context_request \<Rightarrow> 'vm context_task \<Rightarrow>
     ('vm context_task \<times> (context_cache_error fault + 'vm context_response)) option" where
  "handle_req new_vm db req s =
     (case req of
        CurrentRxVms \<Rightarrow>
          crun (cunwrap (get_vms new_vm (rx_vm_cache_of s))) s (\<lambda>(rx, m). Some (s\<lparr>rx_vm_cache_of := rx\<rparr>, Ok (RxVms m)))
      | BatchGetDifficulties blocks \<Rightarrow>
          crun (cunwrap (next_difficulties (difficulty_cache_of s) blocks (current_hardfork (hardfork_state_of s)))) s (\<lambda>ds.
          Some (s, Ok (BatchDifficulties ds)))
      | NewRXVM vm \<Rightarrow> Some (s\<lparr>rx_vm_cache_of := add_vm (rx_vm_cache_of s) vm\<rparr>, Ok CtxOk)
      | Update new \<Rightarrow> context_update new s
      | PopContextBlocks n \<Rightarrow> context_pop_blocks n db s
      | ClearAltCache \<Rightarrow> Some (s\<lparr>alt_chain_cache_map := []\<rparr>, Ok CtxOk)
      | AltChainContextCache prev_id \<Rightarrow>
          crun (get_alt_chain_context (alt_chain_cache_map s) prev_id db) s (\<lambda>(m, c).
          Some (s\<lparr>alt_chain_cache_map := m\<rparr>, Ok (CtxAltChainContextCache c)))
      | AltChainDifficultyCache prev_id \<Rightarrow>
          crun (get_alt_chain_difficulty_cache prev_id (difficulty_cache_of s) db) s (\<lambda>d. Some (s, Ok (CtxAltChainDifficultyCache d)))
      | AltChainWeightCache prev_id \<Rightarrow>
          crun (get_alt_chain_weight_cache prev_id (weight_cache_of s) db) s (\<lambda>w. Some (s, Ok (CtxAltChainWeightCache w)))
      | AltChainRxVM height chain \<Rightarrow>
          crun (get_alt_vm new_vm (rx_vm_cache_of s) height chain db) s (\<lambda>vm. Some (s, Ok (CtxAltChainRxVM vm)))
      | AddAltChainContextCache c \<Rightarrow> Some (s\<lparr>alt_chain_cache_map := add_alt_cache (alt_chain_cache_map s) c\<rparr>, Ok CtxOk)
      | _ \<Rightarrow> Some (s, Err Panic))"

end
