(* ===== verification/Task_Laws.thy ===== *)
theory Task_Laws
  imports Context_Task
begin

text \<open>
  Laws of the context task. A task is in sync with a chain when each cache is what it should be for that chain and the published
  context is computed from them. Starting the task on a database puts it in sync with the chain there, and an update moves it on.
  Popping blocks moves it back, unless the hard-fork votes fill their window or the new top is a seed block of the same epoch.
\<close>

subsection \<open>The context can always be computed\<close>

definition config_ok :: "context_config \<Rightarrow> bool" where
  "config_ok cfg \<longleftrightarrow>
     2 * dc_cut (difficulty_cfg cfg) < dc_window (difficulty_cfg cfg) \<and>
     dc_window (difficulty_cfg cfg) + dc_lag (difficulty_cfg cfg) < 2 ^ 63 \<and>
     0 < short_term_window (weights_config cfg) \<and> short_term_window (weights_config cfg) < 2 ^ 63 \<and>
     0 < long_term_window (weights_config cfg) \<and> long_term_window (weights_config cfg) < 2 ^ 63"

lemma config_ok_networks: "config_ok context_main_net" "config_ok context_stage_net" "config_ok context_test_net"
  by (simp_all add: config_ok_def context_main_net_def context_stage_net_def context_test_net_def difficulty_main_net_def
      weights_main_net_def DIFFICULTY_CUT_def DIFFICULTY_WINDOW_def DIFFICULTY_LAG_def SHORT_TERM_WINDOW_def LONG_TERM_WINDOW_def)

lemma div_ceil_half: "div_ceil n 2 \<le> n"
  by (simp add: div_ceil_def) presburger

lemma window_bounds:
  assumes "0 < n" "n \<le> w" "0 < a" "a < 2 ^ 63" "w < 2 ^ 63" and r: "get_window_start_and_end n a w = (s, e)"
  shows "s < n" "0 < e" "e \<le> n" "s < e"
proof -
  have "div_ceil (n - a) 2 \<le> n - a"
    by (rule div_ceil_half)
  moreover have "wadd 64 (div_ceil (n - a) 2) a = div_ceil (n - a) 2 + a" if "a < n"
    using that assms(2,5) calculation by (intro wadd_exact) simp
  ultimately show "s < n" "0 < e" "e \<le> n" "s < e"
    using assms r by (auto simp: get_window_start_and_end_def Let_def split: if_splits)
qed

lemma next_difficulty_some:
  assumes "2 * dc_cut cfg < dc_window cfg" "dc_window cfg < 2 ^ 63" "length ts = length cds"
  shows "\<exists>d. next_difficulty_in cfg ts cds hf = Some d"
proof (cases "fixed_difficulty cfg = None \<and> 1 < length ts")
  case True
  let ?w = "dc_window cfg" and ?a = "accounted_window_len cfg"
  define us where "us = (if ?w < length ts then take ?w ts else ts)"
  have a: "?a = ?w - 2 * dc_cut cfg" "0 < ?a" "?a < 2 ^ 63"
    using assms(1,2) by (simp_all add: accounted_window_len_def wsub_exact wmul_exact)
  have us: "0 < length us" "length us \<le> ?w" "length us \<le> length cds"
    using True assms(1,3) by (auto simp: us_def)
  obtain s e where se: "get_window_start_and_end (length us) ?a ?w = (s, e)"
    by (cases "get_window_start_and_end (length us) ?a ?w")
  note b = window_bounds [OF us(1,2) a(2,3) assms(2) se]
  have "wsub 64 e 1 = e - 1"
    using b us(2) assms(2) by (intro wsub_exact) auto
  then show ?thesis
    using True b us(3) se unfolding next_difficulty_in_def Let_def us_def [symmetric] by auto
next
  case False
  then show ?thesis
    by (cases "fixed_difficulty cfg") (simp_all add: next_difficulty_in_def)
qed

lemma median_sort_some: "xs \<noteq> [] \<Longrightarrow> \<exists>m. median (sort xs) = Some m"
proof -
  assume "xs \<noteq> []"
  then have "length (sort xs) \<noteq> 0"
    by simp
  then show ?thesis
    using median_None_iff [of "sort xs"] unfolding length_0_conv by blast
qed

lemma median_timestamp_some:
  assumes "0 < n"
  shows "\<exists>m. median_timestamp d n = Some m"
proof (cases "wadd 64 (last_accounted_height d) 1 = n")
  case True
  then show ?thesis
    using median_sort_some [of "0 # timestamps d"] unfolding median_timestamp_def by auto
next
  case False
  have "drop (length (timestamps d) - n) (timestamps d) \<noteq> []" if "n \<le> length (timestamps d)"
    using assms that by simp
  then show ?thesis
    using False median_sort_some [of "drop (length (timestamps d) - n) (timestamps d)"]
    unfolding median_timestamp_def checked_sub_def by (cases "n \<le> length (timestamps d)") auto
qed

lemma rm_median_some: "0 < t \<Longrightarrow> xs \<noteq> [] \<Longrightarrow> \<exists>m. rm_median (rm_of t xs) = Some m"
  using median_sort_some [of "last_n t xs"] by (cases xs) (auto simp: rm_median_def rm_of_def last_n_def)

lemma build_blockchain_context_some:
  assumes "config_ok cfg" "hs \<noteq> []"
  shows "\<exists>ctx. build_blockchain_context (weights_at (weights_config cfg) hs) (difficulty_at (difficulty_cfg cfg) hs) hf hash n coins = Some ctx"
proof -
  let ?w = "weights_at (weights_config cfg) hs" and ?d = "difficulty_at (difficulty_cfg cfg) hs"
  obtain l where l: "median_long_term_weight ?w = Some l"
    using rm_median_some [of "long_term_window (weights_config cfg)" "map eh_long_term_weight hs"] assms
    by (auto simp: median_long_term_weight_def weights_at_def config_ok_def)
  obtain s where s: "median_short_term_weight ?w = Some s"
    using rm_median_some [of "short_term_window (weights_config cfg)" "map eh_block_weight hs"] assms
    by (auto simp: median_short_term_weight_def weights_at_def config_ok_def)
  obtain d where d: "difficulty_next_difficulty ?d hf = Some d"
    using next_difficulty_some [of "difficulty_cfg cfg" "timestamps ?d" "cumulative_difficulties ?d" hf] assms(1)
    by (auto simp: difficulty_next_difficulty_def difficulty_at_def config_ok_def)
  obtain m where m: "median_timestamp ?d BLOCKCHAIN_TIMESTAMP_CHECK_WINDOW = Some m"
    using median_timestamp_some [of BLOCKCHAIN_TIMESTAMP_CHECK_WINDOW ?d] by (auto simp: BLOCKCHAIN_TIMESTAMP_CHECK_WINDOW_def)
  show ?thesis
    by (simp add: build_blockchain_context_def median_for_block_reward_def effective_median_block_weight_def l s d m)
qed

subsection \<open>A task in sync with a chain\<close>

definition in_sync :: "context_config \<Rightarrow> ext_header list \<Rightarrow> (nat \<Rightarrow> bytes) \<Rightarrow> nat \<Rightarrow> 'vm context_task \<Rightarrow> bool" where
  "in_sync cfg hs hash_of coins s \<longleftrightarrow>
     difficulty_cache_of s = difficulty_at (difficulty_cfg cfg) hs \<and>
     weight_cache_of s = weights_at (weights_config cfg) hs \<and>
     hardfork_state_of s = hard_fork_at (hard_fork_cfg cfg) hs \<and>
     seeds (rx_vm_cache_of s) = seeds_at hash_of (length hs - 1) \<and>
     ct_chain_height s = length hs \<and> top_block_hash s = hash_of (length hs - 1) \<and> ct_already_generated_coins s = coins \<and>
     build_blockchain_context (weight_cache_of s) (difficulty_cache_of s) (current_hardfork (hardfork_state_of s))
       (top_block_hash s) (ct_chain_height s) (ct_already_generated_coins s) = Some (context_cache s)"

definition same_context :: "'vm context_task \<Rightarrow> 'vm context_task \<Rightarrow> bool" where
  "same_context s s' \<longleftrightarrow>
     context_cache s = context_cache s' \<and> difficulty_cache_of s = difficulty_cache_of s' \<and> weight_cache_of s = weight_cache_of s' \<and>
     hardfork_state_of s = hardfork_state_of s' \<and> seeds (rx_vm_cache_of s) = seeds (rx_vm_cache_of s') \<and>
     ct_chain_height s = ct_chain_height s' \<and> top_block_hash s = top_block_hash s' \<and>
     ct_already_generated_coins s = ct_already_generated_coins s'"

lemma in_sync_same: "in_sync cfg hs h c s \<Longrightarrow> in_sync cfg hs h c s' \<Longrightarrow> same_context s s'"
  by (auto simp: in_sync_def same_context_def)

lemma seeds_at_cong: "(\<And>i. i \<le> n \<Longrightarrow> f i = g i) \<Longrightarrow> seeds_at f n = seeds_at g n"
  using newest_seed_heights_bounds(1) [of n] by (auto simp: seeds_at_def)

lemma in_sync_cong: "(\<And>i. i < length hs \<Longrightarrow> f i = g i) \<Longrightarrow> hs \<noteq> [] \<Longrightarrow> in_sync cfg hs f c s = in_sync cfg hs g c s"
  using seeds_at_cong [of "length hs - 1" f g] by (cases hs) (simp_all add: in_sync_def less_Suc_eq_le)

lemma crun_simps [simp]:
  "crun None s k = None" "crun (Some (Inl e)) s k = Some (s, Err e)" "crun (Some (Inr v)) s k = k v" "crun (cok v) s k = k v"
  by (simp_all add: crun_def cok_def)

definition context_computed :: "'vm context_task \<Rightarrow> blockchain_context \<Rightarrow> bool" where
  "context_computed s ctx \<longleftrightarrow>
     build_blockchain_context (weight_cache_of s) (difficulty_cache_of s) (current_hardfork (hardfork_state_of s))
       (top_block_hash s) (ct_chain_height s) (ct_already_generated_coins s) = Some ctx"

lemma update_context_some:
  assumes "config_ok cfg" "hs \<noteq> []" "weight_cache_of s = weights_at (weights_config cfg) hs"
    "difficulty_cache_of s = difficulty_at (difficulty_cfg cfg) hs"
  obtains ctx where "context_computed s ctx" "update_blockchain_context s = Some (s\<lparr>context_cache := ctx\<rparr>)"
proof -
  obtain ctx where "context_computed s ctx"
    using build_blockchain_context_some [OF assms(1,2)] unfolding context_computed_def assms(3,4) by blast
  then show thesis
    using that by (simp add: update_blockchain_context_def context_computed_def)
qed

lemma update_keeps_sync:
  assumes ok: "config_ok cfg" and sync: "in_sync cfg hs hash_of coins s" and hs: "hs \<noteq> []" "length hs < 2 ^ 64 - 1"
    and new: "nb_height new = length hs" "nb_timestamp new = eh_timestamp h" "nb_cumulative_difficulty new = eh_cumulative_difficulty h"
      "nb_weight new = eh_block_weight h" "nb_long_term_weight new = eh_long_term_weight h" "nb_vote new = from_vote (eh_vote h)"
      "eh_version h = current_hardfork (hardfork_state_of s)"
  shows "\<exists>s'. context_update new s = Some (s', Ok CtxOk) \<and>
    in_sync cfg (hs @ [h]) (hash_of(length hs := nb_block_hash new)) (min (coins + nb_generated_coins new) (2 ^ 64 - 1)) s'"
proof -
  note at = sync [unfolded in_sync_def]
  have d: "difficulty_new_block (difficulty_cache_of s) (nb_height new) (nb_timestamp new) (nb_cumulative_difficulty new) =
      Some (difficulty_at (difficulty_cfg cfg) (hs @ [h]))"
    using difficulty_new_block_at [of hs] hs at new by simp
  have w: "weights_new_block (weight_cache_of s) (nb_height new) (nb_weight new) (nb_long_term_weight new) =
      Some (weights_at (weights_config cfg) (hs @ [h]))"
    using weights_new_block_at [of hs] hs at new ok by (simp add: config_ok_def)
  have f: "hard_fork_new_block (hardfork_state_of s) (nb_vote new) (nb_height new) = Some (hard_fork_at (hard_fork_cfg cfg) (hs @ [h]))"
    using hard_fork_new_block_at [of hs] hs at new by simp
  have r: "seeds (rx_new_block (rx_vm_cache_of s) (length hs) (nb_block_hash new)) = seeds_at (hash_of(length hs := nb_block_hash new)) (length hs)"
    using rx_new_block_seeds [of "length hs" "rx_vm_cache_of s" hash_of] hs at by simp
  define u where "u = s\<lparr>difficulty_cache_of := difficulty_at (difficulty_cfg cfg) (hs @ [h]),
    weight_cache_of := weights_at (weights_config cfg) (hs @ [h]),
    rx_vm_cache_of := rx_new_block (rx_vm_cache_of s) (nb_height new) (nb_block_hash new),
    hardfork_state_of := hard_fork_at (hard_fork_cfg cfg) (hs @ [h]), ct_chain_height := wadd 64 (nb_height new) 1,
    top_block_hash := nb_block_hash new,
    ct_already_generated_coins := min (ct_already_generated_coins s + nb_generated_coins new) (2 ^ 64 - 1)\<rparr>"
  obtain ctx where ctx: "context_computed u ctx" "update_blockchain_context u = Some (u\<lparr>context_cache := ctx\<rparr>)"
    by (rule update_context_some [OF ok, of "hs @ [h]" u]) (simp_all add: u_def)
  have "context_update new s = Some (u\<lparr>context_cache := ctx\<rparr>, Ok CtxOk)"
    unfolding context_update_def d w f u_def [symmetric] cunwrap_simps crun_simps ctx(2) ..
  moreover have "in_sync cfg (hs @ [h]) (hash_of(length hs := nb_block_hash new)) (min (coins + nb_generated_coins new) (2 ^ 64 - 1))
      (u\<lparr>context_cache := ctx\<rparr>)"
    using ctx(1) r at hs new by (simp add: in_sync_def context_computed_def u_def wadd_exact)
  ultimately show ?thesis
    by blast
qed

subsection \<open>Starting and popping, on a database\<close>

definition votes_settled :: "hard_fork_config \<Rightarrow> ext_header list \<Rightarrow> nat \<Rightarrow> bool" where
  "votes_settled cfg hs n \<longleftrightarrow>
     n \<le> hfc_window cfg \<and> hfc_window cfg + n \<le> length hs \<and>
     current_hardfork (hard_fork_at cfg (take (length hs - n) hs)) = current_hardfork (hard_fork_at cfg hs) \<and>
     (\<forall>h \<in> set (slice (length hs - hfc_window cfg - n) (length hs - n) hs).
        from_vote (eh_vote h) = from_vote (eh_vote (hs ! (length hs - n - 1))))"

locale context_database = main_chain_reader db covers history hash_of coins_of
  for db :: "'t \<Rightarrow> database" and covers :: "'t \<Rightarrow> chain \<Rightarrow> nat \<Rightarrow> bool" and history :: "'t \<Rightarrow> chain \<Rightarrow> ext_header list"
    and hash_of :: "'t \<Rightarrow> nat \<Rightarrow> bytes" and coins_of :: "'t \<Rightarrow> nat \<Rightarrow> nat" +
  assumes height_law: "covers t Main (length (history t Main)) \<Longrightarrow> history t Main \<noteq> [] \<Longrightarrow>
    db t ChainHeight = Some (Ok (RChainHeight (length (history t Main)) (hash_of t (length (history t Main) - 1))))"
begin

lemma init_in_sync:
  fixes new_vm :: "bytes \<Rightarrow> 'vm option"
  assumes ok: "config_ok cfg" and t: "covers t Main (length (history t Main))" "history t Main \<noteq> []" "length (history t Main) < 2 ^ 64"
    and vm: "\<forall>s. new_vm s \<noteq> None"
  shows "\<exists>s. init_context new_vm cfg (db t) = cok s \<and>
    in_sync cfg (history t Main) (hash_of t) (coins_of t (length (history t Main) - 1)) s"
proof -
  let ?hs = "history t Main" let ?n = "length ?hs"
  have n: "0 < ?n" "wsub 64 ?n 1 = ?n - 1"
    using t wsub_exact [of 1 ?n 64] by (simp_all add: Suc_le_eq)
  have coins: "query_generated_coins (db t) (?n - 1) = cok (coins_of t (?n - 1))"
    using coins_law [OF t(1), of "?n - 1"] t(2) by (simp add: query_generated_coins_def query_Ok)
  obtain rx where rx: "rx_init_from_chain_height new_vm ?n (current_hardfork (hard_fork_at (hard_fork_cfg cfg) ?hs)) (db t) = cok rx"
    "seeds rx = seeds_at (hash_of t) (?n - 1)"
    using rx_init [OF t(1) n(1) t(3), of _ new_vm] vm by blast
  obtain ctx where ctx: "build_blockchain_context (weights_at (weights_config cfg) ?hs) (difficulty_at (difficulty_cfg cfg) ?hs)
      (current_hardfork (hard_fork_at (hard_fork_cfg cfg) ?hs)) (hash_of t (?n - 1)) ?n (coins_of t (?n - 1)) = Some ctx"
    using build_blockchain_context_some [OF ok t(2)] by blast
  have inits: "hard_fork_init_from_chain_height ?n (hard_fork_cfg cfg) (db t) = cok (hard_fork_at (hard_fork_cfg cfg) ?hs)"
    "difficulty_init_from_chain_height ?n (difficulty_cfg cfg) (db t) Main = cok (difficulty_at (difficulty_cfg cfg) ?hs)"
    "weights_init_from_chain_height ?n (weights_config cfg) (db t) Main = cok (weights_at (weights_config cfg) ?hs)"
    using hard_fork_init [OF t(1) n(1) t(3)] difficulty_init [OF t(1) n(1) t(3)] weights_init [OF t(1) n(1) t(3)] by simp_all
  have top: "query (db t) ChainHeight (\<lambda>r. case r of RChainHeight h hash \<Rightarrow> Some (h, hash) | _ \<Rightarrow> None) = cok (?n, hash_of t (?n - 1))"
    using height_law [OF t(1,2)] by (simp add: query_def)
  show ?thesis
    unfolding init_context_def top cbind_simps prod.case n(2) coins inits ctx cunwrap_simps rx(1)
    using ctx rx(2) by (auto simp: in_sync_def)
qed

text \<open>With a full window of votes the popped state is still right when the votes there are all the same and the fork did not change.\<close>

lemma hard_fork_pop_settled:
  assumes covers: "covers t Main (length hs - n)" and same: "take (length hs - n) (history t Main) = take (length hs - n) hs"
    and n: "votes_settled cfg hs n" "n < length hs" "length hs < 2 ^ 64"
  shows "hard_fork_pop_blocks_main_chain (hard_fork_at cfg hs) n (db t) = cok (hard_fork_at cfg (take (length hs - n) hs))"
proof -
  let ?L = "length hs" and ?w = "hfc_window cfg" and ?vs = "map (\<lambda>h. from_vote (eh_vote h)) hs"
  let ?S = "hard_fork_at cfg (take (length hs - n) hs)"
  note settled = n(1) [unfolded votes_settled_def]
  obtain s where s: "hard_fork_pop_blocks_main_chain (hard_fork_at cfg hs) n (db t) = cok s"
    "current_hardfork s = current_hardfork (hard_fork_at cfg hs)" "last_height s = ?L - 1 - n" "hf_config s = cfg"
    "votes_wf (hf_votes_of s)" "window_size (hf_votes_of s) = ?w"
    "vote_list (hf_votes_of s) = last_n n (slice (?L - ?w - n) (?L - n) ?vs) @ slice (?L - ?w) (?L - n) ?vs"
    using hard_fork_pop_full [OF covers same, of cfg] settled n by auto
  define v where "v = from_vote (eh_vote (hs ! (?L - n - 1)))"
  have v: "slice (?L - ?w - n) (?L - n) ?vs = replicate ?w v"
    using settled by (intro replicate_eqI) (auto simp: v_def slice_map [symmetric])
  then have "slice (?L - ?w - n) (?L - ?w) ?vs @ slice (?L - ?w) (?L - n) ?vs = replicate ?w v"
    using settled slice_append_slice [of "?L - ?w - n" "?L - ?w" "?L - n" ?vs] diff_le_mono2 [of n ?w ?L] by (simp del: diff_diff_left)
  then have "slice (?L - ?w) (?L - n) ?vs = drop (length (slice (?L - ?w - n) (?L - ?w) ?vs)) (replicate ?w v)"
    by (metis append_eq_conv_conj)
  then have "slice (?L - ?w) (?L - n) ?vs = replicate (?w - n) v"
    using settled by simp
  moreover have "last_n n (replicate ?w v) = replicate n v"
    using settled by (simp add: last_n_def)
  moreover have "last_n ?w (take (?L - n) ?vs) = replicate ?w v"
    using v settled by (simp add: last_n_slice slice_take min_absorb2 add.commute)
  ultimately have "vote_list (hf_votes_of s) = vote_list (hf_votes_of ?S)"
    using settled v s(7) by (simp add: hard_fork_at_def votes_at_wf take_map replicate_add [symmetric])
  then have "hf_votes_of s = hf_votes_of ?S"
    using s by (intro votes_wf_eqI) (simp_all add: hard_fork_at_def votes_at_wf)
  then show ?thesis
    using s settled n by (simp add: hard_fork_at_def)
qed

text \<open>The database has been moved back before the context is.\<close>

lemma pop_keeps_sync:
  assumes ok: "config_ok cfg" and sync: "in_sync cfg hs hash coins s"
    and covers: "covers t Main (length hs - n)" and same: "take (length hs - n) (history t Main) = take (length hs - n) hs"
    and n: "n < length hs" "length hs < 2 ^ 63" and hashes: "\<forall>i < length hs - n. hash i = hash_of t i"
    and votes: "length hs < hfc_window (hard_fork_cfg cfg) \<or> votes_settled (hard_fork_cfg cfg) hs n" and seed: "\<not> pops_to_own_seed (length hs - 1) (length hs - n - 1)"
  shows "\<exists>s'. context_pop_blocks n (db t) s = Some (s', Ok CtxOk) \<and> alt_chain_cache_map s' = [] \<and>
    in_sync cfg (take (length hs - n) hs) hash (coins_of t (length hs - n - 1)) s'"
proof -
  let ?m = "length hs - n" and ?hs = "take (length hs - n) hs"
  note at = sync [unfolded in_sync_def]
  have m: "0 < ?m" "wsub 64 (length hs) n = ?m" "wsub 64 ?m 1 = ?m - 1" "Suc (?m - 1) = ?m" "length ?hs = ?m" "?hs \<noteq> []"
    using n by (auto simp: wsub_exact)
  have caches: "difficulty_pop_blocks_main_chain (difficulty_cache_of s) n (db t) = cok (difficulty_at (difficulty_cfg cfg) ?hs)"
    "weights_pop_blocks_main_chain (weight_cache_of s) n (db t) = cok (weights_at (weights_config cfg) ?hs)"
    "hard_fork_pop_blocks_main_chain (hardfork_state_of s) n (db t) = cok (hard_fork_at (hard_fork_cfg cfg) ?hs)"
    using difficulty_pop [OF covers same n(1)] weights_pop [OF covers same n(1)] hard_fork_pop_not_full [OF covers same n(1)]
      hard_fork_pop_settled [OF covers same _ n(1)] at ok n(2) votes by (auto simp: config_ok_def)
  have le: "?m - 1 \<le> length hs - 1" "length hs - 1 < 2 ^ 64"
    using n by simp_all
  obtain rx where rx: "rx_pop_blocks_main_chain (rx_vm_cache_of s) (?m - 1) (db t) = cok rx" "seeds rx = seeds_at hash (?m - 1)"
    using rx_pop [of t "?m - 1" "length hs - 1" "rx_vm_cache_of s" hash] le covers m at hashes seed by auto
  have reads: "query_generated_coins (db t) (?m - 1) = cok (coins_of t (?m - 1))"
    "query (db t) (BlockHash (?m - 1) Main) (\<lambda>r. case r of RBlockHash h \<Rightarrow> Some h | _ \<Rightarrow> None) = cok (hash (?m - 1))"
    using coins_law [OF covers, of "?m - 1"] hash_law [OF covers, of "?m - 1"] m(1) hashes
    by (simp_all add: query_generated_coins_def query_Ok)
  define u where "u = s\<lparr>difficulty_cache_of := difficulty_at (difficulty_cfg cfg) ?hs,
    weight_cache_of := weights_at (weights_config cfg) ?hs, rx_vm_cache_of := rx,
    hardfork_state_of := hard_fork_at (hard_fork_cfg cfg) ?hs, alt_chain_cache_map := [], ct_chain_height := ?m,
    top_block_hash := hash (?m - 1), ct_already_generated_coins := coins_of t (?m - 1)\<rparr>"
  obtain ctx where ctx: "context_computed u ctx" "update_blockchain_context u = Some (u\<lparr>context_cache := ctx\<rparr>)"
    by (rule update_context_some [OF ok m(6), of u]) (simp_all add: u_def)
  have "context_pop_blocks n (db t) s = Some (u\<lparr>context_cache := ctx\<rparr>, Ok CtxOk)"
    using at n(1) ctx(2) caches m rx(1) reads by (simp add: context_pop_blocks_def Let_def assert_def u_def)
  moreover have "in_sync cfg ?hs hash (coins_of t (?m - 1)) (u\<lparr>context_cache := ctx\<rparr>)"
    using ctx(1) rx(2) m by (simp add: in_sync_def context_computed_def u_def)
  ultimately show ?thesis
    by (auto simp: u_def)
qed

end

end
