(* ===== verification/Service_Laws.thy ===== *)
theory Service_Laws
  imports Store_Service
begin

text \<open>
  Theorems on the database services: the compact history ends at the genesis block, the split point is the one a linear search finds,
  popping a block to an alternative chain keeps it readable, and what \<open>find_first_unknown\<close> and \<open>txs_in_block\<close> return outside the cases
  their documentation describes.
\<close>

subsection \<open>The compact history\<close>

definition offset :: "nat \<Rightarrow> nat" where
  "offset i = (if i \<le> 11 then i else 9 + 2 ^ (i - 10))"

lemma offset_eq: "i \<le> 72 \<Longrightarrow> compact_history_index_to_height_offset i = offset i"
proof -
  assume i: "i \<le> 72"
  have "(2::nat) ^ Suc (i - 11) = 2 ^ (i - 10)" "i - 10 < 63" if "11 < i"
    using that i by (simp_all flip: power_Suc)
  moreover have "(2::nat) ^ (i - 10) \<le> 2 ^ 62"
    using i by (intro power_increasing) auto
  ultimately show ?thesis
    by (auto simp: compact_history_index_to_height_offset_def offset_def INITIAL_BLOCKS_def shl_exact wadd_exact wsub_exact push_bit_eq_mult)
qed

lemma offset_less: "offset i < offset (Suc i)"
proof (cases "11 \<le> i")
  case True
  have "(2::nat) ^ (i - 10) < 2 ^ (Suc i - 10)"
    using True by (intro power_strict_increasing) auto
  moreover have "i = 11 \<or> 11 < i"
    using True by auto
  ultimately show ?thesis
    by (auto simp: offset_def)
qed (simp add: offset_def)

lemma offset_mono: "i < j \<Longrightarrow> offset i < offset j"
  using lift_Suc_mono_less [of offset i j] offset_less by blast

lemma offset_le: "i \<le> j \<Longrightarrow> offset i \<le> offset j"
  using offset_mono [of i j] by (cases "i = j") auto

lemma compact_heights_eq:
  assumes "tip < 2 ^ 62" "i \<le> 72"
  shows "compact_heights tip i = Some (map (\<lambda>j. tip - offset j) (filter (\<lambda>j. offset j \<le> tip) [i..<72]))"
  using assms(2)
proof (induction "72 - i" arbitrary: i)
  case 0
  then have "i = 72"
    by simp
  moreover have "tip < offset 72"
    using assms(1) by (simp add: offset_def)
  ultimately show ?case
    by (simp add: compact_heights.simps [of tip] offset_eq checked_sub_def)
next
  case (Suc n)
  then have i: "i < 72" and upt: "[i..<72] = i # [Suc i..<72]"
    by (simp_all add: upt_conv_Cons)
  show ?case
  proof (cases "offset i \<le> tip")
    case True
    have "compact_heights tip (i + 1) = Some (map (\<lambda>j. tip - offset j) (filter (\<lambda>j. offset j \<le> tip) [i + 1..<72]))"
      using Suc i by (intro Suc.hyps) auto
    then show ?thesis
      using True i by (simp add: compact_heights.simps [of tip i] offset_eq checked_sub_def upt)
  next
    case False
    then have "filter (\<lambda>j. offset j \<le> tip) [i..<72] = []"
      using offset_le [of i] by (fastforce simp: filter_empty_conv)
    then show ?thesis
      using False i by (simp add: compact_heights.simps [of tip i] offset_eq checked_sub_def)
  qed
qed

lemma genesis_included_iff:
  assumes "tip < 2 ^ 62"
  shows "compact_history_genesis_not_included tip \<longleftrightarrow> (\<forall>j < 72. offset j \<noteq> tip)"
proof (cases "tip \<le> 11")
  case True
  then show ?thesis
    by (auto simp: compact_history_genesis_not_included_def INITIAL_BLOCKS_def offset_def)
next
  case False
  have "is_power_of_two (tip - 11 + 2) \<longleftrightarrow> (\<exists>j < 72. offset j = tip)"
  proof
    assume "is_power_of_two (tip - 11 + 2)"
    then obtain k where k: "tip - 11 + 2 = 2 ^ k"
      by (auto simp: is_power_of_two_def list_ex_iff)
    then have "(2::nat) ^ 1 < 2 ^ k" "(2::nat) ^ k < 2 ^ 62"
      using False assms by auto
    then have "1 < k" "k < 62"
      using power_less_imp_less_exp [of "2::nat" 1 k] power_less_imp_less_exp [of "2::nat" k 62] by auto
    then show "\<exists>j < 72. offset j = tip"
      using k False by (intro exI [of _ "k + 10"]) (simp add: offset_def)
  next
    assume "\<exists>j < 72. offset j = tip"
    then obtain j where j: "j < 72" "11 < j" "tip = 9 + 2 ^ (j - 10)"
      using False by (auto simp: offset_def split: if_splits)
    then show "is_power_of_two (tip - 11 + 2)"
      using False unfolding is_power_of_two_def list_ex_iff by (intro bexI [of _ "j - 10"]) auto
  qed
  then show ?thesis
    using False by (auto simp: compact_history_genesis_not_included_def INITIAL_BLOCKS_def)
qed


lemma compact_heights_spec:
  assumes "tip < 2 ^ 62"
  obtains hs where "compact_heights tip 0 = Some hs" "hs \<noteq> []" "hd hs = tip" "sorted_wrt (>) hs"
    "0 \<in> set hs \<longleftrightarrow> \<not> compact_history_genesis_not_included tip"
proof
  let ?js = "filter (\<lambda>j. offset j \<le> tip) [0..<72]" and ?hs = "map (\<lambda>j. tip - offset j) (filter (\<lambda>j. offset j \<le> tip) [0..<72])"
  have "offset 0 \<le> tip" and upt: "[0..<72] = 0 # [1..<72::nat]"
    by (simp_all add: offset_def upt_conv_Cons)
  then have "?js = 0 # filter (\<lambda>j. offset j \<le> tip) [1..<72]"
    by simp
  then show "?hs \<noteq> []" "hd ?hs = tip"
    by (simp_all add: offset_def)
  show "compact_heights tip 0 = Some ?hs"
    using compact_heights_eq [OF assms, of 0] by simp
  have "sorted_wrt (<) ?js"
    by (intro sorted_wrt_filter) (rule sorted_wrt_upt)
  then show "sorted_wrt (>) ?hs"
    unfolding sorted_wrt_map by (rule sorted_wrt_mono_rel [rotated]) (auto dest: offset_mono)
  show "0 \<in> set ?hs \<longleftrightarrow> \<not> compact_history_genesis_not_included tip"
    by (auto simp: genesis_included_iff [OF assms])
qed

subsection \<open>The split point\<close>

lemma partition_base_inv:
  assumes "base + sz \<le> length xs" "0 < sz" "m \<le> base + sz" "base = 0 \<or> base < m" "\<And>i. i < length xs \<Longrightarrow> p (xs ! i) \<longleftrightarrow> i < m"
  shows "partition_base p xs base sz < length xs \<and> m \<le> partition_base p xs base sz + 1 \<and>
    (partition_base p xs base sz = 0 \<or> partition_base p xs base sz < m)"
  using assms
proof (induction p xs base sz rule: partition_base.induct)
  case (1 p xs base sz)
  show ?case
  proof (cases "1 < sz")
    case True
    define half where "half = sz div 2"
    have half: "0 < half" "half < sz" "half \<le> sz - half"
      using True by (auto simp: half_def)
    have split: "p (xs ! (base + half)) \<longleftrightarrow> base + half < m"
      using 1(2,6) half by simp
    have unfold: "partition_base p xs base sz =
        partition_base p xs (if p (xs ! (base + half)) then base + half else base) (sz - half)"
      using True by (subst partition_base.simps) (simp add: half_def Let_def)
    show ?thesis
      unfolding unfold
      by (rule 1(1) [OF True half_def refl]) (use 1(2-) half split in auto)
  next
    case False
    then show ?thesis
      using 1(2-) by (auto simp: partition_base.simps [of p xs base sz])
  qed
qed

lemma partition_point_eq:
  assumes "\<forall>x \<in> set (dropWhile p xs). \<not> p x"
  shows "partition_point p xs = length (takeWhile p xs)"
proof (cases "xs = []")
  case False
  let ?m = "length (takeWhile p xs)"
  have p_iff: "p (xs ! i) \<longleftrightarrow> i < ?m" if "i < length xs" for i
  proof
    assume "i < ?m"
    then show "p (xs ! i)"
      by (metis nth_mem set_takeWhileD takeWhile_nth)
  next
    assume "p (xs ! i)"
    show "i < ?m"
    proof (rule ccontr)
      assume "\<not> i < ?m"
      moreover have "xs ! i = (takeWhile p xs @ dropWhile p xs) ! i" "i < length (takeWhile p xs @ dropWhile p xs)"
        using that by (simp_all del: length_append)
      ultimately have "xs ! i \<in> set (dropWhile p xs)"
        by (simp only: nth_append if_False length_append) (simp add: nth_mem)
      then show False
        using assms \<open>p (xs ! i)\<close> by blast
    qed
  qed
  have "?m \<le> length xs"
    by (rule length_takeWhile_le)
  then show ?thesis
    using partition_base_inv [of 0 "length xs" xs ?m p] p_iff False by (auto simp: partition_point_def Let_def)
qed (simp add: partition_point_def)

subsection \<open>Popping to an alternative chain\<close>

definition alt_of :: "codecs \<Rightarrow> nat \<Rightarrow> verified_block \<Rightarrow> alt_block_information" where
  "alt_of io c b =
     \<lparr>ab_block = vb_block b, ab_block_blob = block_serialize io (vb_block b), ab_txs = vb_txs b,
      ab_block_hash = vb_hash b, ab_pow_hash = replicate 32 0, ab_height = vb_height b,
      ab_weight = vb_weight b, ab_long_term_weight = vb_long_term_weight b,
      ab_cumulative_difficulty = vb_cumulative_difficulty b, ab_chain_id = c\<rparr>"

text \<open>What \<open>monero_oxide\<close> computes for the block's transactions is what the verified block says of them.\<close>

definition alt_movable :: "codecs \<Rightarrow> verified_block \<Rightarrow> bool" where
  "alt_movable io b \<longleftrightarrow>
     vb_cumulative_difficulty b < 2 ^ 128 \<and>
     block_read io (block_serialize io (vb_block b)) = Some (vb_block b) \<and>
     list_all (\<lambda>x. tx_serialize io (vt_tx x) = vt_blob x \<and> tx_hash_of io (vt_tx x) = vt_hash x \<and>
                   tx_weight_of io (vt_tx x) = vt_weight x \<and> tx_fee (vt_tx x) = Some (vt_fee x)) (vb_txs b)"

lemma pop_to_alt:
  assumes ok: "db_ok t" and b: "block_addable io b t" and add: "add_block io b t = Ok t'" and mv: "alt_movable io b"
  shows "pop_block io (Some c) t' =
     and_then (add_alt_block (alt_of io c b) t) (\<lambda>t''. Ok (t'', vb_height b, vb_hash b, vb_block b))"
proof -
  obtain u coins where u: "with_txs (vb_height b) (length (tx_ids t)) (block_entries io b) t u"
    and t': "t' = with_block io b (info_of b coins (length (rct_outputs u)) (length (tx_ids t))) u"
    using add_block_eq [OF ok b] add by auto
  have ok': "tx_tables_ok t" "txs_addable io (vb_txs b) t" "room_for (vb_txs b) t"
    using ok b by (auto simp: db_ok_def block_addable_def room_for_def dest: txs_addable_ConsD(5))
  obtain u' where u': "with_txs (vb_height b) (length (tx_ids t) + 1) (vb_txs b) t u'"
    and pop: "pop_block io (Some c) t' =
      and_then
       (and_then (remove_txs io (alt_transaction io) (map vt_hash (vb_txs b)) u') (\<lambda>(t, txs).
            add_alt_block
              \<lparr>ab_block = vb_block b, ab_block_blob = block_serialize io (vb_block b), ab_txs = txs,
               ab_block_hash = vb_hash b, ab_pow_hash = replicate 32 0, ab_height = vb_height b,
               ab_weight = vb_weight b, ab_long_term_weight = vb_long_term_weight b,
               ab_cumulative_difficulty =
                 combine_low_high_bits_to_u128 (fst (split_u128_into_low_high_bits (vb_cumulative_difficulty b)))
                   (snd (split_u128_into_low_high_bits (vb_cumulative_difficulty b))),
               ab_chain_id = c\<rparr> t)) (\<lambda>t.
      Ok (t, vb_height b, vb_hash b, vb_block b))"
    using pop_block_with_block [OF ok b u, of "Some c"] unfolding t' option.case by blast
  have "alt_transaction io (vt_tx x) = Ok (id x)" if "x \<in> set (vb_txs b)" for x
    using mv that by (cases x) (auto simp: alt_movable_def list_all_iff alt_transaction_def)
  then have "remove_txs io (alt_transaction io) (map vt_hash (vb_txs b)) u' = Ok (t, map id (vb_txs b))"
    by (intro remove_txs_with_txs [OF ok'(1) _ u' ok'(2,3)]) simp_all
  then show ?thesis
    using mv split_combine_u128 [of "vb_cumulative_difficulty b"] by (simp add: pop alt_of_def alt_movable_def split_beta)
qed

text \<open>Reading back the transactions of an alternative block that were not stored before.\<close>

lemma add_alt_transaction_blob_tables:
  "tx_ids (add_alt_transaction_blob tx t) = tx_ids t"
  "map_of (alt_transaction_infos (add_alt_transaction_blob tx t)) =
     (map_of (alt_transaction_infos t))(vt_hash tx \<mapsto> \<lparr>ati_tx_weight = vt_weight tx, ati_fee = vt_fee tx, ati_tx_hash = vt_hash tx\<rparr>)"
  "h \<noteq> vt_hash tx \<Longrightarrow> map_of (alt_transaction_blobs (add_alt_transaction_blob tx t)) h = map_of (alt_transaction_blobs t) h"
  "map_of (tx_ids t) (vt_hash tx) = None \<Longrightarrow> map_of (alt_transaction_blobs t) (vt_hash tx) = None \<Longrightarrow>
     map_of (alt_transaction_blobs (add_alt_transaction_blob tx t)) (vt_hash tx) = Some (vt_blob tx)"
  by (simp_all add: add_alt_transaction_blob_def Let_def map_of_tbl_put tbl_get_def)

lemma fold_add_alt_transactions_other:
  "h \<notin> vt_hash ` set txs \<Longrightarrow>
     map_of (alt_transaction_blobs (fold add_alt_transaction_blob txs t)) h = map_of (alt_transaction_blobs t) h \<and>
     map_of (alt_transaction_infos (fold add_alt_transaction_blob txs t)) h = map_of (alt_transaction_infos t) h"
  by (induction txs arbitrary: t) (simp_all add: add_alt_transaction_blob_tables)

lemma fold_add_alt_transactions:
  assumes "distinct (map vt_hash txs)"
    "\<And>x. x \<in> set txs \<Longrightarrow> map_of (tx_ids t) (vt_hash x) = None \<and> map_of (alt_transaction_blobs t) (vt_hash x) = None"
    "x \<in> set txs"
  shows "map_of (alt_transaction_blobs (fold add_alt_transaction_blob txs t)) (vt_hash x) = Some (vt_blob x) \<and>
    map_of (alt_transaction_infos (fold add_alt_transaction_blob txs t)) (vt_hash x) =
       Some \<lparr>ati_tx_weight = vt_weight x, ati_fee = vt_fee x, ati_tx_hash = vt_hash x\<rparr>"
  using assms
proof (induction txs arbitrary: t)
  case (Cons y txs)
  show ?case
  proof (cases "x = y")
    case True
    then show ?thesis
      using Cons.prems(1,2) fold_add_alt_transactions_other [of "vt_hash y" txs "add_alt_transaction_blob y t"]
      by (simp add: add_alt_transaction_blob_tables)
  next
    case False
    then have "x \<in> set txs"
      using Cons.prems(3) by simp
    moreover have "map_of (tx_ids (add_alt_transaction_blob y t)) (vt_hash z) = None \<and>
        map_of (alt_transaction_blobs (add_alt_transaction_blob y t)) (vt_hash z) = None" if "z \<in> set txs" for z
    proof -
      have "vt_hash z \<noteq> vt_hash y"
        using Cons.prems(1) that by (metis distinct.simps(2) image_eqI list.set_map list.simps(9))
      then show ?thesis
        using Cons.prems(2) [of z] that by (simp add: add_alt_transaction_blob_tables)
    qed
    ultimately show ?thesis
      using Cons.IH Cons.prems(1) by simp
  qed
qed simp

lemma get_alt_transaction_stored:
  assumes "map_of (alt_transaction_blobs t) (vt_hash x) = Some (vt_blob x)"
    "map_of (alt_transaction_infos t) (vt_hash x) = Some \<lparr>ati_tx_weight = vt_weight x, ati_fee = vt_fee x, ati_tx_hash = vt_hash x\<rparr>"
    "tx_read io (vt_blob x) = Some (vt_tx x)"
  shows "get_alt_transaction io (vt_hash x) t = Ok x"
  using assms by (cases x) (simp add: get_alt_transaction_def tbl_get_def)

text \<open>The block's own entries, and the transaction tables untouched by them.\<close>

lemma add_alt_block_tables:
  assumes "add_alt_block ab t = Ok t'"
  shows "\<exists>t1. t' = fold add_alt_transaction_blob (ab_txs ab) t1 \<and>
     map_of (alt_blocks_info t1) (ab_chain_id ab, ab_height ab) =
       Some \<lparr>ca_block_hash = ab_block_hash ab, ca_pow_hash = ab_pow_hash ab, ca_height = ab_height ab,
             ca_weight = ab_weight ab, ca_long_term_weight = ab_long_term_weight ab,
             ca_cumulative_difficulty_low = fst (split_u128_into_low_high_bits (ab_cumulative_difficulty ab)),
             ca_cumulative_difficulty_high = snd (split_u128_into_low_high_bits (ab_cumulative_difficulty ab))\<rparr> \<and>
     map_of (alt_block_blobs t1) (ab_chain_id ab, ab_height ab) = Some (ab_block_blob ab) \<and>
     t1 = t\<lparr>alt_chain_infos := alt_chain_infos t1, alt_block_heights := alt_block_heights t1,
            alt_blocks_info := alt_blocks_info t1, alt_block_blobs := alt_block_blobs t1\<rparr>"
  using assms
  by (auto simp: add_alt_block_def Let_def split_beta and_then_eq_Inr assert_eq_Inr update_alt_chain_info_def map_of_tbl_put
      split: sum.splits if_splits)

lemma flush_add_alt_transactions: "flush_alt_blocks (fold add_alt_transaction_blob txs t) = flush_alt_blocks t"
proof (induction txs arbitrary: t)
  case (Cons x txs)
  moreover have "flush_alt_blocks (add_alt_transaction_blob x t) = flush_alt_blocks t"
    by (simp add: add_alt_transaction_blob_def flush_alt_blocks_def Let_def)
  ultimately show ?case
    by simp
qed simp

lemma alt_block_read_back:
  assumes add: "add_alt_block (alt_of io c b) t = Ok t'" and mv: "alt_movable io b" and b: "block_addable io b t"
    and new: "list_all (\<lambda>x. vt_hash x \<notin> fst ` set (alt_transaction_blobs t)) (vb_txs b)"
  shows "get_alt_block io (c, vb_height b) t' = Ok (alt_of io c b)" "flush_alt_blocks t' = flush_alt_blocks t"
proof -
  obtain t1 where t1: "t' = fold add_alt_transaction_blob (vb_txs b) t1"
     "map_of (alt_blocks_info t1) (c, vb_height b) =
       Some \<lparr>ca_block_hash = vb_hash b, ca_pow_hash = replicate 32 0, ca_height = vb_height b,
             ca_weight = vb_weight b, ca_long_term_weight = vb_long_term_weight b,
             ca_cumulative_difficulty_low = fst (split_u128_into_low_high_bits (vb_cumulative_difficulty b)),
             ca_cumulative_difficulty_high = snd (split_u128_into_low_high_bits (vb_cumulative_difficulty b))\<rparr>"
     "map_of (alt_block_blobs t1) (c, vb_height b) = Some (block_serialize io (vb_block b))"
    and same: "t1 = t\<lparr>alt_chain_infos := alt_chain_infos t1, alt_block_heights := alt_block_heights t1,
            alt_blocks_info := alt_blocks_info t1, alt_block_blobs := alt_block_blobs t1\<rparr>"
    using add_alt_block_tables [OF add] by (auto simp: alt_of_def)
  have same': "tx_ids t1 = tx_ids t" "alt_transaction_blobs t1 = alt_transaction_blobs t"
    by (subst same, simp)+
  have addable: "txs_addable io (vb_txs b) t" and hashes: "map vt_hash (vb_txs b) = transactions (vb_block b)"
    using b txs_addable_ConsD(5) by (auto simp: block_addable_def)
  have read: "get_alt_transaction io (vt_hash x) t' = Ok x" if x: "x \<in> set (vb_txs b)" for x
  proof (rule get_alt_transaction_stored)
    have "map_of (tx_ids t1) (vt_hash y) = None \<and> map_of (alt_transaction_blobs t1) (vt_hash y) = None" if "y \<in> set (vb_txs b)" for y
      using addable new that by (auto simp: same' map_of_eq_None_iff txs_addable_def list_all_iff)
    moreover have "distinct (map vt_hash (vb_txs b))"
      using addable by (simp add: txs_addable_def)
    ultimately show "map_of (alt_transaction_blobs t') (vt_hash x) = Some (vt_blob x)"
      "map_of (alt_transaction_infos t') (vt_hash x) = Some \<lparr>ati_tx_weight = vt_weight x, ati_fee = vt_fee x, ati_tx_hash = vt_hash x\<rparr>"
      using fold_add_alt_transactions [of "vb_txs b" t1 x] x t1(1) by blast+
    show "tx_read io (vt_blob x) = Some (vt_tx x)"
      using addable x by (simp add: txs_addable_def list_all_iff tx_storable_def)
  qed
  have "collect_results (\<lambda>h. get_alt_transaction io h t') (transactions (vb_block b)) = Ok (vb_txs b)"
    unfolding hashes [symmetric] by (simp add: collect_results_Ok list_all2_map1 list_all2_same read)
  then show "get_alt_block io (c, vb_height b) t' = Ok (alt_of io c b)"
    using t1 mv split_combine_u128 [of "vb_cumulative_difficulty b"]
    by (simp add: get_alt_block_def tbl_get_def alt_movable_def alt_of_def split_beta)
  have "flush_alt_blocks t' = flush_alt_blocks t1"
    by (simp add: t1(1) flush_add_alt_transactions)
  also have "\<dots> = flush_alt_blocks t"
    by (subst same) (simp add: flush_alt_blocks_def)
  finally show "flush_alt_blocks t' = flush_alt_blocks t" .
qed

lemma tbl_contains_None: "\<not> tbl_contains t k \<longleftrightarrow> tbl_get t k = Err KeyNotFound"
  by (cases "map_of t k") (simp_all add: tbl_contains_def tbl_get_def)

subsection \<open>Theorems\<close>

text \<open>
  C24: The compact chain history ends, starts at the tip, strictly descends, and ends at the genesis block, which is appended exactly
  when the powers of two miss it.
\<close>

theorem compact_history_descends_to_genesis:
  assumes "tip < 2 ^ 62"
  shows "\<exists>hs. compact_heights tip 0 = Some hs \<and>
    (let heights = hs @ (if compact_history_genesis_not_included tip then [0] else [])
     in hd heights = tip \<and> last heights = 0 \<and> sorted_wrt (>) heights)"
proof -
  obtain hs where hs: "compact_heights tip 0 = Some hs" "hs \<noteq> []" "hd hs = tip" "sorted_wrt (>) hs"
    "0 \<in> set hs \<longleftrightarrow> \<not> compact_history_genesis_not_included tip"
    using compact_heights_spec [OF assms] by blast
  show ?thesis
  proof (cases "compact_history_genesis_not_included tip")
    case True
    then have "\<forall>h \<in> set hs. 0 < h"
      using hs(5) by (metis gr0I)
    then show ?thesis
      using True hs by (intro exI [of _ hs]) (simp add: sorted_wrt_append)
  next
    case False
    obtain ys y where ys: "hs = ys @ [y]"
      using hs(2) by (cases hs rule: rev_cases) auto
    have "y = 0"
      using hs(4,5) False by (auto simp: ys sorted_wrt_append)
    then show ?thesis
      using False hs ys by (intro exI [of _ hs]) simp
  qed
qed

theorem compact_history_descends_to_genesis_witness:
  "\<exists>hs. compact_heights 3000000 0 = Some hs \<and>
    (let heights = hs @ (if compact_history_genesis_not_included 3000000 then [0] else [])
     in hd heights = 3000000 \<and> last heights = 0 \<and> sorted_wrt (>) heights)"
  by (rule compact_history_descends_to_genesis) simp

text \<open>
  C25: \<open>find_first_unknown\<close> on a list whose known hashes come first returns the first unknown one with the height after the last known
  one; when that last known block is on an alternative chain only, it returns an error instead.
\<close>

theorem find_first_unknown_spec:
  assumes "\<forall>h \<in> set known. block_exists h t \<or> tbl_contains (alt_block_heights t) h"
    and "\<forall>h \<in> set unknown. \<not> block_exists h t \<and> \<not> tbl_contains (alt_block_heights t) h"
  shows "find_first_unknown (known @ unknown) t =
    (if unknown = [] then Ok None
     else if known = [] then Ok (Some (0, 0))
     else if block_exists (last known) t
     then and_then (get_block_height (last known) t) (\<lambda>height. Ok (Some (length known, height + 1)))
     else Err (Fault KeyNotFound))"
proof -
  let ?p = "\<lambda>b. (block_exists b t \<or> True \<and> tbl_contains (alt_block_heights t) b) = True"
  have known: "?p x" if "x \<in> set known" for x
    using assms(1) that by simp
  have unknown: "\<not> ?p x" if "x \<in> set unknown" for x
    using assms(2) that by simp
  have "takeWhile ?p unknown = []" "dropWhile ?p unknown = unknown"
    using unknown by (cases unknown; simp)+
  then have "takeWhile ?p (known @ unknown) = known" "dropWhile ?p (known @ unknown) = unknown"
    using takeWhile_append2 [of known ?p unknown] dropWhile_append2 [of known ?p unknown] known by auto
  then have split: "find_split_point (known @ unknown) True True t = length known"
    unfolding find_split_point_def using partition_point_eq [of ?p "known @ unknown"] unknown by simp
  show ?thesis
  proof (cases "known = [] \<or> unknown = []")
    case False
    then have "(known @ unknown) ! (length known - 1) = last known"
      by (simp add: nth_append last_conv_nth)
    then show ?thesis
      using False by (simp add: find_first_unknown_def split block_exists_def tbl_contains_None get_block_height_def Let_def)
  qed (auto simp: find_first_unknown_def split Let_def)
qed

theorem find_first_unknown_spec_witness:
  "find_first_unknown ([[5]] @ [[8]]) store_tables = Ok (Some (1, 1)) \<and>
   find_first_unknown ([[5], [2]] @ [[8]]) (store_tables\<lparr>alt_block_heights := [([2], (7, 1))]\<rparr>) = Err (Fault KeyNotFound)"
  using find_first_unknown_spec [of "[[5]]" store_tables "[[8]]"]
    find_first_unknown_spec [of "[[5], [2]]" "store_tables\<lparr>alt_block_heights := [([2], (7, 1))]\<rparr>" "[[8]]"]
  by (simp add: store_tables_def empty_tables_def block_exists_def tbl_contains_iff get_block_height_def tbl_get_def)

text \<open>
  \<open>txs_in_block\<close> checks how many transactions are asked for but not their indices: an index at or above the number of the block's
  transactions returns a transaction of a later block.
\<close>

theorem txs_in_block_ignores_block_end:
  assumes "get_block_height hash t = Ok h" "get_block_blob_with_tx_indexes io h t = Ok (blob, m, n)" "0 < n"
    and "m + 1 + k < 2 ^ 64" "tbl_get (tx_blobs t) (m + 1 + k) = Ok tx"
  shows "txs_in_block io hash [k] t = Ok (Some (blob, [tx]))"
  using assms by (simp add: txs_in_block_def Let_def wadd_exact)

text \<open>A block with one transaction, and the miner transaction of the next block read as its second.\<close>

definition late_tables :: tables where
  "late_tables = store_tables
     \<lparr>block_txs_hashes := [(0, [[10, 1]])], tx_blobs := [(0, [2, 0]), (1, [1]), (2, [2, 1])]\<rparr>"

theorem txs_in_block_ignores_block_end_witness:
  "\<exists>blob m. get_block_blob_with_tx_indexes store_codecs 0 late_tables = Ok (blob, m, 1) \<and>
     txs_in_block store_codecs [5] [1] late_tables = Ok (Some (blob, [[2, 1]]))"
proof -
  have read: "get_block_height [5] late_tables = Ok 0"
    "get_block_blob_with_tx_indexes store_codecs 0 late_tables = Ok ([9] @ [2, 0] @ [1] @ [10, 1], 0, 1)"
    by (simp_all add: late_tables_def store_tables_def empty_tables_def get_block_height_def tbl_get_def
        get_block_blob_with_tx_indexes_def store_codecs_def Let_def)
  have "txs_in_block store_codecs [5] [1] late_tables = Ok (Some ([9] @ [2, 0] @ [1] @ [10, 1], [[2, 1]]))"
    by (rule txs_in_block_ignores_block_end [OF read]) (simp_all add: late_tables_def tbl_get_def)
  then show ?thesis
    using read(2) by blast
qed

end
