(* ===== verification/Reorg_Store.thy ===== *)
theory Reorg_Store
  imports Service_Laws
begin

text \<open>
  Popping several blocks of the main chain, as a reorganisation does. The main chain's operations do not depend on the alternative chains,
  so \<open>built\<close> is used for the tables without them. \<open>PopBlocks\<close> flushes the alternative chains and moves the popped blocks, newest first,
  to a new one; reading that chain gives the blocks back, oldest first.
\<close>

subsection \<open>The main chain apart from the alternative chains\<close>

definition with_alts :: "tables \<Rightarrow> tables \<Rightarrow> tables" where
  "with_alts a t =
     t\<lparr>alt_chain_infos := alt_chain_infos a, alt_block_heights := alt_block_heights a, alt_blocks_info := alt_blocks_info a,
       alt_block_blobs := alt_block_blobs a, alt_transaction_blobs := alt_transaction_blobs a,
       alt_transaction_infos := alt_transaction_infos a\<rparr>"

lemma with_alts_simps [simp]:
  "block_header_blobs (with_alts a t) = block_header_blobs t" "block_txs_hashes (with_alts a t) = block_txs_hashes t"
  "block_heights (with_alts a t) = block_heights t" "block_infos (with_alts a t) = block_infos t"
  "key_images (with_alts a t) = key_images t" "num_outputs (with_alts a t) = num_outputs t"
  "outputs_table (with_alts a t) = outputs_table t" "rct_outputs (with_alts a t) = rct_outputs t"
  "tx_blobs (with_alts a t) = tx_blobs t" "tx_ids (with_alts a t) = tx_ids t" "tx_heights (with_alts a t) = tx_heights t"
  "tx_outputs (with_alts a t) = tx_outputs t" "tx_unlock_time (with_alts a t) = tx_unlock_time t"
  "alt_chain_infos (with_alts a t) = alt_chain_infos a" "alt_block_heights (with_alts a t) = alt_block_heights a"
  "alt_blocks_info (with_alts a t) = alt_blocks_info a" "alt_block_blobs (with_alts a t) = alt_block_blobs a"
  "alt_transaction_blobs (with_alts a t) = alt_transaction_blobs a"
  "alt_transaction_infos (with_alts a t) = alt_transaction_infos a"
  "with_alts t t = t" "with_alts a (with_alts b t) = with_alts a t"
  by (simp_all add: with_alts_def)

lemma with_alts_update [simp]:
  "(with_alts a t)\<lparr>key_images := k\<rparr> = with_alts a (t\<lparr>key_images := k\<rparr>)"
  "(with_alts a t)\<lparr>num_outputs := n\<rparr> = with_alts a (t\<lparr>num_outputs := n\<rparr>)"
  "(with_alts a t)\<lparr>outputs_table := u\<rparr> = with_alts a (t\<lparr>outputs_table := u\<rparr>)"
  "(with_alts a t)\<lparr>rct_outputs := r\<rparr> = with_alts a (t\<lparr>rct_outputs := r\<rparr>)"
  "(with_alts a t)\<lparr>tx_outputs := w\<rparr> = with_alts a (t\<lparr>tx_outputs := w\<rparr>)"
  "(with_alts a t)\<lparr>tx_unlock_time := v\<rparr> = with_alts a (t\<lparr>tx_unlock_time := v\<rparr>)"
  "(with_alts a t)\<lparr>tx_ids := i\<rparr> = with_alts a (t\<lparr>tx_ids := i\<rparr>)"
  "(with_alts a t)\<lparr>tx_blobs := b\<rparr> = with_alts a (t\<lparr>tx_blobs := b\<rparr>)"
  "(with_alts a t)\<lparr>tx_heights := h\<rparr> = with_alts a (t\<lparr>tx_heights := h\<rparr>)"
  "(with_alts a t)\<lparr>block_infos := bi\<rparr> = with_alts a (t\<lparr>block_infos := bi\<rparr>)"
  "(with_alts a t)\<lparr>block_header_blobs := hb\<rparr> = with_alts a (t\<lparr>block_header_blobs := hb\<rparr>)"
  "(with_alts a t)\<lparr>block_txs_hashes := th\<rparr> = with_alts a (t\<lparr>block_txs_hashes := th\<rparr>)"
  "(with_alts a t)\<lparr>block_heights := bh\<rparr> = with_alts a (t\<lparr>block_heights := bh\<rparr>)"
  by (simp_all add: with_alts_def)

lemma flush_with_alts: "flush_alt_blocks t = with_alts empty_tables t"
  by (simp add: flush_alt_blocks_def with_alts_def empty_tables_def)

lemma add_input_images_alts: "add_input_images ins (with_alts a t) = with_alts a (add_input_images ins t)"
  by (induction ins t rule: add_input_images.induct) (simp_all add: add_key_image_def)

lemma add_pre_rct_outputs_alts:
  "add_pre_rct_outputs h f i outs (with_alts a t) = map_prod (with_alts a) id (add_pre_rct_outputs h f i outs t)"
  by (induction h f i outs t rule: add_pre_rct_outputs.induct) (simp_all add: add_output_def Let_def split_beta)

lemma add_rct_outputs_alts:
  "add_rct_outputs io m p h f i k outs (with_alts a t) =
     map_sum id (map_prod (with_alts a) id) (add_rct_outputs io m p h f i k outs t)"
  by (induction io m p h f i k outs t rule: add_rct_outputs.induct)
    (auto simp: add_rct_output_def get_rct_num_outputs_def Let_def and_then_def split: sum.splits)

lemma add_tx_alts:
  "add_tx io tx blob hash h (with_alts a t) = map_sum id (map_prod (with_alts a) id) (add_tx io tx blob hash h t)"
  by (auto simp: add_tx_def get_num_tx_def Let_def assert_def add_input_images_alts add_pre_rct_outputs_alts add_rct_outputs_alts
      and_then_def split_beta split: timelock.split transaction.split sum.splits)

lemma add_txs_alts: "add_txs io txs h (with_alts a t) = map_sum id (with_alts a) (add_txs io txs h t)"
  by (induction io txs h t rule: add_txs.induct) (auto simp: add_tx_alts and_then_def split_beta split: sum.splits)

lemma add_block_alts: "add_block io b (with_alts a t) = map_sum id (with_alts a) (add_block io b t)"
  by (auto simp: add_block_def add_tx_alts add_txs_alts and_then_def split_beta Let_def assert_def chain_height_of_def
      get_rct_num_outputs_def cumulative_generated_coins_at_def split: sum.splits)

lemma main_reads_alts [simp]:
  "chain_height_of (with_alts a t) = chain_height_of t" "db_ok (with_alts a t) = db_ok t"
  "block_addable io b (with_alts a t) = block_addable io b t"
  by (simp_all add: chain_height_of_def db_ok_def tx_tables_ok_def block_addable_def txs_addable_def room_for_def)

subsection \<open>One block\<close>

definition compact_info_of :: "verified_block \<Rightarrow> compact_alt_block_info" where
  "compact_info_of b =
     \<lparr>ca_block_hash = vb_hash b, ca_pow_hash = replicate 32 0, ca_height = vb_height b,
      ca_weight = vb_weight b, ca_long_term_weight = vb_long_term_weight b,
      ca_cumulative_difficulty_low = fst (split_u128_into_low_high_bits (vb_cumulative_difficulty b)),
      ca_cumulative_difficulty_high = snd (split_u128_into_low_high_bits (vb_cumulative_difficulty b))\<rparr>"

definition alt_stored :: "codecs \<Rightarrow> nat \<Rightarrow> tables \<Rightarrow> verified_block \<Rightarrow> bool" where
  "alt_stored io c t b \<longleftrightarrow>
     map_of (alt_blocks_info t) (c, vb_height b) = Some (compact_info_of b) \<and>
     map_of (alt_block_blobs t) (c, vb_height b) = Some (block_serialize io (vb_block b)) \<and>
     (\<forall>x \<in> set (vb_txs b). map_of (alt_transaction_blobs t) (vt_hash x) = Some (vt_blob x) \<and>
        map_of (alt_transaction_infos t) (vt_hash x) =
          Some \<lparr>ati_tx_weight = vt_weight x, ati_fee = vt_fee x, ati_tx_hash = vt_hash x\<rparr>)"

definition alt_readable :: "codecs \<Rightarrow> verified_block \<Rightarrow> bool" where
  "alt_readable io b \<longleftrightarrow> alt_movable io b \<and> map vt_hash (vb_txs b) = transactions (vb_block b) \<and> list_all (tx_storable io) (vb_txs b)"

lemma alt_stored_read:
  assumes "alt_stored io c t b" "alt_readable io b"
  shows "get_alt_block io (c, vb_height b) t = Ok (alt_of io c b)"
proof -
  have "get_alt_transaction io (vt_hash x) t = Ok x" if "x \<in> set (vb_txs b)" for x
    using that assms by (intro get_alt_transaction_stored) (auto simp: alt_stored_def alt_readable_def tx_storable_def list_all_iff)
  then have "collect_results (\<lambda>h. get_alt_transaction io h t) (map vt_hash (vb_txs b)) = Ok (vb_txs b)"
    by (simp add: collect_results_Ok list_all2_map1 list_all2_same)
  then show ?thesis
    using assms split_combine_u128 [of "vb_cumulative_difficulty b"]
    by (simp add: get_alt_block_def tbl_get_def alt_movable_def alt_of_def alt_stored_def alt_readable_def compact_info_of_def split_beta)
qed

text \<open>The chain of the popped blocks \<open>bs\<close>, oldest first: its tables hold them, and nothing of the main chain.\<close>

definition popped :: "codecs \<Rightarrow> nat \<Rightarrow> verified_block list \<Rightarrow> tables \<Rightarrow> bool" where
  "popped io c bs t \<longleftrightarrow>
     alt_chain_infos t =
       (if bs = [] then []
        else [(c, \<lparr>parent_chain = raw_chain Main, common_ancestor_height = vb_height (hd bs) - 1,
                   aci_chain_height = vb_height (hd bs) + length bs\<rparr>)]) \<and>
     fst ` set (alt_block_heights t) \<inter> fst ` set (block_heights t) = {} \<and>
     fst ` set (alt_transaction_blobs t) \<inter> fst ` set (tx_ids t) = {} \<and>
     list_all (alt_stored io c t) bs \<and> list_all (alt_readable io) bs \<and>
     map vb_height bs = [chain_height_of t..<chain_height_of t + length bs]"

lemma popped_none: "popped io c [] (flush_alt_blocks t)"
  by (simp add: popped_def flush_alt_blocks_def)

lemma add_block_keeps_alts:
  assumes "add_block io b t = Ok t'"
  shows "with_alts t t' = t'"
  using add_block_alts [of io b t t] assms by simp

lemma with_txs_ids: "with_txs h i xs base t \<Longrightarrow> map fst (tx_ids t) = map fst (tx_ids base) @ map vt_hash xs"
  by (auto simp: with_txs_def stored_def)

lemma tx_ids_after:
  assumes "db_ok t" "block_addable io b t" "add_block io b t = Ok t'"
  shows "fst ` set (tx_ids t') = fst ` set (tx_ids t) \<union> vt_hash ` set (block_entries io b)"
proof -
  obtain u coins where u: "with_txs (vb_height b) (length (tx_ids t)) (block_entries io b) t u"
    and t': "t' = with_block io b (info_of b coins (length (rct_outputs u)) (length (tx_ids t))) u"
    using add_block_eq [OF assms(1,2)] assms(3) by auto
  show ?thesis
    using arg_cong [OF with_txs_ids [OF u], of set] by (simp add: t' with_block_def del: set_map) (simp only: set_map list.set image_insert)
qed

lemma block_heights_after:
  assumes "db_ok t" "block_addable io b t" "add_block io b t = Ok t'"
  shows "block_heights t' = block_heights t @ [(vb_hash b, vb_height b)]"
proof -
  obtain u coins where u: "with_txs (vb_height b) (length (tx_ids t)) (block_entries io b) t u"
    and t': "t' = with_block io b (info_of b coins (length (rct_outputs u)) (length (tx_ids t))) u"
    using add_block_eq [OF assms(1,2)] assms(3) by auto
  show ?thesis
    by (simp add: t' with_block_def with_txs_block_tables [OF u])
qed

text \<open>The tables after the block is added to the chain of the blocks popped before it.\<close>

lemma add_alt_block_below:
  assumes infos: "alt_chain_infos t = (if n = 0 then [] else [(c, \<lparr>parent_chain = raw_chain Main, common_ancestor_height = vb_height b,
      aci_chain_height = Suc (vb_height b) + n\<rparr>)])"
    and b: "0 < vb_height b" "length (vb_txs b) = length (transactions (vb_block b))"
    and prev: "previous (header (vb_block b)) \<noteq> vb_hash b" "previous (header (vb_block b)) \<notin> fst ` set (alt_block_heights t)"
  shows "add_alt_block (alt_of io c b) t = Ok (fold add_alt_transaction_blob (vb_txs b)
    (t\<lparr>alt_block_heights := tbl_put (alt_block_heights t) (vb_hash b) (c, vb_height b),
       alt_chain_infos := [(c, \<lparr>parent_chain = raw_chain Main, common_ancestor_height = vb_height b - 1,
                                aci_chain_height = vb_height b + Suc n\<rparr>)],
       alt_blocks_info := tbl_put (alt_blocks_info t) (c, vb_height b) (compact_info_of b),
       alt_block_blobs := tbl_put (alt_block_blobs t) (c, vb_height b) (block_serialize io (vb_block b))\<rparr>))"
proof -
  have "map_of (tbl_put (alt_block_heights t) (vb_hash b) (c, vb_height b)) (previous (header (vb_block b))) = None"
    using prev by (simp add: map_of_tbl_put map_of_eq_None_iff)
  then have "tbl_get (tbl_put (alt_block_heights t) (vb_hash b) (c, vb_height b)) (previous (header (vb_block b))) = Inl KeyNotFound"
    by (simp add: tbl_get_def)
  then show ?thesis
    using b by (simp add: add_alt_block_def alt_of_def update_alt_chain_info_def infos tbl_get_def [of "[]"] tbl_get_def [of "[(c, _)]"]
        tbl_put_def [of "[]"] tbl_put_def [of "[(c, _)]"] checked_sub_def unwrap_def assert_def compact_info_of_def Let_def split_beta)
qed

lemma fold_add_alt_transactions_same:
  "tx_ids (fold add_alt_transaction_blob txs t) = tx_ids t" "block_heights (fold add_alt_transaction_blob txs t) = block_heights t"
  "alt_chain_infos (fold add_alt_transaction_blob txs t) = alt_chain_infos t"
  "alt_block_heights (fold add_alt_transaction_blob txs t) = alt_block_heights t"
  "alt_blocks_info (fold add_alt_transaction_blob txs t) = alt_blocks_info t"
  "alt_block_blobs (fold add_alt_transaction_blob txs t) = alt_block_blobs t"
  "fst ` set (alt_transaction_blobs (fold add_alt_transaction_blob txs t)) \<subseteq>
     fst ` set (alt_transaction_blobs t) \<union> vt_hash ` set txs"
proof (induction txs arbitrary: t)
  case (Cons x txs)
  case 7
  have "fst ` set (alt_transaction_blobs (add_alt_transaction_blob x t)) \<subseteq> insert (vt_hash x) (fst ` set (alt_transaction_blobs t))"
    by (auto simp: add_alt_transaction_blob_def Let_def keys_tbl_put)
  then show ?case
    using Cons(7) [of "add_alt_transaction_blob x t"] by (simp only: fold_simps list.set image_insert) blast
qed (simp_all add: add_alt_transaction_blob_def Let_def)

lemma pop_one:
  assumes ok: "db_ok t" and b: "block_addable io b t" and add: "add_block io b t = Ok t'" and mv: "alt_movable io b"
    and popped: "popped io c bs t'" and prev: "previous (header (vb_block b)) \<in> fst ` set (block_heights t)"
  shows "\<exists>t''. pop_block io (Some c) t' = Ok (t'', vb_height b, vb_hash b, vb_block b) \<and>
    popped io c (b # bs) t'' \<and> with_alts t t'' = t"
proof -
  let ?h = "vb_height b"
  have same: "alt_chain_infos t' = alt_chain_infos t" "alt_block_heights t' = alt_block_heights t"
    "alt_blocks_info t' = alt_blocks_info t" "alt_block_blobs t' = alt_block_blobs t"
    "alt_transaction_blobs t' = alt_transaction_blobs t" "alt_transaction_infos t' = alt_transaction_infos t"
    by (subst add_block_keeps_alts [OF add, symmetric], simp)+
  have h: "?h = chain_height_of t" "chain_height_of t' = Suc ?h"
    using b add_block_keeps_ok(2) [OF ok b add] by (simp_all add: block_addable_def)
  have "0 < ?h"
    using prev h(1) by (cases "block_heights t") (simp_all add: chain_height_of_def tbl_len_def)
  note at = popped [unfolded popped_def same]
  have heights: "map vb_height bs = [Suc ?h..<Suc ?h + length bs]"
    using at h by simp
  then have hd: "bs \<noteq> [] \<Longrightarrow> vb_height (hd bs) = Suc ?h"
    by (cases bs) (auto simp: upt_rec)
  have own: "vb_hash b \<notin> fst ` set (block_heights t)" "map vt_hash (vb_txs b) = transactions (vb_block b)"
    "txs_addable io (block_entries io b) t"
    using b by (simp_all add: block_addable_def)
  have txs: "txs_addable io (vb_txs b) t"
    by (rule txs_addable_ConsD(5) [OF own(3)])
  have disj: "fst ` set (alt_block_heights t) \<inter> (fst ` set (block_heights t) \<union> {vb_hash b}) = {}"
    "fst ` set (alt_transaction_blobs t) \<inter> (fst ` set (tx_ids t) \<union> vt_hash ` set (vb_txs b)) = {}"
    using at block_heights_after [OF ok b add] tx_ids_after [OF ok b add] by auto
  define t1 where "t1 = t\<lparr>alt_block_heights := tbl_put (alt_block_heights t) (vb_hash b) (c, ?h),
       alt_chain_infos := [(c, \<lparr>parent_chain = raw_chain Main, common_ancestor_height = ?h - 1,
                                aci_chain_height = ?h + Suc (length bs)\<rparr>)],
       alt_blocks_info := tbl_put (alt_blocks_info t) (c, ?h) (compact_info_of b),
       alt_block_blobs := tbl_put (alt_block_blobs t) (c, ?h) (block_serialize io (vb_block b))\<rparr>"
  let ?t = "fold add_alt_transaction_blob (vb_txs b) t1"
  have "previous (header (vb_block b)) \<noteq> vb_hash b" "previous (header (vb_block b)) \<notin> fst ` set (alt_block_heights t)"
    using own(1) prev disj(1) by (metis, blast)
  then have "add_alt_block (alt_of io c b) t = Ok ?t"
    unfolding t1_def using at arg_cong [OF own(2), of length] hd \<open>0 < ?h\<close>
    by (intro add_alt_block_below) simp_all
  then have "pop_block io (Some c) t' = Ok (?t, ?h, vb_hash b, vb_block b)"
    by (simp add: pop_to_alt [OF ok b add mv])
  moreover have "alt_stored io c ?t b"
    using fold_add_alt_transactions [of "vb_txs b" t1] txs disj(2)
    by (auto simp: alt_stored_def fold_add_alt_transactions_same t1_def map_of_tbl_put txs_addable_def list_all_iff map_of_eq_None_iff)
  moreover have "list_all (alt_stored io c ?t) bs"
    unfolding list_all_iff
  proof
    fix b' assume b': "b' \<in> set bs"
    have "vb_height b' \<noteq> ?h"
      using heights b' by (metis image_eqI image_set not_less_eq_eq order_refl set_upt atLeastLessThan_iff)
    moreover have "alt_stored io c t' b'"
      using popped b' by (simp add: popped_def list_all_iff)
    moreover have "vt_hash x \<notin> vt_hash ` set (vb_txs b)" if "x \<in> set (vb_txs b')" for x
    proof -
      have "map_of (alt_transaction_blobs t) (vt_hash x) \<noteq> None"
        using calculation(2) that by (simp add: alt_stored_def same)
      then show ?thesis
        using disj(2) by (auto simp: map_of_eq_None_iff)
    qed
    ultimately show "alt_stored io c ?t b'"
      using fold_add_alt_transactions_other [of _ "vb_txs b" t1]
      by (auto simp: alt_stored_def same fold_add_alt_transactions_same t1_def map_of_tbl_put)
  qed
  moreover have "alt_readable io b"
    using mv own(2) txs by (simp add: alt_readable_def txs_addable_def)
  moreover have "with_alts t ?t = t"
    using arg_cong [OF flush_add_alt_transactions [of "vb_txs b" t1], of "with_alts t"]
    by (simp add: flush_with_alts) (simp add: t1_def with_alts_def)
  moreover have "fst ` set (alt_transaction_blobs ?t) \<inter> fst ` set (tx_ids t) = {}"
  proof -
    have "alt_transaction_blobs t1 = alt_transaction_blobs t" "vt_hash ` set (vb_txs b) \<inter> fst ` set (tx_ids t) = {}"
      using txs by (auto simp: t1_def txs_addable_def list_all_iff)
    then show ?thesis
      using fold_add_alt_transactions_same(7) [of "vb_txs b" t1] disj(2) by (simp only:) blast
  qed
  moreover have "chain_height_of ?t = ?h"
    by (simp add: chain_height_of_def fold_add_alt_transactions_same t1_def h(1))
  ultimately show ?thesis
    using at own(1) disj(1) heights
    by (auto simp: popped_def fold_add_alt_transactions_same t1_def keys_tbl_put upt_rec [of ?h] simp del: upt_Suc)
qed

subsection \<open>A run of blocks\<close>

definition linked :: "verified_block list \<Rightarrow> bool" where
  "linked bs \<longleftrightarrow> successively (\<lambda>a b. previous (header (vb_block b)) = vb_hash a) bs"

lemma linked_snoc:
  "linked (bs @ [b]) \<longleftrightarrow> linked bs \<and> (bs \<noteq> [] \<longrightarrow> previous (header (vb_block b)) = vb_hash (last bs))"
  by (auto simp: linked_def successively_append_iff)

lemma built_no_alts: "built io bs t \<Longrightarrow> flush_alt_blocks t = t"
proof (induction rule: built.induct)
  case (built_add bs t b t')
  then show ?case
    using add_block_alts [of io b empty_tables t] by (simp add: flush_with_alts)
qed (simp add: flush_alt_blocks_def empty_tables_def)

lemma built_hashes: "built io bs t \<Longrightarrow> map fst (block_heights t) = map vb_hash bs"
proof (induction rule: built.induct)
  case (built_add bs t b t')
  then show ?case
    using block_heights_after built_ok by (metis (no_types, lifting) list.simps(8,9) map_append fst_conv)
qed (simp add: empty_tables_def)

lemma pop_loop:
  assumes "built io (bs @ bs') (flush_alt_blocks t)" "popped io c rest t" "linked (bs @ bs')" "bs \<noteq> []" "list_all (alt_movable io) bs'"
  shows "\<exists>t'. pop_blocks_loop io c (length bs') t = Ok t' \<and> built io bs (flush_alt_blocks t') \<and> popped io c (bs' @ rest) t'"
  using assms
proof (induction bs' arbitrary: t rest rule: rev_induct)
  case (snoc b bs')
  from snoc.prems(1) have "built io ((bs @ bs') @ [b]) (flush_alt_blocks t)"
    by simp
  then obtain u where u: "built io (bs @ bs') u" "block_addable io b u" "add_block io b u = Ok (flush_alt_blocks t)"
    by (rule built_snocE)
  define t0 where "t0 = with_alts t u"
  have t0: "add_block io b t0 = Ok t" "db_ok t0" "block_addable io b t0" "flush_alt_blocks t0 = u"
    using u built_ok [OF u(1)] built_no_alts [OF u(1)] by (simp_all add: t0_def add_block_alts flush_with_alts)
  have link: "linked (bs @ bs')" "previous (header (vb_block b)) = vb_hash (last (bs @ bs'))"
    using snoc.prems(3,4) linked_snoc [of "bs @ bs'" b] by simp_all
  have "vb_hash (last (bs @ bs')) \<in> set (map vb_hash (bs @ bs'))"
    using snoc.prems(4) last_in_set [of "bs @ bs'"] unfolding set_map by blast
  then have prev: "previous (header (vb_block b)) \<in> fst ` set (block_heights t0)"
    using arg_cong [OF built_hashes [OF u(1)], of set] link(2) by (simp add: t0_def)
  obtain t1 where t1: "pop_block io (Some c) t = Ok (t1, vb_height b, vb_hash b, vb_block b)" "popped io c (b # rest) t1"
      "with_alts t0 t1 = t0"
    using pop_one [OF t0(2,3,1) _ snoc.prems(2) prev] snoc.prems(5) by auto
  have "flush_alt_blocks t1 = u"
    using arg_cong [OF t1(3), of flush_alt_blocks] t0(4) by (simp add: flush_with_alts)
  then show ?case
    using snoc.IH [of t1 "b # rest"] u(1) link(1) t1 snoc.prems(4,5) by simp
qed simp

text \<open>The part of it that the alternative tables hold, whatever happens to the main chain afterwards.\<close>

definition kept :: "codecs \<Rightarrow> nat \<Rightarrow> nat \<Rightarrow> verified_block list \<Rightarrow> tables \<Rightarrow> bool" where
  "kept io c n bs t \<longleftrightarrow>
     alt_chain_infos t = [(c, \<lparr>parent_chain = raw_chain Main, common_ancestor_height = n - 1, aci_chain_height = n + length bs\<rparr>)] \<and>
     list_all (alt_stored io c t) bs \<and> list_all (alt_readable io) bs \<and> map vb_height bs = [n..<n + length bs]"

lemma popped_kept:
  assumes "popped io c bs t" "bs \<noteq> []"
  shows "kept io c (chain_height_of t) bs t"
proof -
  have "vb_height (hd bs) = chain_height_of t"
    using assms by (cases bs) (auto simp: popped_def upt_rec)
  then show ?thesis
    using assms by (simp add: popped_def kept_def)
qed

lemma kept_with_alts: "kept io c n bs (with_alts t u) = kept io c n bs t"
  by (simp add: kept_def alt_stored_def list_all_iff)

lemma kept_add_block: "kept io c n bs t \<Longrightarrow> add_block io b t = Ok t' \<Longrightarrow> kept io c n bs t'"
  using kept_with_alts [of io c n bs t t'] by (simp add: add_block_keeps_alts)

lemma kept_read:
  assumes kept: "kept io c n bs t" and bs: "bs \<noteq> []" "c \<noteq> 0" "0 < n" "n + length bs < 2 ^ 64"
  shows "alt_blocks_in_chain io c t = Some (Ok (map (alt_of io c) bs))"
proof -
  note at = kept [unfolded kept_def]
  let ?n = n
  have ranges: "get_alt_chain_history_ranges 0 (2 ^ 64 - 1) c (alt_chain_infos t) =
      Some (Ok [(Alt c, ?n, ?n + length bs), (Main, 0, ?n)])"
    using at bs
    by (simp add: get_alt_chain_history_ranges_def history_ranges.simps [of 0 "2 ^ 64 - 1"] history_ranges.simps [of 0 18446744073709551615]
        tbl_get_def chain_from_raw_def raw_chain_def)
  have "collect_results (\<lambda>ch. case fst ch of Main \<Rightarrow> Err Panic | Alt c \<Rightarrow> get_alt_block io (c, snd ch) t)
      (map (\<lambda>b. (Alt c, vb_height b)) bs) = Ok (map (alt_of io c) bs)"
    unfolding collect_results_comp using at by (intro collect_results_map) (simp add: list_all_iff alt_stored_read)
  moreover have "map (\<lambda>b. (Alt c, vb_height b)) bs = map (Pair (Alt c)) [?n..<?n + length bs]"
  proof -
    have "map (\<lambda>b. (Alt c, vb_height b)) bs = map (Pair (Alt c)) (map vb_height bs)"
      by simp
    then show ?thesis
      using at by (simp only:)
  qed
  ultimately show ?thesis
    unfolding alt_blocks_in_chain_def ranges by simp
qed

lemma pop_blocks_run:
  assumes "built io (bs @ bs') (flush_alt_blocks t)" "linked (bs @ bs')" "bs \<noteq> []" "list_all (alt_movable io) bs'" "bs' \<noteq> []"
    and "c \<noteq> 0" "length (bs @ bs') < 2 ^ 64"
  shows "\<exists>t'. pop_blocks io c (length bs') t = Ok t' \<and> built io bs (flush_alt_blocks t') \<and> kept io c (length bs) bs' t' \<and>
    alt_blocks_in_chain io c t' = Some (Ok (map (alt_of io c) bs'))"
proof -
  have "flush_alt_blocks (flush_alt_blocks t) = flush_alt_blocks t"
    by (simp add: flush_with_alts)
  then obtain t' where t': "pop_blocks_loop io c (length bs') (flush_alt_blocks t) = Ok t'" "built io bs (flush_alt_blocks t')"
      "popped io c bs' t'"
    using pop_loop [of io bs bs' "flush_alt_blocks t" c "[]"] assms(1-4) popped_none by auto
  have "chain_height_of t' = length bs"
    using built_ok [OF t'(2)] by (simp add: flush_with_alts)
  then have "kept io c (length bs) bs' t'"
    using popped_kept [OF t'(3) assms(5)] by simp
  then show ?thesis
    using t' kept_read [OF _ assms(5,6)] assms(3,7) by (auto simp: pop_blocks_def)
qed

subsection \<open>Theorems\<close>

text \<open>
  C21: \<open>PopBlocks\<close> undoes the writing of the popped blocks, whatever alternative chains there were: the main chain is that of the blocks
  below, and the new alternative chain read back is the popped blocks, oldest first, each as it was written.
\<close>

theorem pop_blocks_moves_run:
  assumes "built io (bs @ bs') (flush_alt_blocks t)" "linked (bs @ bs')" "bs \<noteq> []" "list_all (alt_movable io) bs'" "bs' \<noteq> []"
    and "c \<noteq> 0" "length (bs @ bs') < 2 ^ 64"
  shows "\<exists>t'. pop_blocks io c (length bs') t = Ok t' \<and> built io bs (flush_alt_blocks t') \<and>
    alt_blocks_in_chain io c t' = Some (Ok (map (alt_of io c) bs'))"
  using pop_blocks_run [OF assms] by blast

theorem pop_blocks_moves_run_witness:
  "\<exists>t t'. add_block store_codecs store_block store_tables = Ok t \<and> pop_blocks store_codecs 3 1 t = Ok t' \<and>
     built store_codecs [store_genesis] (flush_alt_blocks t') \<and>
     alt_blocks_in_chain store_codecs 3 t' = Some (Ok [alt_of store_codecs 3 store_block])"
proof -
  obtain t where t: "add_block store_codecs store_block store_tables = Ok t" "built store_codecs [store_genesis, store_block] t"
    using store_built by blast
  have "linked [store_genesis, store_block]" "alt_movable store_codecs store_block"
    by (simp_all add: linked_def alt_movable_def store_eval tx_fee_def checked_add_def checked_sub_def)
  then show ?thesis
    using pop_blocks_moves_run [of store_codecs "[store_genesis]" "[store_block]" t 3] t built_no_alts [OF t(2)] by auto
qed

end
