(* ===== verification/Context_Store.thy ===== *)
theory Context_Store
  imports Task_Laws Reorg_Store
begin

text \<open>
  The context task beside the storage engine. The laws of \<open>context_database\<close> hold for the read requests of the storage engine, and adding
  a block to the tables extends the chain the reads show by that block. So the task stays in sync with the tables when both take the same
  block, and starting it again on the new tables gives the same context.
\<close>

subsection \<open>The storage engine as the context's database\<close>

interpretation store_ctx: context_database store_db store_covers store_history store_hash store_coins
proof
  fix s :: "codecs \<times> tables"
  obtain io t where s: "s = (io, t)"
    by (cases s)
  assume c: "store_covers s Main (length (store_history s Main))" "store_history s Main \<noteq> []"
  have len: "length (store_history s Main) = chain_height_of t"
    using c(1) by (cases "collect_results (header_on_chain io t) (chain_heights t Main)") (auto simp: s dest: collect_results_length)
  moreover have "0 < length (store_history s Main)"
    using c(2) by simp
  ultimately show "store_db s ChainHeight =
      Some (Ok (RChainHeight (length (store_history s Main)) (store_hash s (length (store_history s Main) - 1))))"
    using store_covers_get(2) [OF c(1) [unfolded s], of "chain_height_of t - 1"] len
    by (simp add: s map_request_def read_chain_height_def get_block_info_def Let_def del: store_history.simps store_covers.simps)
qed

subsection \<open>The chain that the tables hold\<close>

definition headers_of :: "verified_block list \<Rightarrow> ext_header list" where
  "headers_of bs = map (\<lambda>b. header_of b (case from_version (hardfork_version (header (vb_block b))) of Inr v \<Rightarrow> v | Inl _ \<Rightarrow> V1)) bs"

definition hash_at :: "verified_block list \<Rightarrow> nat \<Rightarrow> bytes" where
  "hash_at bs i = vb_hash (bs ! i)"

definition coins_after :: "verified_block list \<Rightarrow> nat" where
  "coins_after bs = foldl (\<lambda>c b. min (c + vb_generated_coins b) (2 ^ 64 - 1)) 0 bs"

definition headers_readable :: "verified_block list \<Rightarrow> bool" where
  "headers_readable bs \<longleftrightarrow>
     list_all (\<lambda>b. is_ok (from_version (hardfork_version (header (vb_block b)))) \<and> vb_cumulative_difficulty b < 2 ^ 128) bs"

lemma headers_of_simps [simp]:
  "length (headers_of bs) = length bs" "headers_of (bs @ bs') = headers_of bs @ headers_of bs'" "headers_of bs = [] \<longleftrightarrow> bs = []"
  by (simp_all add: headers_of_def)

lemma coins_after_simps [simp]:
  "coins_after [] = 0" "coins_after (bs @ [b]) = min (coins_after bs + vb_generated_coins b) (2 ^ 64 - 1)"
  by (simp_all add: coins_after_def)

lemma headers_readable_append [simp]: "headers_readable (bs @ bs') \<longleftrightarrow> headers_readable bs \<and> headers_readable bs'"
  by (simp add: headers_readable_def)

definition holds :: "codecs \<Rightarrow> verified_block list \<Rightarrow> tables \<Rightarrow> bool" where
  "holds io bs t \<longleftrightarrow>
     store_covers (io, t) Main (length bs) \<and> store_history (io, t) Main = headers_of bs \<and>
     (\<forall>i < length bs. store_hash (io, t) i = hash_at bs i) \<and> (bs \<noteq> [] \<longrightarrow> store_coins (io, t) (length bs - 1) = coins_after bs)"

lemma holds_with_alts: "holds io bs (with_alts a t) \<longleftrightarrow> holds io bs t"
  by (simp add: holds_def header_on_chain_def get_block_extended_header_from_height_def collect_results_comp)

lemma block_infos_after:
  assumes ok: "db_ok t" and b: "block_addable io b t" and add: "add_block io b t = Ok t'"
  shows "\<exists>info. block_infos t' = block_infos t @ [(vb_height b, info)] \<and> bi_block_hash info = vb_hash b \<and>
    cumulative_generated_coins info =
      min ((if chain_height_of t = 0 then 0 else store_coins (io, t) (chain_height_of t - 1)) + vb_generated_coins b) (2 ^ 64 - 1)"
proof -
  obtain u coins where u: "with_txs (vb_height b) (length (tx_ids t)) (block_entries io b) t u"
    "cumulative_generated_coins_at (vb_height b - 1) t = Ok coins"
    "t' = with_block io b (info_of b coins (length (rct_outputs u)) (length (tx_ids t))) u"
    using add_block_eq [OF ok b] add by auto
  have h: "ids_ok (block_infos t)" "vb_height b = length (block_infos t)"
    using ok b by (simp_all add: db_ok_def block_addable_def db_ok_height [OF ok, symmetric])
  have "coins = (if chain_height_of t = 0 then 0 else store_coins (io, t) (chain_height_of t - 1))"
    using ids_ok_get [of "block_infos t" "vb_height b - 1"] u(2) h
    by (cases "block_infos t = []") (auto simp: cumulative_generated_coins_at_def db_ok_height [OF ok] tbl_get_def [of "[]"])
  then show ?thesis
    by (simp add: u(3) with_block_def with_txs_block_tables [OF u(1)] info_of_def)
qed

lemma collect_results_snoc: "collect_results f xs = Inr ys \<Longrightarrow> f x = Inr y \<Longrightarrow> collect_results f (xs @ [x]) = Inr (ys @ [y])"
  by (simp add: collect_results_Ok list_all2_appendI)

lemma collect_results_cong: "(\<And>x. x \<in> set xs \<Longrightarrow> f x = g x) \<Longrightarrow> collect_results f xs = collect_results g xs"
  by (induction xs) simp_all

lemma holds_add:
  assumes chain: "holds io bs t" "chain_height_of t = length bs" and b: "block_addable io b t" and add: "add_block io b t = Ok t'"
    and ok: "headers_readable [b]"
  shows "holds io (bs @ [b]) t'"
proof -
  let ?n = "length bs"
  have t: "db_ok t" "vb_height b = ?n"
    using chain b by (simp_all add: holds_def block_addable_def)
  have ok': "db_ok t'" and n': "chain_height_of t' = Suc ?n"
    using add_block_keeps_ok [OF t(1) b add] chain(2) by simp_all
  obtain v where v: "from_version (hardfork_version (header (vb_block b))) = Ok v" "vb_cumulative_difficulty b < 2 ^ 128"
    using ok by (auto simp: headers_readable_def is_ok_iff)
  have "collect_results (header_on_chain io t) (map (Pair Main) [0..<?n]) = Inr (headers_of bs)"
    using chain by (auto simp: holds_def is_ok_iff)
  then have "collect_results (header_on_chain io t') (map (Pair Main) [0..<?n]) = Inr (headers_of bs)"
    using reads_of_old_blocks(1) [OF t(1) b add] chain(2)
    by (subst collect_results_cong [where g = "header_on_chain io t"]) (auto simp: header_on_chain_def)
  moreover have "header_on_chain io t' (Main, ?n) = Inr (header_of b v)"
    using reads_of_new_block(3) [OF t(1) b add v] t(2) by (simp add: header_on_chain_def)
  ultimately have hs': "collect_results (header_on_chain io t') (chain_heights t' Main) = Inr (headers_of bs @ [header_of b v])"
    using collect_results_snoc by (simp add: n')
  obtain info where info: "block_infos t' = block_infos t @ [(vb_height b, info)]" "bi_block_hash info = vb_hash b"
    "cumulative_generated_coins info =
      min ((if chain_height_of t = 0 then 0 else store_coins (io, t) (chain_height_of t - 1)) + vb_generated_coins b) (2 ^ 64 - 1)"
    using block_infos_after [OF t(1) b add] by blast
  have len: "length (block_infos t) = ?n"
    using db_ok_height [OF t(1)] chain(2) by simp
  have "store_coins (io, t') ?n = coins_after (bs @ [b])"
    using info(1,3) len chain by (cases bs rule: rev_cases) (simp_all add: nth_append holds_def coins_after_def)
  moreover have "store_hash (io, t') i = hash_at (bs @ [b]) i" if "i < Suc ?n" for i
    using that info(1,2) len chain(1) by (auto simp: nth_append holds_def hash_at_def less_Suc_eq)
  moreover have "headers_of [b] = [header_of b v]"
    by (simp add: headers_of_def v)
  ultimately show ?thesis
    using hs' ok' by (simp add: holds_def n')
qed

lemma built_holds: "built io bs t \<Longrightarrow> headers_readable bs \<Longrightarrow> holds io bs t"
proof (induction rule: built.induct)
  case built_empty
  show ?case
    using db_ok_empty by (simp add: holds_def headers_of_def chain_height_of_def empty_tables_def tbl_len_def)
next
  case (built_add bs t b t')
  then show ?case
    using holds_add built_ok by simp
qed

subsection \<open>The task beside the tables\<close>

definition node_sync :: "codecs \<Rightarrow> context_config \<Rightarrow> verified_block list \<Rightarrow> tables \<Rightarrow> 'vm context_task \<Rightarrow> bool" where
  "node_sync io cfg bs t s \<longleftrightarrow>
     built io bs (flush_alt_blocks t) \<and> bs \<noteq> [] \<and> headers_readable bs \<and>
     in_sync cfg (headers_of bs) (hash_at bs) (coins_after bs) s"

lemma built_holds_alts:
  assumes "built io bs (flush_alt_blocks t)" "headers_readable bs"
  shows "holds io bs t" "chain_height_of t = length bs" "db_ok t"
  using built_holds [OF assms] built_ok [OF assms(1)] holds_with_alts [of io bs empty_tables t] by (simp_all add: flush_with_alts)

lemma node_start:
  fixes new_vm :: "bytes \<Rightarrow> 'vm option"
  assumes "config_ok cfg" "built io bs (flush_alt_blocks t)" "bs \<noteq> []" "headers_readable bs" "length bs < 2 ^ 64" "\<forall>s. new_vm s \<noteq> None"
  shows "\<exists>s. init_context new_vm cfg (store_db (io, t)) = cok s \<and> node_sync io cfg bs t s"
proof -
  note holds = built_holds_alts(1) [OF assms(2,4), unfolded holds_def]
  obtain s where s: "init_context new_vm cfg (store_db (io, t)) = cok s"
    "in_sync cfg (headers_of bs) (store_hash (io, t)) (store_coins (io, t) (length bs - 1)) s"
    using store_ctx.init_in_sync [of cfg "(io, t)" new_vm] holds assms by auto
  then show ?thesis
    using holds assms in_sync_cong [of "headers_of bs" "store_hash (io, t)" "hash_at bs"] by (auto simp: node_sync_def)
qed

end
