(* ===== verification/Tx_Verify.thy ===== *)
theory Tx_Verify
  imports Context_Caches
begin

text \<open>
  Transaction verification: \<^verbatim>\<open>src/consensus/src/transactions.rs\<close>, its \<^verbatim>\<open>free.rs\<close> and \<^verbatim>\<open>contextual_data.rs\<close>, and the output cache of
  \<^verbatim>\<open>src/types/types/src/output_cache.rs\<close>. The verifier reads what it needs from the database, runs the rules of theory \<open>Tx_Rules\<close> on every
  transaction that needs them, and records for each under which conditions it stays valid.

  Parallel iterators are read from left to right: when several transactions fail the code may report the error of any of them, the model
  reports the first. A \<open>HashSet\<close> is a list of its members. The range proofs are queued during the checks and verified together at the end;
  \<open>statement_valid\<close> says whether a queued statement holds, and \<open>verify\<close> accepts when all queued statements hold, on whatever threads they were queued.
\<close>

subsection \<open>Errors\<close>

datatype box_error = BoxRuntime runtime_error | BoxContext context_cache_error

datatype extended_consensus_error =
  ExtConErr consensus_error
| ExtDBErr box_error
| TxsIncludedWithBlockIncorrect
| OneOrMoreBatchVerificationStatementsInvalid
| NoBlocksToVerify

type_synonym 'a verify_result = "(extended_consensus_error fault + 'a) option"

definition from_transaction_error :: "transaction_error fault + 'a \<Rightarrow> extended_consensus_error fault + 'a" where
  "from_transaction_error = map_err (\<lambda>f. case f of Panic \<Rightarrow> Panic | Fault e \<Rightarrow> Fault (ExtConErr (TransactionErr e)))"

definition database_fault :: "runtime_error fault \<Rightarrow> extended_consensus_error fault" where
  "database_fault e = (case e of Panic \<Rightarrow> Panic | Fault r \<Rightarrow> Fault (ExtDBErr (BoxRuntime r)))"

definition ask :: "database \<Rightarrow> read_request \<Rightarrow> (read_response \<Rightarrow> 'a option) \<Rightarrow> 'a verify_result" where
  "ask db req sel = cbind (map_option (map_err database_fault) (db req)) (\<lambda>r. cunwrap (sel r))"

definition as_outputs :: "read_response \<Rightarrow> output_cache option" where
  "as_outputs r = (case r of ROutputs c \<Rightarrow> Some c | _ \<Rightarrow> None)"

lemma as_outputs_Some [simp]: "as_outputs r = Some c \<longleftrightarrow> r = ROutputs c"
  by (cases r) (simp_all add: as_outputs_def)

subsection \<open>Verification data\<close>

record tx_verification_data =
  tv_tx :: transaction
  tv_version :: tx_version_t
  tv_blob :: bytes
  tv_weight :: nat
  tv_fee :: nat
  tv_hash :: bytes
  tv_state :: cached_verification_state

text \<open>
  What the verifier uses of other crates beyond the rules: of \<open>monero_oxide\<close> the codecs, the clawback of a number of outputs, the truth of a
  queued statement, a block's hash and the bytes its proof of work hashes; the hash functions of the proof of work.
\<close>

record 'p verifier =
  rules :: "'p oxide"
  vcodecs :: codecs
  calculate_clawback :: "bool \<Rightarrow> nat \<Rightarrow> nat"
  statement_valid :: "bytes \<Rightarrow> bytes list \<Rightarrow> bool"
  block_hash_of :: "block \<Rightarrow> bytes"
  serialize_pow_hash :: "block \<Rightarrow> bytes"
  pow_functions :: pow_hashes

definition tx_weight :: "'p verifier \<Rightarrow> transaction \<Rightarrow> bytes \<Rightarrow> nat" where
  "tx_weight V tx blob =
     (case tx of
        TxV1 _ _ \<Rightarrow> length blob
      | TxV2 _ None \<Rightarrow> length blob
      | TxV2 _ (Some p) \<Rightarrow>
          (case rct_type_of (rules V) p of
             AggregateMlsagBorromean \<Rightarrow> length blob
           | MlsagBorromean \<Rightarrow> length blob
           | MlsagBulletproofs \<Rightarrow> length blob + calculate_clawback V False (length (outputs (prefix tx)))
           | MlsagBulletproofsCompactAmount \<Rightarrow> length blob + calculate_clawback V False (length (outputs (prefix tx)))
           | ClsagBulletproof \<Rightarrow> length blob + calculate_clawback V False (length (outputs (prefix tx)))
           | ClsagBulletproofPlus \<Rightarrow> length blob + calculate_clawback V True (length (outputs (prefix tx)))))"

fun fee_add_inputs :: "nat \<Rightarrow> input list \<Rightarrow> transaction_error + nat" where
  "fee_add_inputs fee [] = Ok fee"
| "fee_add_inputs fee (ToKey a _ _ # ins) =
     and_then (ok_or InputsOverflow (checked_add 64 fee (unwrap_or_0 a))) (\<lambda>fee. fee_add_inputs fee ins)"
| "fee_add_inputs fee (Gen _ # ins) = fee_add_inputs fee ins"

fun fee_sub_outputs :: "nat \<Rightarrow> tx_output list \<Rightarrow> transaction_error + nat" where
  "fee_sub_outputs fee [] = Ok fee"
| "fee_sub_outputs fee (out # outs) =
     and_then (ok_or OutputsTooHigh (checked_sub fee (unwrap_or_0 (amount out)))) (\<lambda>fee. fee_sub_outputs fee outs)"

definition verifier_tx_fee :: "transaction \<Rightarrow> transaction_error + nat" where
  "verifier_tx_fee tx =
     (case tx of
        TxV1 pre _ \<Rightarrow> and_then (fee_add_inputs 0 (inputs pre)) (\<lambda>fee. fee_sub_outputs fee (outputs pre))
      | TxV2 _ prfs \<Rightarrow> and_then (ok_or TransactionVersionInvalid prfs) (\<lambda>p. Ok (rct_fee (rct_base p))))"

definition new_tx_verification_data :: "'p verifier \<Rightarrow> transaction \<Rightarrow> transaction_error + tx_verification_data" where
  "new_tx_verification_data V tx =
     (let hash = tx_hash_of (vcodecs V) tx; blob = tx_serialize (vcodecs V) tx; weight = tx_weight V tx blob in
      and_then (verifier_tx_fee tx) (\<lambda>fee.
      and_then (ok_or TransactionVersionInvalid (tx_version_from_raw (tx_version (rules V) tx))) (\<lambda>version.
      Ok \<lparr>tv_tx = tx, tv_version = version, tv_blob = blob, tv_weight = weight, tv_fee = fee, tv_hash = hash, tv_state = NotVerified\<rparr>)))"

text \<open>The conversion from a stored transaction; its only error has no content.\<close>

definition verified_to_verification_data :: "'p verifier \<Rightarrow> verified_tx \<Rightarrow> unit + tx_verification_data" where
  "verified_to_verification_data V x =
     and_then (ok_or () (tx_version_from_raw (tx_version (rules V) (vt_tx x)))) (\<lambda>version.
     Ok \<lparr>tv_tx = vt_tx x, tv_version = version, tv_blob = vt_blob x, tv_weight = vt_weight x, tv_fee = vt_fee x, tv_hash = vt_hash x,
         tv_state = NotVerified\<rparr>)"

subsection \<open>The output cache\<close>

definition number_outs_with_amount :: "output_cache \<Rightarrow> nat \<Rightarrow> nat" where
  "number_outs_with_amount c a = (case map_of (number_of_outputs c) a of Some n \<Rightarrow> n | None \<Rightarrow> 0)"

definition cache_get_output :: "output_cache \<Rightarrow> nat \<Rightarrow> nat \<Rightarrow> output_on_chain option" where
  "cache_get_output c a i = Option.bind (map_of (cached_outputs c) a) (\<lambda>m. map_of m i)"

text \<open>An index out of the proofs' commitments panics.\<close>

definition get_output_commitment :: "codecs \<Rightarrow> transaction \<Rightarrow> nat \<Rightarrow> bytes option" where
  "get_output_commitment io tx i =
     (let zero = (if i < length (outputs (prefix tx)) then Some (zero_commitment io (unwrap_or_0 (amount (outputs (prefix tx) ! i)))) else None) in
      case tx of
        TxV1 _ _ \<Rightarrow> zero
      | TxV2 _ None \<Rightarrow> zero
      | TxV2 _ (Some p) \<Rightarrow> (let cs = commitments (rct_base p) in if i < length cs then Some (cs ! i) else None))"

text \<open>\<open>IndexMap::entry(..).or_default().insert(..)\<close> on association lists.\<close>

definition insert_cached :: "nat \<Rightarrow> nat \<Rightarrow> output_on_chain \<Rightarrow> output_cache \<Rightarrow> output_cache" where
  "insert_cached a i out c =
     c\<lparr>cached_outputs :=
         AList.update a (AList.update i out (case map_of (cached_outputs c) a of Some m \<Rightarrow> m | None \<Rightarrow> [])) (cached_outputs c)\<rparr>"

definition cache_add_output :: "codecs \<Rightarrow> bool \<Rightarrow> nat \<Rightarrow> transaction \<Rightarrow> nat \<Rightarrow> tx_output \<Rightarrow> output_cache \<Rightarrow> output_cache option" where
  "cache_add_output io miner height tx i out c =
     (let a = (if miner \<and> tx_version_of io tx = 2 then 0 else unwrap_or_0 (amount out)) in
      case map_of (number_of_outputs c) a of
        None \<Rightarrow> Some c
      | Some n \<Rightarrow>
          let c = c\<lparr>number_of_outputs := AList.update a (wadd 64 n 1) (number_of_outputs c)\<rparr> in
          case map_of (wanted_outputs c) a of
            None \<Rightarrow> Some c
          | Some wanted \<Rightarrow>
              if n \<in> set wanted
              then
                let c = c\<lparr>wanted_outputs := AList.update a (filter (\<lambda>j. j \<noteq> n) wanted) (wanted_outputs c)\<rparr> in
                Option.bind (get_output_commitment io tx i) (\<lambda>commitment.
                Some (insert_cached a n
                        \<lparr>ooc_height = height, ooc_time_lock = additional_timelock (prefix tx), ooc_key = out_key out,
                         ooc_commitment = commitment, ooc_txid = None\<rparr> c))
              else Some c)"

fun cache_add_outputs :: "codecs \<Rightarrow> bool \<Rightarrow> nat \<Rightarrow> transaction \<Rightarrow> nat \<Rightarrow> tx_output list \<Rightarrow> output_cache \<Rightarrow> output_cache option" where
  "cache_add_outputs io miner height tx i [] c = Some c"
| "cache_add_outputs io miner height tx i (out # outs) c =
     Option.bind (cache_add_output io miner height tx i out c) (\<lambda>c. cache_add_outputs io miner height tx (Suc i) outs c)"

definition cache_add_tx :: "codecs \<Rightarrow> bool \<Rightarrow> nat \<Rightarrow> transaction \<Rightarrow> output_cache \<Rightarrow> output_cache option" where
  "cache_add_tx io miner height tx c = cache_add_outputs io miner height tx 0 (outputs (prefix tx)) c"

fun cache_add_txs :: "codecs \<Rightarrow> nat \<Rightarrow> verified_tx list \<Rightarrow> output_cache \<Rightarrow> output_cache option" where
  "cache_add_txs io height [] c = Some c"
| "cache_add_txs io height (x # xs) c = Option.bind (cache_add_tx io False height (vt_tx x) c) (\<lambda>c. cache_add_txs io height xs c)"

definition add_block_to_cache :: "codecs \<Rightarrow> verified_block \<Rightarrow> output_cache \<Rightarrow> output_cache option" where
  "add_block_to_cache io b c =
     Option.bind (cache_add_tx io True (vb_height b) (miner_transaction (vb_block b)) c) (\<lambda>c.
     cache_add_txs io (vb_height b) (vb_txs b) c)"

subsection \<open>Contextual data\<close>

definition get_ring_members_for_inputs ::
  "(nat \<Rightarrow> nat \<Rightarrow> output_on_chain option) \<Rightarrow> input list \<Rightarrow> transaction_error + output_on_chain list list" where
  "get_ring_members_for_inputs get_outputs ins =
     collect_results
       (\<lambda>inp. case inp of
          ToKey a offsets _ \<Rightarrow>
            and_then (get_absolute_offsets offsets) (\<lambda>offsets.
            collect_results (\<lambda>offset. ok_or RingMemberNotFoundOrInvalid (get_outputs (unwrap_or_0 a) offset)) offsets)
        | Gen _ \<Rightarrow> Err IncorrectInputType) ins"

definition new_rings :: "output_on_chain list list \<Rightarrow> tx_version_t \<Rightarrow> rings" where
  "new_rings outs version =
     (case version of
        RingSignatures \<Rightarrow> Legacy (map (map ooc_key) outs)
      | RingCT \<Rightarrow> RingCTRings (map (map (\<lambda>out. (ooc_key out, ooc_commitment out))) outs))"

text \<open>An input without ring members and a transaction without inputs panic.\<close>

definition new_ring_member_info ::
  "output_on_chain list list \<Rightarrow> decoy_info option \<Rightarrow> tx_version_t \<Rightarrow> transaction_error fault + tx_ring_members_info" where
  "new_ring_member_info used_outs decoys version =
     (if used_outs = [] \<or> [] \<in> set used_outs then Err Panic
      else Ok \<lparr>tx_rings = new_rings used_outs version, ring_decoy_info = decoys,
               youngest_used_out_height = foldr max (map (\<lambda>outs. ooc_height (last outs)) used_outs) 0,
               time_locked_outs = filter (\<lambda>lock. lock \<noteq> TNone) (map ooc_time_lock (concat used_outs))\<rparr>)"

fun wanted_ring_members :: "tx_verification_data list \<Rightarrow> (nat \<times> nat list) list \<Rightarrow> transaction_error + (nat \<times> nat list) list" where
  "wanted_ring_members [] m = Ok m"
| "wanted_ring_members (tx # txs) m =
     (case insert_ring_member_ids (inputs (prefix (tv_tx tx))) m of
        (m, Inl e) \<Rightarrow> Err e
      | (m, Inr _) \<Rightarrow> wanted_ring_members txs m)"

definition get_output_cache :: "tx_verification_data list \<Rightarrow> database \<Rightarrow> output_cache verify_result" where
  "get_output_cache txs db =
     cbind (Some (from_transaction_error (no_panic (wanted_ring_members txs [])))) (\<lambda>outs.
     ask db (Outputs outs False) as_outputs)"

definition ring_member_info ::
  "hard_fork \<Rightarrow> output_cache \<Rightarrow> tx_verification_data \<Rightarrow> transaction_error fault + tx_ring_members_info" where
  "ring_member_info hf c tx =
     (let ins = inputs (prefix (tv_tx tx)) in
      and_then (no_panic (get_ring_members_for_inputs (cache_get_output c) ins)) (\<lambda>members.
      and_then (if hf = V1 then Ok None else and_then (decoy_info_new ins (number_outs_with_amount c) hf) (\<lambda>d. Ok (Some d))) (\<lambda>decoys.
      new_ring_member_info members decoys (tv_version tx))))"

definition batch_get_ring_member_info ::
  "tx_verification_data list \<Rightarrow> hard_fork \<Rightarrow> database \<Rightarrow> output_cache option \<Rightarrow> tx_ring_members_info list verify_result" where
  "batch_get_ring_member_info txs hf db cache =
     cbind (Some (from_transaction_error (no_panic (wanted_ring_members txs [])))) (\<lambda>outs.
     cbind
       (case cache of
          Some c \<Rightarrow> cok c
        | None \<Rightarrow> ask db (Outputs outs False) as_outputs) (\<lambda>c.
     Some (from_transaction_error (collect_results (ring_member_info hf c) txs))))"

definition input_amounts :: "tx_verification_data list \<Rightarrow> nat list" where
  "input_amounts txs =
     remdups (concat (map (\<lambda>tx. map (\<lambda>inp. case inp of ToKey a _ _ \<Rightarrow> unwrap_or_0 a | Gen _ \<Rightarrow> 0) (inputs (prefix (tv_tx tx)))) txs))"

definition batch_get_decoy_info ::
  "tx_verification_data list \<Rightarrow> hard_fork \<Rightarrow> database \<Rightarrow> output_cache option \<Rightarrow> (transaction_error fault + decoy_info) list verify_result" where
  "batch_get_decoy_info txs hf db cache =
     cbind (Some (assert (hf \<noteq> V1))) (\<lambda>_.
     cbind
       (case cache of
          Some c \<Rightarrow> cok (map (\<lambda>a. (a, number_outs_with_amount c a)) (input_amounts txs))
        | None \<Rightarrow>
            ask db (NumberOutputsWithAmount (input_amounts txs)) (\<lambda>r. case r of RNumberOutputsWithAmount m \<Rightarrow> Some m | _ \<Rightarrow> None)) (\<lambda>m.
     cok (map (\<lambda>tx. decoy_info_new (inputs (prefix (tv_tx tx))) (\<lambda>a. case map_of m a of Some n \<Rightarrow> n | None \<Rightarrow> 0) hf) txs)))"

subsection \<open>Key images\<close>

fun batch_key_images :: "input list \<Rightarrow> bytes list \<Rightarrow> transaction_error + bytes list" where
  "batch_key_images [] seen = Ok seen"
| "batch_key_images (ToKey _ _ ki # ins) seen =
     (if ki \<in> set seen then Err KeyImageSpent else batch_key_images ins (ki # seen))"
| "batch_key_images (Gen _ # ins) seen = batch_key_images ins seen"

definition check_kis_unique :: "tx_verification_data list \<Rightarrow> database \<Rightarrow> unit verify_result" where
  "check_kis_unique txs db =
     cbind (Some (from_transaction_error (no_panic (batch_key_images (concat (map (\<lambda>tx. inputs (prefix (tv_tx tx))) txs)) [])))) (\<lambda>spent_kis.
     cbind (ask db (KeyImagesSpent spent_kis) (\<lambda>r. case r of RKeyImagesSpent b \<Rightarrow> Some b | _ \<Rightarrow> None)) (\<lambda>kis_spent.
     if kis_spent then Some (from_transaction_error (Err (Fault KeyImageSpent))) else cok ()))"

subsection \<open>What is needed\<close>

datatype verification_kind = V1DecoyCheck | SemanticAndContextual | Contextual | NoneNeeded

definition hashes_referenced_in_main_chain :: "tx_verification_data list \<Rightarrow> database \<Rightarrow> bytes list verify_result" where
  "hashes_referenced_in_main_chain txs db =
     (let hashes = remdups (List.map_filter (\<lambda>tx. verified_at_block_hash (tv_state tx)) txs) in
      if hashes = [] then cok []
      else ask db (FilterUnknownHashes hashes) (\<lambda>r. case r of RFilterUnknownHashes hs \<Rightarrow> Some hs | _ \<Rightarrow> None))"

definition verification_needed_of ::
  "bytes list \<Rightarrow> hard_fork \<Rightarrow> nat \<Rightarrow> nat \<Rightarrow> tx_verification_data \<Rightarrow> transaction_error + verification_kind" where
  "verification_needed_of hashes_in_main_chain current_hf current_chain_height time_for_time_lock tx =
     (let valid = (if tv_version tx = RingSignatures then V1DecoyCheck else NoneNeeded) in
      case tv_state tx of
        NotVerified \<Rightarrow> Ok SemanticAndContextual
      | OnlySemantic hf \<Rightarrow> Ok (if current_hf \<noteq> hf then SemanticAndContextual else Contextual)
      | ValidAtHashAndHF at_hash hf \<Rightarrow>
          Ok (if current_hf \<noteq> hf then SemanticAndContextual else if at_hash \<notin> set hashes_in_main_chain then Contextual else valid)
      | ValidAtHashAndHFWithTimeBasedLock at_hash hf time_lock \<Rightarrow>
          (if current_hf \<noteq> hf then Ok SemanticAndContextual
           else if at_hash \<notin> set hashes_in_main_chain then Ok Contextual
           else if \<not> output_unlocked time_lock current_chain_height time_for_time_lock hf then Err OneOrMoreRingMembersLocked
           else Ok valid))"

definition verification_needed ::
  "tx_verification_data list \<Rightarrow> bytes list \<Rightarrow> hard_fork \<Rightarrow> nat \<Rightarrow> nat \<Rightarrow> transaction_error + verification_kind list \<times> bool" where
  "verification_needed txs hashes_in_main_chain current_hf current_chain_height time_for_time_lock =
     and_then (collect_results (verification_needed_of hashes_in_main_chain current_hf current_chain_height time_for_time_lock) txs) (\<lambda>needed.
     Ok (needed, V1DecoyCheck \<in> set needed))"

subsection \<open>Verifying\<close>

definition verify_transactions_decoy_info ::
  "tx_verification_data list \<Rightarrow> hard_fork \<Rightarrow> database \<Rightarrow> output_cache option \<Rightarrow> unit verify_result" where
  "verify_transactions_decoy_info txs hf db cache =
     (if hf = V1 then cok ()
      else
        cbind (batch_get_decoy_info txs hf db cache) (\<lambda>infos.
        Some (from_transaction_error (try_for_each (\<lambda>info. and_then info (\<lambda>di. check_decoy_info di hf)) infos))))"

text \<open>The statements a transaction's semantic checks queue.\<close>

definition queued_statements :: "transaction \<Rightarrow> (bytes \<times> bytes list) list" where
  "queued_statements tx =
     (case tx of
        TxV2 _ (Some p) \<Rightarrow>
          (let cs = commitments (rct_base p) in
           case prunable p of
             PMlsagBulletproofs _ _ b \<Rightarrow> [(b, cs)]
           | PMlsagBulletproofsCompactAmount _ _ b \<Rightarrow> [(b, cs)]
           | PClsag _ _ b \<Rightarrow> [(b, cs)]
           | _ \<Rightarrow> [])
      | _ \<Rightarrow> [])"

definition batch_verifies :: "'p verifier \<Rightarrow> transaction list \<Rightarrow> bool" where
  "batch_verifies V txs = list_all (\<lambda>(b, cs). statement_valid V b cs) (concat (map queued_statements txs))"

definition semantic_check :: "'p verifier \<Rightarrow> hard_fork \<Rightarrow> tx_verification_data \<Rightarrow> transaction_error fault + unit" where
  "semantic_check V hf tx =
     and_then (check_transaction_semantic (rules V) (tv_tx tx) (length (tv_blob tx)) (tv_weight tx) (tv_hash tx) hf) (\<lambda>fee.
     assert (fee = tv_fee tx))"

definition needs_check :: "verification_kind \<Rightarrow> bool" where
  "needs_check n \<longleftrightarrow> n = Contextual \<or> n = SemanticAndContextual"

definition check_one ::
  "'p verifier \<Rightarrow> nat \<Rightarrow> nat \<Rightarrow> hard_fork \<Rightarrow> (tx_verification_data \<times> verification_kind) \<times> tx_ring_members_info \<Rightarrow>
     transaction_error fault + unit" where
  "check_one V current_chain_height now hf x =
     (case x of ((tx, needed), ring) \<Rightarrow>
        and_then (if needed = SemanticAndContextual then semantic_check V hf tx else Ok ()) (\<lambda>_.
        check_transaction_contextual (rules V) (tv_tx tx) ring current_chain_height now hf))"

definition youngest_timebased_lock :: "timelock list \<Rightarrow> nat option" where
  "youngest_timebased_lock locks =
     (case List.map_filter (\<lambda>lock. case lock of TTime t \<Rightarrow> Some t | _ \<Rightarrow> None) locks of
        [] \<Rightarrow> None
      | t # ts \<Rightarrow> Some (foldl min t ts))"

definition new_verification_state :: "bytes \<Rightarrow> hard_fork \<Rightarrow> tx_ring_members_info \<Rightarrow> cached_verification_state" where
  "new_verification_state tip hf ring =
     (if time_locked_outs ring = [] then ValidAtHashAndHF tip hf
      else
        case youngest_timebased_lock (time_locked_outs ring) of
          Some time \<Rightarrow> ValidAtHashAndHFWithTimeBasedLock tip hf (TTime time)
        | None \<Rightarrow> ValidAtHashAndHF tip hf)"

text \<open>The rings are in the order of the transactions that were checked.\<close>

fun set_states ::
  "bytes \<Rightarrow> hard_fork \<Rightarrow> (tx_verification_data \<times> verification_kind) list \<Rightarrow> tx_ring_members_info list \<Rightarrow> tx_verification_data list" where
  "set_states tip hf [] rings = []"
| "set_states tip hf ((tx, needed) # txs) rings =
     (if needs_check needed
      then
        case rings of
          [] \<Rightarrow> tx # set_states tip hf txs []
        | ring # rings \<Rightarrow> tx\<lparr>tv_state := new_verification_state tip hf ring\<rparr> # set_states tip hf txs rings
      else tx # set_states tip hf txs rings)"

definition verify_transactions ::
  "'p verifier \<Rightarrow> tx_verification_data list \<Rightarrow> verification_kind list \<Rightarrow> nat \<Rightarrow> bytes \<Rightarrow> nat \<Rightarrow> hard_fork \<Rightarrow> database \<Rightarrow> output_cache option \<Rightarrow>
     tx_verification_data list verify_result" where
  "verify_transactions V txs needed current_chain_height tip now hf db cache =
     (let checked = filter (\<lambda>x. needs_check (snd x)) (zip txs needed) in
      cbind (batch_get_ring_member_info (map fst checked) hf db cache) (\<lambda>rings.
      cbind (Some (from_transaction_error (try_for_each (check_one V current_chain_height now hf) (zip checked rings)))) (\<lambda>_.
      if \<not> batch_verifies V (map (\<lambda>x. tv_tx (fst x)) (filter (\<lambda>x. snd x = SemanticAndContextual) checked))
      then Some (Err (Fault OneOrMoreBatchVerificationStatementsInvalid))
      else cok (set_states tip hf (zip txs needed) rings))))"

record batch_prepare_cache =
  bp_output_cache :: output_cache
  key_images_spent_checked :: bool

definition full_verify ::
  "'p verifier \<Rightarrow> tx_verification_data list \<Rightarrow> nat \<Rightarrow> bytes \<Rightarrow> nat \<Rightarrow> hard_fork \<Rightarrow> database \<Rightarrow> batch_prepare_cache option \<Rightarrow>
     tx_verification_data list verify_result" where
  "full_verify V txs current_chain_height tip time_for_time_lock hf db batch_prep_cache =
     (let cache = map_option bp_output_cache batch_prep_cache in
      cbind (if (case batch_prep_cache of None \<Rightarrow> True | Some c \<Rightarrow> \<not> key_images_spent_checked c) then check_kis_unique txs db else cok ()) (\<lambda>_.
      cbind (hashes_referenced_in_main_chain txs db) (\<lambda>hashes.
      cbind (Some (from_transaction_error (no_panic (verification_needed txs hashes hf current_chain_height time_for_time_lock)))) (\<lambda>(needed, any_v1).
      cbind
        (if any_v1
         then verify_transactions_decoy_info (map fst (filter (\<lambda>x. snd x = V1DecoyCheck) (zip txs needed))) hf db cache
         else cok ()) (\<lambda>_.
      verify_transactions V txs needed current_chain_height tip time_for_time_lock hf db cache)))))"

text \<open>The preparation: transactions already prepared come first.\<close>

definition prepare :: "'p verifier \<Rightarrow> tx_verification_data list \<Rightarrow> transaction list \<Rightarrow> transaction_error + tx_verification_data list" where
  "prepare V prepped_txs txs =
     and_then (collect_results (new_tx_verification_data V) txs) (\<lambda>new. Ok (prepped_txs @ new))"

definition semantic_queue ::
  "'p verifier \<Rightarrow> tx_verification_data list \<Rightarrow> hard_fork \<Rightarrow> transaction_error fault + tx_verification_data list" where
  "semantic_queue V txs hf =
     and_then (try_for_each (semantic_check V hf) txs) (\<lambda>_. Ok (map (\<lambda>tx. tx\<lparr>tv_state := OnlySemantic hf\<rparr>) txs))"

end
