(* ===== verification/Actions.thy ===== *)
theory Actions
  imports Prelude
begin

text \<open>
  Actions: code that changes a state and may fail. An action returns the new state beside its result, also when it fails, since the code
  does not undo what it did before an error; \<open>None\<close> stands for a walk in the database that does not end. After a panic the state means nothing.
\<close>

type_synonym ('s, 'e, 'a) action = "'s \<Rightarrow> ('s \<times> ('e fault + 'a)) option"

definition mbind :: "('s, 'e, 'a) action \<Rightarrow> ('a \<Rightarrow> ('s, 'e, 'b) action) \<Rightarrow> ('s, 'e, 'b) action" where
  "mbind m k s = (case m s of None \<Rightarrow> None | Some (s, Inl e) \<Rightarrow> Some (s, Inl e) | Some (s, Inr x) \<Rightarrow> k x s)"

definition mret :: "'a \<Rightarrow> ('s, 'e, 'a) action" where
  "mret x s = Some (s, Inr x)"

definition mresult :: "'e fault + 'a \<Rightarrow> ('s, 'e, 'a) action" where
  "mresult r s = Some (s, r)"

definition mlift :: "('e fault + 'a) option \<Rightarrow> ('s, 'e, 'a) action" where
  "mlift r s = map_option (Pair s) r"

definition mpanic :: "('s, 'e, 'a) action" where
  "mpanic s = Some (s, Inl Panic)"

definition mget :: "('s \<Rightarrow> 'a) \<Rightarrow> ('s, 'e, 'a) action" where
  "mget f s = Some (s, Inr (f s))"

text \<open>\<open>expect\<close> and \<open>unwrap\<close>.\<close>

definition mexpect :: "'e fault + 'a \<Rightarrow> ('s, 'd, 'a) action" where
  "mexpect r s = Some (s, case r of Inl _ \<Rightarrow> Inl Panic | Inr x \<Rightarrow> Inr x)"

definition mopt :: "'a option \<Rightarrow> ('s, 'e, 'a) action" where
  "mopt r s = Some (s, case r of None \<Rightarrow> Inl Panic | Some x \<Rightarrow> Inr x)"

text \<open>\<open>match\<close> on the result of a call: its error becomes a value, a panic does not.\<close>

definition mtry :: "('s, 'e, 'a) action \<Rightarrow> ('s, 'd, 'e + 'a) action" where
  "mtry m s =
     map_option (\<lambda>(s, r). (s, case r of Inl Panic \<Rightarrow> Inl Panic | Inl (Fault e) \<Rightarrow> Inr (Inl e) | Inr x \<Rightarrow> Inr (Inr x))) (m s)"

definition merr :: "'e \<Rightarrow> ('s, 'e, 'a) action" where
  "merr e s = Some (s, Inl (Fault e))"

fun mfor :: "('a \<Rightarrow> ('s, 'e, unit) action) \<Rightarrow> 'a list \<Rightarrow> ('s, 'e, unit) action" where
  "mfor f [] = mret ()"
| "mfor f (x # xs) = mbind (f x) (\<lambda>_. mfor f xs)"

lemma mbind_Ok: "m s = Some (s', Inr x) \<Longrightarrow> mbind m k s = k x s'"
  by (simp add: mbind_def)

lemma mbind_Err: "m s = Some (s', Inl e) \<Longrightarrow> mbind m k s = Some (s', Inl e)"
  by (simp add: mbind_def)

lemma mbind_simps [simp]:
  "mbind (mret x) k s = k x s" "mbind (mget f) k s = k (f s) s" "mbind (mopt (Some y)) k s = k y s"
  "mbind (mexpect (Inr y)) k s = k y s" "mbind (mresult (Inr y)) k s = k y s" "mret x s = Some (s, Inr x)"
  by (simp_all add: mbind_def mret_def mget_def mopt_def mexpect_def mresult_def)

lemma mbind_assoc: "mbind (mbind m k) l s = mbind m (\<lambda>x. mbind (k x) l) s"
  by (simp add: mbind_def split: option.split sum.split prod.split)

lemma mbind_eq_Ok:
  "mbind m k s = Some (s', Inr y) \<longleftrightarrow> (\<exists>t x. m s = Some (t, Inr x) \<and> k x t = Some (s', Inr y))"
  by (auto simp: mbind_def split: option.splits sum.splits)

lemma action_eq_Ok:
  "mret x s = Some (s', Inr y) \<longleftrightarrow> s' = s \<and> y = x" "mresult r s = Some (s', Inr y) \<longleftrightarrow> s' = s \<and> r = Inr y"
  "mlift o' s = Some (s', Inr y) \<longleftrightarrow> s' = s \<and> o' = Some (Inr y)" "mpanic s = Some (s', Inr y) \<longleftrightarrow> False"
  "mget f s = Some (s', Inr z) \<longleftrightarrow> s' = s \<and> z = f s" "mopt p s = Some (s', Inr w) \<longleftrightarrow> s' = s \<and> p = Some w"
  by (auto simp: mret_def mresult_def mlift_def mpanic_def mget_def mopt_def split: option.splits)

end
