(* ===== verification/Block_Verify.thy ===== *)
theory Block_Verify
  imports Tx_Verify Context_Task Actions
begin

text \<open>
  Block verification: \<^verbatim>\<open>src/consensus/src/block.rs\<close> with \<^verbatim>\<open>free.rs\<close>, \<^verbatim>\<open>alt_block.rs\<close> and \<^verbatim>\<open>batch_prepare.rs\<close>. A block is prepared (its
  hashes and fork computed), its transactions are put in the block's order and verified, and the block is checked against the context. The
  functions that send requests to the context service are actions on the context task.

  A \<open>HashMap\<close> of transactions is a list of pairs with distinct keys. The clock is the argument \<open>now\<close>: one value for the reads of one
  verification. A RandomX machine is a value of type \<open>'vm\<close>; \<open>vm_hash\<close> is its hash function.
\<close>

subsection \<open>Ordering the transactions\<close>

text \<open>\<open>swap\<close> of a slice; \<open>position\<close> searches the part from \<open>i\<close> on.\<close>

definition swap_at :: "nat \<Rightarrow> nat \<Rightarrow> 'a list \<Rightarrow> 'a list" where
  "swap_at i j xs = xs[i := xs ! j, j := xs ! i]"

fun position :: "('a \<Rightarrow> bool) \<Rightarrow> 'a list \<Rightarrow> nat option" where
  "position p [] = None"
| "position p (x # xs) = (if p x then Some 0 else map_option Suc (position p xs))"

fun order_from :: "nat \<Rightarrow> bytes list \<Rightarrow> tx_verification_data list \<Rightarrow> extended_consensus_error + tx_verification_data list" where
  "order_from i [] txs = Ok txs"
| "order_from i (h # hs) txs =
     (if h \<noteq> tv_hash (txs ! i)
      then
        and_then (ok_or TxsIncludedWithBlockIncorrect (position (\<lambda>tx. tv_hash tx = h) (drop i txs))) (\<lambda>at_index.
        order_from (Suc i) hs (swap_at i (i + at_index) txs))
      else order_from (Suc i) hs txs)"

definition order_transactions :: "block \<Rightarrow> tx_verification_data list \<Rightarrow> extended_consensus_error + tx_verification_data list" where
  "order_transactions blk txs =
     (if length (transactions blk) \<noteq> length txs then Err TxsIncludedWithBlockIncorrect
      else order_from 0 (transactions blk) txs)"

type_synonym tx_map = "(bytes \<times> tx_verification_data) list"

fun pull_in_order :: "bytes list \<Rightarrow> tx_map \<Rightarrow> extended_consensus_error + tx_verification_data list" where
  "pull_in_order [] m = Ok []"
| "pull_in_order (h # hs) m =
     and_then (ok_or TxsIncludedWithBlockIncorrect (map_of m h)) (\<lambda>tx.
     and_then (pull_in_order hs (filter (\<lambda>p. fst p \<noteq> h) m)) (\<lambda>txs. Ok (tx # txs)))"

definition pull_ordered_transactions :: "block \<Rightarrow> tx_map \<Rightarrow> extended_consensus_error + tx_verification_data list" where
  "pull_ordered_transactions blk m =
     (if length (transactions blk) \<noteq> length m then Err TxsIncludedWithBlockIncorrect else pull_in_order (transactions blk) m)"

subsection \<open>Prepared blocks\<close>

record prepared_block_ex_pow =
  px_block :: block
  px_blob :: bytes
  px_hf_vote :: hard_fork
  px_hf_version :: hard_fork
  px_hash :: bytes
  px_height :: nat
  px_miner_tx_weight :: nat

record prepared_block =
  pb_block :: block
  pb_blob :: bytes
  pb_hf_vote :: hard_fork
  pb_hf_version :: hard_fork
  pb_hash :: bytes
  pb_pow_hash :: bytes
  pb_miner_tx_weight :: nat

definition hard_fork_unknown :: "block_error" where
  "hard_fork_unknown = HardForkError HardForkUnknown"

definition prepared_ex_pow_new :: "'p verifier \<Rightarrow> block \<Rightarrow> block_error + prepared_block_ex_pow" where
  "prepared_ex_pow_new V blk =
     and_then (map_err (\<lambda>_. hard_fork_unknown) (from_block_header (header blk))) (\<lambda>(version, vote).
     case inputs (prefix (miner_transaction blk)) of
       Gen h # _ \<Rightarrow>
         Ok \<lparr>px_block = blk, px_blob = block_serialize (vcodecs V) blk, px_hf_vote = vote, px_hf_version = version,
             px_hash = block_hash_of V blk, px_height = h, px_miner_tx_weight = tx_weight_of (vcodecs V) (miner_transaction blk)\<rparr>
     | _ \<Rightarrow> Err (MinerTxError InputNotOfTypeGen))"

definition prepared_block_new ::
  "'p verifier \<Rightarrow> block \<Rightarrow> (bytes \<Rightarrow> bytes option) option \<Rightarrow> block_error fault + prepared_block" where
  "prepared_block_new V blk vm =
     and_then (map_err (\<lambda>_. Fault hard_fork_unknown) (from_block_header (header blk))) (\<lambda>(version, vote).
     case inputs (prefix (miner_transaction blk)) of
       [Gen h] \<Rightarrow>
         and_then (calculate_pow_hash (pow_functions V) vm (serialize_pow_hash V blk) h version) (\<lambda>pow.
         Ok \<lparr>pb_block = blk, pb_blob = block_serialize (vcodecs V) blk, pb_hf_vote = vote, pb_hf_version = version,
             pb_hash = block_hash_of V blk, pb_pow_hash = pow,
             pb_miner_tx_weight = tx_weight_of (vcodecs V) (miner_transaction blk)\<rparr>)
     | _ \<Rightarrow> Err (Fault (MinerTxError InputNotOfTypeGen)))"

definition new_prepped ::
  "'p verifier \<Rightarrow> prepared_block_ex_pow \<Rightarrow> (bytes \<Rightarrow> bytes option) option \<Rightarrow> block_error fault + prepared_block" where
  "new_prepped V b vm =
     and_then (calculate_pow_hash (pow_functions V) vm (serialize_pow_hash V (px_block b)) (px_height b) (px_hf_version b)) (\<lambda>pow.
     Ok \<lparr>pb_block = px_block b, pb_blob = px_blob b, pb_hf_vote = px_hf_vote b, pb_hf_version = px_hf_version b,
         pb_hash = px_hash b, pb_pow_hash = pow, pb_miner_tx_weight = tx_weight_of (vcodecs V) (miner_transaction (px_block b))\<rparr>)"

definition new_alt_block :: "'p verifier \<Rightarrow> alt_block_information \<Rightarrow> block_error + prepared_block" where
  "new_alt_block V ab =
     and_then (map_err (\<lambda>_. hard_fork_unknown) (from_version (hardfork_version (header (ab_block ab))))) (\<lambda>vote.
     Ok \<lparr>pb_block = ab_block ab, pb_blob = ab_block_blob ab, pb_hf_vote = vote,
         pb_hf_version = from_vote (hardfork_signal (header (ab_block ab))), pb_hash = ab_block_hash ab,
         pb_pow_hash = ab_pow_hash ab, pb_miner_tx_weight = tx_weight_of (vcodecs V) (miner_transaction (ab_block ab))\<rparr>)"

subsection \<open>Main-chain blocks\<close>

definition from_block_error :: "block_error fault + 'a \<Rightarrow> extended_consensus_error fault + 'a" where
  "from_block_error = map_err (\<lambda>f. case f of Panic \<Rightarrow> Panic | Fault e \<Rightarrow> Fault (ExtConErr (BlockErr e)))"

text \<open>Sums of \<open>u64\<close> and \<open>usize\<close> values wrap in a release build.\<close>

definition sum_u64 :: "nat list \<Rightarrow> nat" where
  "sum_u64 xs = foldl (wadd 64) 0 xs"

definition verified_tx_of :: "tx_verification_data \<Rightarrow> verified_tx" where
  "verified_tx_of tx = \<lparr>vt_tx = tv_tx tx, vt_blob = tv_blob tx, vt_weight = tv_weight tx, vt_fee = tv_fee tx, vt_hash = tv_hash tx\<rparr>"

definition verify_block_txs ::
  "'p verifier \<Rightarrow> nat \<Rightarrow> blockchain_context \<Rightarrow> prepared_block \<Rightarrow> tx_verification_data list \<Rightarrow> database \<Rightarrow> batch_prepare_cache option \<Rightarrow>
     tx_verification_data list verify_result" where
  "verify_block_txs V now ctx prepped txs db cache =
     (let v = bc_context_to_verify_block ctx; hashes = transactions (pb_block prepped) in
      if length hashes \<noteq> length txs then Some (Err (Fault TxsIncludedWithBlockIncorrect))
      else if hashes = [] then cok txs
      else if list_ex (\<lambda>(h, tx). h \<noteq> tv_hash tx) (zip hashes txs) then Some (Err (Fault TxsIncludedWithBlockIncorrect))
      else
        cbind (cunwrap (current_adjusted_timestamp_for_time_lock now ctx)) (\<lambda>time.
        full_verify V txs (chain_height v) (top_hash v) time (current_hf v) db cache))"

definition verify_prepped_main_chain_block ::
  "'p verifier \<Rightarrow> nat \<Rightarrow> blockchain_context \<Rightarrow> prepared_block \<Rightarrow> tx_verification_data list \<Rightarrow> database \<Rightarrow> batch_prepare_cache option \<Rightarrow>
     (verified_block \<times> batch_prepare_cache option) verify_result" where
  "verify_prepped_main_chain_block V now ctx prepped txs db cache =
     (let v = bc_context_to_verify_block ctx in
      cbind (Some (from_block_error (no_panic (check_block_pow (pb_pow_hash prepped) (next_difficulty v))))) (\<lambda>_.
      cbind (verify_block_txs V now ctx prepped txs db cache) (\<lambda>txs.
      let block_weight = wadd 64 (pb_miner_tx_weight prepped) (sum_u64 (map tv_weight txs));
          total_fees = sum_u64 (map tv_fee txs)
      in
        cbind (Some (from_block_error
          (check_block (rules V) now (pb_block prepped) total_fees block_weight (length (pb_blob prepped)) v))) (\<lambda>(_, generated_coins).
        let b = \<lparr>vb_block = pb_block prepped, vb_block_blob = pb_blob prepped, vb_txs = map verified_tx_of txs, vb_hash = pb_hash prepped,
                 vb_pow_hash = pb_pow_hash prepped, vb_height = chain_height v,
                 vb_generated_coins = generated_coins, vb_weight = block_weight,
                 vb_long_term_weight = next_block_long_term_weight ctx block_weight,
                 vb_cumulative_difficulty = wadd 128 (bc_cumulative_difficulty ctx) (next_difficulty v)\<rparr>
        in case cache of
             None \<Rightarrow> cok (b, None)
           | Some c \<Rightarrow>
               cbind (cunwrap (add_block_to_cache (vcodecs V) b (bp_output_cache c))) (\<lambda>outs.
               cok (b, Some (c\<lparr>bp_output_cache := outs\<rparr>)))))))"

text \<open>A request to the context service: its errors are boxed.\<close>

definition context_fault :: "context_cache_error fault \<Rightarrow> extended_consensus_error fault" where
  "context_fault e = (case e of Panic \<Rightarrow> Panic | Fault c \<Rightarrow> Fault (ExtDBErr (BoxContext c)))"

definition ask_context ::
  "(bytes \<Rightarrow> 'vm option) \<Rightarrow> database \<Rightarrow> 'vm context_request \<Rightarrow> ('vm context_response \<Rightarrow> 'a option) \<Rightarrow>
     ('vm context_task, extended_consensus_error, 'a) action" where
  "ask_context new_vm db req sel s =
     map_option (\<lambda>(s, r). (s, and_then (map_err context_fault r) (\<lambda>r. unwrap (sel r)))) (handle_req new_vm db req s)"

definition current_rx_vms ::
  "(bytes \<Rightarrow> 'vm option) \<Rightarrow> database \<Rightarrow> ('vm context_task, extended_consensus_error, (nat \<times> 'vm) list) action" where
  "current_rx_vms new_vm db = ask_context new_vm db CurrentRxVms (\<lambda>r. case r of RxVms m \<Rightarrow> Some m | _ \<Rightarrow> None)"

definition verify_main_chain_block ::
  "'p verifier \<Rightarrow> ('vm \<Rightarrow> bytes \<Rightarrow> bytes option) \<Rightarrow> (bytes \<Rightarrow> 'vm option) \<Rightarrow> nat \<Rightarrow> block \<Rightarrow> tx_map \<Rightarrow> database \<Rightarrow>
     ('vm context_task, extended_consensus_error, verified_block) action" where
  "verify_main_chain_block V vm_hash new_vm now blk txs db =
     mbind (mget context_cache) (\<lambda>ctx.
     let v = bc_context_to_verify_block ctx in
     mbind (if hardfork_version (header blk) < 12 then mret [] else current_rx_vms new_vm db) (\<lambda>vms.
     mbind (mresult (from_block_error
       (prepared_block_new V blk (map_option vm_hash (map_of vms (randomx_seed_height (chain_height v))))))) (\<lambda>prepped.
     mbind (mresult (from_block_error (no_panic (check_block_pow (pb_pow_hash prepped) (next_difficulty v))))) (\<lambda>_.
     mbind (mresult (no_panic (pull_ordered_transactions (pb_block prepped) txs))) (\<lambda>ordered_txs.
     mbind (mget context_cache) (\<lambda>ctx.
     mbind (mlift (verify_prepped_main_chain_block V now ctx prepped ordered_txs db None)) (\<lambda>(b, _).
     mret b)))))))"

subsection \<open>Alternative blocks\<close>

text \<open>The cache of the alternative chain is owned by the caller: it is an argument and part of the result.\<close>

definition alt_rx_vm ::
  "(bytes \<Rightarrow> 'vm option) \<Rightarrow> database \<Rightarrow> nat \<Rightarrow> nat \<Rightarrow> chain \<Rightarrow> 'vm alt_chain_context_cache \<Rightarrow>
     ('vm context_task, extended_consensus_error, 'vm alt_chain_context_cache \<times> 'vm option) action" where
  "alt_rx_vm new_vm db block_height hf parent c =
     (if hf < 12 then mret (c, None)
      else
        let seed_height = randomx_seed_height block_height;
            fresh = ask_context new_vm db (AltChainRxVM block_height parent) (\<lambda>r. case r of CtxAltChainRxVM vm \<Rightarrow> Some vm | _ \<Rightarrow> None)
        in
          mbind
            (case cached_rx_vm c of
               Some (h, vm) \<Rightarrow> if seed_height = h then mret vm else fresh
             | None \<Rightarrow> fresh) (\<lambda>vm.
          mret (c\<lparr>cached_rx_vm := Some (seed_height, vm)\<rparr>, Some vm)))"

definition alt_difficulty_cache ::
  "(bytes \<Rightarrow> 'vm option) \<Rightarrow> database \<Rightarrow> bytes \<Rightarrow> 'vm alt_chain_context_cache \<Rightarrow>
     ('vm context_task, extended_consensus_error, 'vm alt_chain_context_cache \<times> difficulty_cache) action" where
  "alt_difficulty_cache new_vm db prev_id c =
     (case ac_difficulty_cache c of
        Some d \<Rightarrow> mret (c, d)
      | None \<Rightarrow>
          mbind (ask_context new_vm db (AltChainDifficultyCache prev_id)
            (\<lambda>r. case r of CtxAltChainDifficultyCache d \<Rightarrow> Some d | _ \<Rightarrow> None)) (\<lambda>d.
          mret (c\<lparr>ac_difficulty_cache := Some d\<rparr>, d)))"

definition alt_weight_cache ::
  "(bytes \<Rightarrow> 'vm option) \<Rightarrow> database \<Rightarrow> bytes \<Rightarrow> 'vm alt_chain_context_cache \<Rightarrow>
     ('vm context_task, extended_consensus_error, 'vm alt_chain_context_cache \<times> block_weights_cache) action" where
  "alt_weight_cache new_vm db prev_id c =
     (case ac_weight_cache c of
        Some w \<Rightarrow> mret (c, w)
      | None \<Rightarrow>
          mbind (ask_context new_vm db (AltChainWeightCache prev_id)
            (\<lambda>r. case r of CtxAltChainWeightCache w \<Rightarrow> Some w | _ \<Rightarrow> None)) (\<lambda>w.
          mret (c\<lparr>ac_weight_cache := Some w\<rparr>, w)))"

definition alt_miner_input_ok :: "block \<Rightarrow> nat \<Rightarrow> block_error + unit" where
  "alt_miner_input_ok blk height =
     (case inputs (prefix (miner_transaction blk)) of
        [Gen h] \<Rightarrow> (if h \<noteq> height then Err (MinerTxError InputsHeightIncorrect) else Ok ())
      | _ \<Rightarrow> Err (MinerTxError InputNotOfTypeGen))"

text \<open>The id of a new chain is random: \<open>random_id\<close>.\<close>

definition alt_block_info ::
  "prepared_block \<Rightarrow> tx_verification_data list \<Rightarrow> nat \<Rightarrow> nat \<Rightarrow> nat \<Rightarrow> nat \<Rightarrow> nat \<Rightarrow> alt_block_information" where
  "alt_block_info prepped txs height block_weight long_term_weight cum_diff chain_id =
     \<lparr>ab_block = pb_block prepped, ab_block_blob = pb_blob prepped, ab_txs = map verified_tx_of txs, ab_block_hash = pb_hash prepped,
      ab_pow_hash = pb_pow_hash prepped, ab_height = height, ab_weight = block_weight, ab_long_term_weight = long_term_weight,
      ab_cumulative_difficulty = cum_diff, ab_chain_id = chain_id\<rparr>"

definition sanity_check_alt_block ::
  "'p verifier \<Rightarrow> ('vm \<Rightarrow> bytes \<Rightarrow> bytes option) \<Rightarrow> (bytes \<Rightarrow> 'vm option) \<Rightarrow> nat \<Rightarrow> nat \<Rightarrow> block \<Rightarrow> tx_map \<Rightarrow> database \<Rightarrow>
     ('vm context_task, extended_consensus_error, alt_block_information) action" where
  "sanity_check_alt_block V vm_hash new_vm random_id now blk txs db =
     (let prev_id = previous (header blk) in
      mbind (ask_context new_vm db (AltChainContextCache prev_id) (\<lambda>r. case r of CtxAltChainContextCache c \<Rightarrow> Some c | _ \<Rightarrow> None)) (\<lambda>c.
      mbind (mresult (from_block_error (no_panic (alt_miner_input_ok blk (ac_chain_height c))))) (\<lambda>_.
      mbind (alt_rx_vm new_vm db (ac_chain_height c) (hardfork_version (header blk)) (ac_parent_chain c) c) (\<lambda>(c, vm).
      mbind (mresult (from_block_error (prepared_block_new V blk (map_option vm_hash vm)))) (\<lambda>prepped.
      mbind (alt_difficulty_cache new_vm db prev_id c) (\<lambda>(c, d).
      mbind (mopt (median_timestamp d BLOCKCHAIN_TIMESTAMP_CHECK_WINDOW)) (\<lambda>median.
      mbind (mresult (from_block_error (no_panic
        (case median of Some m \<Rightarrow> check_timestamp now blk m | None \<Rightarrow> Ok ())))) (\<lambda>_.
      mbind (mopt (difficulty_next_difficulty d (pb_hf_version prepped))) (\<lambda>next_diff.
      mbind (mresult (from_block_error (no_panic (check_block_pow (pb_pow_hash prepped) next_diff)))) (\<lambda>_.
      let cum_diff = wadd 128 (cumulative_difficulty d) next_diff in
      mbind (mresult (no_panic (pull_ordered_transactions blk txs))) (\<lambda>ordered_txs.
      let block_weight = wadd 64 (pb_miner_tx_weight prepped) (sum_u64 (map tv_weight ordered_txs)) in
      mbind (alt_weight_cache new_vm db prev_id c) (\<lambda>(c, w).
      mbind (mopt (median_for_block_reward w (pb_hf_version prepped))) (\<lambda>reward_median.
      mbind (mresult (from_block_error (no_panic (check_block_weight block_weight reward_median)))) (\<lambda>_.
      mbind (mopt (median_long_term_weight w)) (\<lambda>long_term_median.
      let long_term_weight = calculate_block_long_term_weight (pb_hf_version prepped) block_weight long_term_median;
          chain_id = (case ac_chain_id c of Some i \<Rightarrow> i | None \<Rightarrow> random_id);
          c = c\<lparr>ac_chain_id := Some chain_id\<rparr>;
          info = alt_block_info prepped ordered_txs (ac_chain_height c) block_weight long_term_weight cum_diff chain_id
      in
        mbind (mopt (alt_add_new_block c (ab_height info) (ab_block_hash info) block_weight long_term_weight
          (hdr_timestamp (header blk)) cum_diff)) (\<lambda>c.
        mbind (ask_context new_vm db (AddAltChainContextCache c) Some) (\<lambda>_.
        mret info)))))))))))))))))"

subsection \<open>Preparing a batch\<close>

text \<open>The checks on neighbouring blocks; the result is what the loop collects.\<close>

fun check_neighbours ::
  "hard_fork \<Rightarrow> (prepared_block_ex_pow \<times> prepared_block_ex_pow) list \<Rightarrow> (nat \<times> bytes) option \<Rightarrow> (nat \<times> hard_fork) list \<Rightarrow>
     block_error + (nat \<times> bytes) option \<times> (nat \<times> hard_fork) list" where
  "check_neighbours top_hf [] vm ts = Ok (vm, ts)"
| "check_neighbours top_hf ((b0, b1) # ws) vm ts =
     (if top_hf < px_hf_version b0 then Err (HardForkError VersionIncorrect)
      else if px_hash b0 \<noteq> previous (header (px_block b1)) \<or> px_height b0 \<noteq> wsub 64 (px_height b1) 1 then Err PreviousIDIncorrect
      else
        check_neighbours top_hf ws
          (if is_randomx_seed_height (px_height b0) \<and> V12 \<le> top_hf then Some (px_height b0, px_hash b0) else vm)
          (ts @ [(hdr_timestamp (header (px_block b0)), px_hf_version b0)]))"

definition prepare_one ::
  "'p verifier \<Rightarrow> ('vm \<Rightarrow> bytes \<Rightarrow> bytes option) \<Rightarrow> (nat \<times> 'vm) list \<Rightarrow> (prepared_block_ex_pow \<times> nat) \<times> transaction list \<Rightarrow>
     extended_consensus_error fault + prepared_block \<times> tx_verification_data list" where
  "prepare_one V vm_hash machines x =
     (case x of ((b, difficulty), txs) \<Rightarrow>
        and_then (from_block_error (new_prepped V b (map_option vm_hash (map_of machines (randomx_seed_height (px_height b)))))) (\<lambda>prepped.
        and_then (from_block_error (no_panic (check_block_pow (pb_pow_hash prepped) difficulty))) (\<lambda>_.
        and_then (from_transaction_error (no_panic (prepare V [] txs))) (\<lambda>txs.
        and_then (from_transaction_error (semantic_queue V txs (pb_hf_version prepped))) (\<lambda>txs.
        and_then (no_panic (order_transactions (pb_block prepped) txs)) (\<lambda>txs.
        Ok (prepped, txs)))))))"

definition batch_prepare_main_chain_blocks ::
  "'p verifier \<Rightarrow> ('vm \<Rightarrow> bytes \<Rightarrow> bytes option) \<Rightarrow> (bytes \<Rightarrow> 'vm option) \<Rightarrow> (block \<times> transaction list) list \<Rightarrow> database \<Rightarrow>
     ('vm context_task, extended_consensus_error, (prepared_block \<times> tx_verification_data list) list \<times> batch_prepare_cache) action" where
  "batch_prepare_main_chain_blocks V vm_hash new_vm batch db =
     mbind (mresult (from_block_error (no_panic (collect_results (prepared_ex_pow_new V) (map fst batch))))) (\<lambda>blocks.
     mbind (mresult (if blocks = [] then Err (Fault NoBlocksToVerify) else Ok (px_hf_version (last blocks)))) (\<lambda>top_hf.
     mbind (mresult (from_block_error (no_panic (check_neighbours top_hf (windows2 blocks) None [])))) (\<lambda>(new_rx_vm, timestamps_hfs).
     mbind (ask_context new_vm db (BatchGetDifficulties timestamps_hfs)
       (\<lambda>r. case r of BatchDifficulties ds \<Rightarrow> Some ds | _ \<Rightarrow> None)) (\<lambda>difficulties.
     mbind (mget context_cache) (\<lambda>ctx.
     let v = bc_context_to_verify_block ctx in
     mbind (mresult
       (if chain_height v \<noteq> px_height (hd blocks) then from_block_error (Err (Fault (MinerTxError InputsHeightIncorrect)))
        else if top_hash v \<noteq> previous (header (px_block (hd blocks))) then from_block_error (Err (Fault PreviousIDIncorrect))
        else Ok ())) (\<lambda>_.
     mbind (if top_hf < V12 then mret [] else current_rx_vms new_vm db) (\<lambda>vms.
     mbind
       (case new_rx_vm of
          None \<Rightarrow> mret vms
        | Some (new_vm_height, seed) \<Rightarrow>
            mbind (mopt (new_vm seed)) (\<lambda>vm.
            mbind (ask_context new_vm db (NewRXVM (seed, vm)) Some) (\<lambda>_.
            mret (map_insert new_vm_height vm vms)))) (\<lambda>vms.
     mbind (mresult (collect_results (prepare_one V vm_hash vms) (zip (zip blocks difficulties) (map snd batch)))) (\<lambda>prepped.
     mbind (mresult
       (if batch_verifies V (concat (map (\<lambda>(_, txs). map tv_tx txs) prepped)) then Ok ()
        else Err (Fault OneOrMoreBatchVerificationStatementsInvalid))) (\<lambda>_.
     let txs = concat (map snd prepped) in
     mbind (mlift (check_kis_unique txs db)) (\<lambda>_.
     mbind (mlift (get_output_cache txs db)) (\<lambda>outs.
     mret (prepped, \<lparr>bp_output_cache = outs, key_images_spent_checked = True\<rparr>)))))))))))))"

end
