(* ===== verification/Chain_Manager.thy ===== *)
theory Chain_Manager
  imports Context_Store Block_Verify
begin

text \<open>
  The blockchain manager's changes to the chain: \<^verbatim>\<open>src/binaries/cuprated/src/blockchain/manager/handler.rs\<close>. The manager is the only
  part of the node that writes the database; it keeps the context task and the tables at the same chain. The state is the tables, the task
  and the messages sent to the transaction pool, the network and the syncer, oldest first. An action returns the new state beside its
  result; \<open>None\<close> is a database walk that does not end. An \<open>expect\<close> or \<open>unreachable\<close> is a panic. The chain id of popped blocks is random in the
  database: an argument.

  The laws: adding a block that follows the chain keeps the task in sync with the tables, popping blocks moves both back, and putting the
  popped blocks back restores the main chain and the context.
\<close>

subsection \<open>State and actions\<close>

datatype manager_message =
  PoolNewBlock "bytes list"
| BroadcastBlock bytes nat
| BanPeer
| StopDownloader

record 'vm manager =
  mg_tables :: tables
  mg_context :: "'vm context_task"
  mg_sent :: "manager_message list"

definition send :: "manager_message \<Rightarrow> ('vm manager, 'e, unit) action" where
  "send msg m = Some (m\<lparr>mg_sent := mg_sent m @ [msg]\<rparr>, Inr ())"

text \<open>Calls of the services: a read or a write of the database, a request to the context task.\<close>

definition db_read :: "codecs \<Rightarrow> read_request \<Rightarrow> ('vm manager, 'e, runtime_error fault + read_response) action" where
  "db_read io req m = map_option (\<lambda>r. (m, Inr r)) (map_request io req (mg_tables m))"

definition db_write :: "codecs \<Rightarrow> nat \<Rightarrow> write_request \<Rightarrow> ('vm manager, 'e, runtime_error fault + write_response) action" where
  "db_write io random_id req m =
     (let (t, r) = handle_blockchain_request io random_id req (mg_tables m) in Some (m\<lparr>mg_tables := t\<rparr>, Inr r))"

definition context_call ::
  "(bytes \<Rightarrow> 'vm option) \<Rightarrow> codecs \<Rightarrow> 'vm context_request \<Rightarrow> ('vm manager, 'e, context_cache_error fault + 'vm context_response) action" where
  "context_call new_vm io req m =
     map_option (\<lambda>(s, r). (m\<lparr>mg_context := s\<rparr>, Inr r)) (handle_req new_vm (store_db (io, mg_tables m)) req (mg_context m))"

abbreviation the_context :: "'vm manager \<Rightarrow> blockchain_context" where
  "the_context m \<equiv> context_cache (mg_context m)"

abbreviation context_height :: "'vm manager \<Rightarrow> nat" where
  "context_height m \<equiv> chain_height (bc_context_to_verify_block (the_context m))"

subsection \<open>Adding a block\<close>

definition new_block_data_of :: "verified_block \<Rightarrow> new_block_data" where
  "new_block_data_of b =
     \<lparr>nb_block_hash = vb_hash b, nb_height = vb_height b, nb_timestamp = hdr_timestamp (header (vb_block b)), nb_weight = vb_weight b,
      nb_long_term_weight = vb_long_term_weight b, nb_generated_coins = vb_generated_coins b,
      nb_vote = from_vote (hardfork_signal (header (vb_block b))), nb_cumulative_difficulty = vb_cumulative_difficulty b\<rparr>"

definition add_valid_block_to_blockchain_cache ::
  "(bytes \<Rightarrow> 'vm option) \<Rightarrow> codecs \<Rightarrow> verified_block \<Rightarrow> ('vm manager, 'e, unit) action" where
  "add_valid_block_to_blockchain_cache new_vm io b =
     mbind (context_call new_vm io (Update (new_block_data_of b))) (\<lambda>r.
     mbind (mexpect r) (\<lambda>_. mret ()))"

fun spent_key_images :: "input list \<Rightarrow> bytes list option" where
  "spent_key_images [] = Some []"
| "spent_key_images (ToKey _ _ ki # ins) = map_option (Cons ki) (spent_key_images ins)"
| "spent_key_images (Gen _ # ins) = None"

definition add_valid_block_to_main_chain ::
  "(bytes \<Rightarrow> 'vm option) \<Rightarrow> codecs \<Rightarrow> nat \<Rightarrow> verified_block \<Rightarrow> ('vm manager, 'e, unit) action" where
  "add_valid_block_to_main_chain new_vm io random_id b =
     mbind (mopt (spent_key_images (concat (map (\<lambda>x. inputs (prefix (vt_tx x))) (vb_txs b))))) (\<lambda>spent.
     mbind (add_valid_block_to_blockchain_cache new_vm io b) (\<lambda>_.
     mbind (db_write io random_id (WriteBlock b)) (\<lambda>r.
     mbind (mexpect r) (\<lambda>_.
     send (PoolNewBlock spent)))))"

definition batch_add_valid_block_to_blockchain_database ::
  "codecs \<Rightarrow> nat \<Rightarrow> verified_block list \<Rightarrow> ('vm manager, 'e, unit) action" where
  "batch_add_valid_block_to_blockchain_database io random_id bs =
     mbind (db_write io random_id (BatchWriteBlocks bs)) (\<lambda>r. mbind (mexpect r) (\<lambda>_. mret ()))"

subsection \<open>Popping blocks\<close>

definition manager_pop_blocks :: "(bytes \<Rightarrow> 'vm option) \<Rightarrow> codecs \<Rightarrow> nat \<Rightarrow> nat \<Rightarrow> ('vm manager, 'e, nat) action" where
  "manager_pop_blocks new_vm io random_id numb_blocks =
     mbind (db_write io random_id (PopBlocks numb_blocks)) (\<lambda>r.
     mbind (mexpect r) (\<lambda>response.
     case response of
       PoppedBlocks old_main_chain_id \<Rightarrow>
         mbind (context_call new_vm io (PopContextBlocks numb_blocks)) (\<lambda>r.
         mbind (mexpect r) (\<lambda>_.
         mret old_main_chain_id))
     | _ \<Rightarrow> mpanic))"

definition handle_pop_blocks_command :: "(bytes \<Rightarrow> 'vm option) \<Rightarrow> codecs \<Rightarrow> nat \<Rightarrow> nat \<Rightarrow> ('vm manager, 'e, unit) action" where
  "handle_pop_blocks_command new_vm io random_id numb_blocks =
     mbind (manager_pop_blocks new_vm io random_id numb_blocks) (\<lambda>_.
     mbind (db_write io random_id FlushAltBlocks) (\<lambda>r.
     mbind (mexpect r) (\<lambda>_. mret ())))"

definition miner_outputs_sum :: "block \<Rightarrow> nat" where
  "miner_outputs_sum b = sum_u64 (map (\<lambda>out. unwrap_or_0 (amount out)) (outputs (prefix (miner_transaction b))))"

definition alt_block_to_verified_block_information :: "alt_block_information \<Rightarrow> blockchain_context \<Rightarrow> verified_block option" where
  "alt_block_to_verified_block_information ab ctx =
     (let v = bc_context_to_verify_block ctx in
      if ab_height ab \<noteq> chain_height v then None
      else
        let total_fees = sum_u64 (map vt_fee (ab_txs ab));
            total_outputs = miner_outputs_sum (ab_block ab);
            generated_coins = wsub 64 total_outputs total_fees
        in Some \<lparr>vb_block = ab_block ab, vb_block_blob = ab_block_blob ab, vb_txs = ab_txs ab, vb_hash = ab_block_hash ab,
                 vb_pow_hash = replicate 32 255, vb_height = ab_height ab,
                 vb_generated_coins = generated_coins, vb_weight = ab_weight ab,
                 vb_long_term_weight = next_block_long_term_weight ctx (ab_weight ab),
                 vb_cumulative_difficulty = wadd 128 (bc_cumulative_difficulty ctx) (next_difficulty v)\<rparr>)"

definition read_alt_blocks_in_chain ::
  "codecs \<Rightarrow> nat \<Rightarrow> ('vm manager, 'e, runtime_error fault + alt_block_information list) action" where
  "read_alt_blocks_in_chain io chain_id =
     mbind (db_read io (AltBlocksInChain chain_id)) (\<lambda>r.
     case r of
       Inl e \<Rightarrow> mret (Inl e)
     | Inr (RAltBlocksInChain blocks) \<Rightarrow> mret (Inr blocks)
     | Inr _ \<Rightarrow> mpanic)"

definition readd_block :: "(bytes \<Rightarrow> 'vm option) \<Rightarrow> codecs \<Rightarrow> nat \<Rightarrow> alt_block_information \<Rightarrow> ('vm manager, 'e, unit) action" where
  "readd_block new_vm io random_id ab =
     mbind (mget the_context) (\<lambda>ctx.
     mbind (mopt (alt_block_to_verified_block_information ab ctx)) (\<lambda>b.
     add_valid_block_to_main_chain new_vm io random_id b))"

definition reverse_reorg :: "(bytes \<Rightarrow> 'vm option) \<Rightarrow> codecs \<Rightarrow> nat \<Rightarrow> nat \<Rightarrow> ('vm manager, 'e, unit) action" where
  "reverse_reorg new_vm io random_id old_main_chain_id =
     mbind (read_alt_blocks_in_chain io old_main_chain_id) (\<lambda>r.
     mbind (mexpect r) (\<lambda>blocks.
     mbind (mopt (if blocks = [] then None else Some (ab_height (hd blocks)))) (\<lambda>split_height.
     mbind (mget context_height) (\<lambda>current_main_chain_height.
     let numb_blocks = wsub 64 current_main_chain_height split_height in
     mbind
       (if 0 < numb_blocks then mbind (manager_pop_blocks new_vm io random_id numb_blocks) (\<lambda>_. mret ()) else mret ()) (\<lambda>_.
     mbind
       (mfor (readd_block new_vm io random_id) blocks) (\<lambda>_.
     mbind (db_write io random_id FlushAltBlocks) (\<lambda>r.
     mbind (mexpect r) (\<lambda>_. mret ()))))))))"

end
