(* ===== verification/Manager_Laws.thy ===== *)
theory Manager_Laws
  imports Chain_Manager
begin

text \<open>
  Laws of the blockchain manager. \<open>node_sync\<close> says that the tables hold a list of blocks and the context task is in sync with it; the
  actions of \<open>Chain_Manager\<close> keep it. \<open>follows\<close> says that a block has the fields the context of the chain below gives it.
\<close>

subsection \<open>Blocks that follow a chain\<close>

definition context_at :: "context_config \<Rightarrow> verified_block list \<Rightarrow> blockchain_context option" where
  "context_at cfg bs =
     (let hs = headers_of bs in
      build_blockchain_context (weights_at (weights_config cfg) hs) (difficulty_at (difficulty_cfg cfg) hs)
        (current_hardfork (hard_fork_at (hard_fork_cfg cfg) hs)) (hash_at bs (length bs - 1)) (length bs) (coins_after bs))"

lemma node_sync_context: "node_sync io cfg bs t s \<Longrightarrow> context_at cfg bs = Some (context_cache s)"
  by (auto simp: node_sync_def in_sync_def context_at_def Let_def)

lemma context_at_height: "context_at cfg bs = Some ctx \<Longrightarrow> chain_height (bc_context_to_verify_block ctx) = length bs"
  by (auto simp: context_at_def build_blockchain_context_def Let_def bind_eq_Some_conv)

text \<open>The fork the header declares is the current one, and no input of the block's transactions is that of a miner transaction.\<close>

definition fork_ok :: "context_config \<Rightarrow> verified_block list \<Rightarrow> verified_block \<Rightarrow> bool" where
  "fork_ok cfg bs b \<longleftrightarrow>
     from_version (hardfork_version (header (vb_block b))) = Ok (current_hardfork (hard_fork_at (hard_fork_cfg cfg) (headers_of bs))) \<and>
     vb_cumulative_difficulty b < 2 ^ 128 \<and>
     spent_key_images (concat (map (\<lambda>x. inputs (prefix (vt_tx x))) (vb_txs b))) \<noteq> None"

lemma fork_ok_readable: "fork_ok cfg bs b \<Longrightarrow> headers_readable [b]"
  by (simp add: fork_ok_def headers_readable_def is_ok_iff)

definition in_step :: "context_config \<Rightarrow> verified_block list \<Rightarrow> 'vm context_task \<Rightarrow> bool" where
  "in_step cfg bs s \<longleftrightarrow> in_sync cfg (headers_of bs) (hash_at bs) (coins_after bs) s"

lemma context_update_ok:
  assumes cfg: "config_ok cfg" and sync: "in_step cfg bs s" "bs \<noteq> []" "headers_readable bs" and fork: "fork_ok cfg bs b"
    and b: "vb_height b = length bs" "length bs < 2 ^ 32"
  shows "\<exists>s'. context_update (new_block_data_of b) s = Some (s', Ok CtxOk) \<and> in_step cfg (bs @ [b]) s'"
proof -
  define h where "h = header_of b (current_hardfork (hard_fork_at (hard_fork_cfg cfg) (headers_of bs)))"
  have h: "headers_of [b] = [h]"
    using fork by (simp add: headers_of_def fork_ok_def h_def)
  obtain s' where s': "context_update (new_block_data_of b) s = Some (s', Ok CtxOk)"
    "in_sync cfg (headers_of bs @ [h]) ((hash_at bs)(length bs := vb_hash b)) (min (coins_after bs + vb_generated_coins b) (2 ^ 64 - 1)) s'"
    using update_keeps_sync [OF cfg, of "headers_of bs" "hash_at bs" "coins_after bs" s "new_block_data_of b" h] sync b
    by (auto simp: new_block_data_of_def h_def header_of_def in_sync_def in_step_def)
  have "((hash_at bs)(length bs := vb_hash b)) i = hash_at (bs @ [b]) i" if "i < length (headers_of (bs @ [b]))" for i
    using that by (auto simp: hash_at_def nth_append less_Suc_eq)
  then have "in_step cfg (bs @ [b]) s'"
    using s'(2) h in_sync_cong [of "headers_of (bs @ [b])" "(hash_at bs)(length bs := vb_hash b)" "hash_at (bs @ [b])" cfg _ s']
    by (simp add: in_step_def)
  then show ?thesis
    using s'(1) by blast
qed

lemma add_valid_block_ok:
  fixes m :: "'vm manager"
  assumes cfg: "config_ok cfg" and sync: "node_sync io cfg bs (mg_tables m) (mg_context m)" and b: "block_addable io b (mg_tables m)"
    and fork: "fork_ok cfg bs b"
  shows "\<exists>m'. add_valid_block_to_main_chain new_vm io rid b m = Some (m', Ok () :: 'e fault + unit) \<and>
    node_sync io cfg (bs @ [b]) (mg_tables m') (mg_context m') \<and> add_block io b (mg_tables m) = Ok (mg_tables m') \<and>
    mg_sent m' = mg_sent m @ [PoolNewBlock (the (spent_key_images (concat (map (\<lambda>x. inputs (prefix (vt_tx x))) (vb_txs b)))))]"
proof -
  let ?t = "mg_tables m" and ?s = "mg_context m"
  note at = sync [unfolded node_sync_def]
  obtain spent where spent: "spent_key_images (concat (map (\<lambda>x. inputs (prefix (vt_tx x))) (vb_txs b))) = Some spent"
    using fork by (auto simp: fork_ok_def)
  have len: "chain_height_of ?t = length bs" "db_ok ?t" "vb_height b = length bs" "length bs < 2 ^ 32"
    using built_holds_alts [of io bs ?t] at b by (simp_all add: block_addable_def)
  obtain s' where s': "context_update (new_block_data_of b) ?s = Some (s', Ok CtxOk)" "in_step cfg (bs @ [b]) s'"
    using context_update_ok [OF cfg _ _ _ fork len(3,4), of ?s] at by (auto simp: in_step_def)
  obtain t' where t': "add_block io b ?t = Ok t'"
    using add_block_eq [OF len(2) b] by blast
  then have "add_block io b (flush_alt_blocks ?t) = Ok (flush_alt_blocks t')"
    by (simp add: flush_with_alts add_block_alts)
  then have "built io (bs @ [b]) (flush_alt_blocks t')"
    using at b by (intro built_add) (simp_all add: flush_with_alts)
  then have "node_sync io cfg (bs @ [b]) t' s'"
    using at fork_ok_readable [OF fork] s'(2) by (simp add: node_sync_def in_step_def)
  then show ?thesis
    using s'(1) t' spent
    by (auto simp: add_valid_block_to_main_chain_def add_valid_block_to_blockchain_cache_def mbind_assoc mbind_def context_call_def
        handle_req_def mexpect_def mopt_def mret_def db_write_def handle_blockchain_request_def run_transaction_def send_def)
qed

subsection \<open>Popping\<close>

text \<open>
  The cases in which the caches follow a pop exactly: the window of hard-fork votes is not full, or the votes are settled; and the new top
  is not a seed block of the epoch left.
\<close>

definition pops_exactly :: "context_config \<Rightarrow> verified_block list \<Rightarrow> verified_block list \<Rightarrow> bool" where
  "pops_exactly cfg bs bs' \<longleftrightarrow>
     (length (bs @ bs') < hfc_window (hard_fork_cfg cfg) \<or> votes_settled (hard_fork_cfg cfg) (headers_of (bs @ bs')) (length bs')) \<and>
     \<not> pops_to_own_seed (length (bs @ bs') - 1) (length bs - 1)"

definition poppable :: "codecs \<Rightarrow> context_config \<Rightarrow> verified_block list \<Rightarrow> verified_block list \<Rightarrow> bool" where
  "poppable io cfg bs bs' \<longleftrightarrow>
     bs \<noteq> [] \<and> bs' \<noteq> [] \<and> linked (bs @ bs') \<and> list_all (alt_movable io) bs' \<and> length (bs @ bs') < 2 ^ 63 \<and> pops_exactly cfg bs bs'"

lemma manager_pop_ok:
  fixes m :: "'vm manager"
  assumes cfg: "config_ok cfg" and sync: "node_sync io cfg (bs @ bs') (mg_tables m) (mg_context m)" and pop: "poppable io cfg bs bs'"
    and c: "c \<noteq> 0"
  shows "\<exists>m'. manager_pop_blocks new_vm io c (length bs') m = Some (m', Ok c :: 'e fault + nat) \<and>
    node_sync io cfg bs (mg_tables m') (mg_context m') \<and> alt_chain_cache_map (mg_context m') = [] \<and> mg_sent m' = mg_sent m \<and>
    kept io c (length bs) bs' (mg_tables m')"
proof -
  let ?t = "mg_tables m" and ?s = "mg_context m"
  note at = sync [unfolded node_sync_def] and pop = pop [unfolded poppable_def pops_exactly_def]
  obtain t' where t': "pop_blocks io c (length bs') ?t = Ok t'" "built io bs (flush_alt_blocks t')"
    "kept io c (length bs) bs' t'"
    using pop_blocks_run [of io bs bs' ?t c] at pop c by auto
  have ok: "headers_readable bs"
    using at by simp
  note holds = built_holds_alts(1) [OF t'(2) ok, unfolded holds_def]
  have hashes: "\<forall>i < length bs. hash_at (bs @ bs') i = store_hash (io, t') i"
    using holds by (simp add: hash_at_def nth_append)
  obtain s' where s': "context_pop_blocks (length bs') (store_db (io, t')) ?s = Some (s', Ok CtxOk)" "alt_chain_cache_map s' = []"
    "in_sync cfg (headers_of bs) (hash_at (bs @ bs')) (coins_after bs) s'"
    using store_ctx.pop_keeps_sync [OF cfg, of "headers_of (bs @ bs')" "hash_at (bs @ bs')" "coins_after (bs @ bs')" ?s "(io, t')" "length bs'"]
      at pop holds hashes by auto
  have "in_sync cfg (headers_of bs) (hash_at bs) (coins_after bs) s'"
    using s'(3) pop in_sync_cong [of "headers_of bs" "hash_at (bs @ bs')" "hash_at bs" cfg _ s'] by (simp add: hash_at_def nth_append)
  then have "node_sync io cfg bs t' s'"
    using t'(2) pop ok by (simp add: node_sync_def)
  then show ?thesis
    using s'(1,2) t'(1,3)
    by (auto simp: manager_pop_blocks_def mbind_def context_call_def handle_req_def mexpect_def mret_def db_write_def
        handle_blockchain_request_def run_transaction_def)
qed

subsection \<open>Putting popped blocks back\<close>

definition follows :: "context_config \<Rightarrow> verified_block list \<Rightarrow> verified_block \<Rightarrow> bool" where
  "follows cfg bs b \<longleftrightarrow>
     fork_ok cfg bs b \<and>
     (case context_at cfg bs of
        None \<Rightarrow> False
      | Some ctx \<Rightarrow>
          vb_height b = length bs \<and>
          vb_generated_coins b = wsub 64 (miner_outputs_sum (vb_block b)) (sum_u64 (map vt_fee (vb_txs b))) \<and>
          vb_long_term_weight b = next_block_long_term_weight ctx (vb_weight b) \<and>
          vb_cumulative_difficulty b = wadd 128 (bc_cumulative_difficulty ctx) (next_difficulty (bc_context_to_verify_block ctx)))"

fun follow_all :: "context_config \<Rightarrow> verified_block list \<Rightarrow> verified_block list \<Rightarrow> bool" where
  "follow_all cfg bs [] \<longleftrightarrow> True"
| "follow_all cfg bs (b # bs') \<longleftrightarrow> follows cfg bs b \<and> follow_all cfg (bs @ [b]) bs'"

text \<open>
  The tables do not hold the proof-of-work hash of a main-chain block. A block that was popped and is put back, or that fast sync added,
  has another one than a block that verification just accepted; neither the tables nor the context depend on it.
\<close>

definition restored :: "codecs \<Rightarrow> verified_block \<Rightarrow> verified_block" where
  "restored io b = b\<lparr>vb_block_blob := block_serialize io (vb_block b), vb_pow_hash := replicate 32 255\<rparr>"

lemma restored_fields [simp]:
  "vb_block (restored io b) = vb_block b" "vb_txs (restored io b) = vb_txs b" "vb_hash (restored io b) = vb_hash b"
  "vb_height (restored io b) = vb_height b" "vb_generated_coins (restored io b) = vb_generated_coins b" "vb_weight (restored io b) = vb_weight b"
  "vb_long_term_weight (restored io b) = vb_long_term_weight b" "vb_cumulative_difficulty (restored io b) = vb_cumulative_difficulty b"
  "restored io (restored io b) = restored io b"
  by (simp_all add: restored_def)

lemma restored_same [simp]:
  "block_addable io' (restored io b) t = block_addable io' b t" "add_block io' (restored io b) t = add_block io' b t"
  "fork_ok cfg bs (restored io b) = fork_ok cfg bs b" "new_block_data_of (restored io b) = new_block_data_of b"
  by (simp_all add: block_addable_def add_block_def fork_ok_def new_block_data_of_def)

lemma restored_chain:
  "headers_of (map (restored io) bs) = headers_of bs" "headers_readable (map (restored io) bs) = headers_readable bs"
  "coins_after (map (restored io) bs) = coins_after bs" "context_at cfg (map (restored io) bs) = context_at cfg bs"
  "built io' (map (restored io) bs) t = built io' bs t"
proof -
  show hs: "headers_of (map (restored io) bs) = headers_of bs"
    by (simp add: headers_of_def header_of_def)
  show "headers_readable (map (restored io) bs) = headers_readable bs"
    by (simp add: headers_readable_def list_all_iff)
  show coins: "coins_after (map (restored io) bs) = coins_after bs"
    by (simp add: coins_after_def foldl_map)
  show "context_at cfg (map (restored io) bs) = context_at cfg bs"
    unfolding context_at_def hs coins by (cases "bs = []") (simp_all add: hash_at_def)
  have "built io' (xs @ [b]) t \<longleftrightarrow> (\<exists>u. built io' xs u \<and> block_addable io' b u \<and> add_block io' b u = Ok t)" for xs b t
    by (auto intro: built_add elim: built_snocE)
  then show "built io' (map (restored io) bs) t = built io' bs t"
    by (induction bs arbitrary: t rule: rev_induct) simp_all
qed

lemma restored_cong:
  assumes "map (restored io) bs = map (restored io) bs'"
  shows "headers_of bs = headers_of bs'" "context_at cfg bs = context_at cfg bs'" "built io' bs t = built io' bs' t"
    "headers_readable bs = headers_readable bs'" "coins_after bs = coins_after bs'"
  using assms restored_chain by metis+

lemma node_sync_cong:
  assumes "map (restored io) bs = map (restored io) bs'" "node_sync io' cfg bs t s"
  shows "node_sync io' cfg bs' t s"
proof -
  have len: "length bs = length bs'"
    using assms(1) by (metis length_map)
  have "hash_at bs i = hash_at bs' i" if "i < length bs" for i
    using arg_cong [OF assms(1), of "\<lambda>xs. vb_hash (xs ! i)"] that len by (simp add: hash_at_def)
  then have "in_sync cfg (headers_of bs) (hash_at bs') (coins_after bs) s"
    using assms(2) in_sync_cong [of "headers_of bs" "hash_at bs" "hash_at bs'" cfg "coins_after bs" s] by (simp add: node_sync_def)
  then show ?thesis
    using assms(2) len restored_cong [OF assms(1)] by (auto simp: node_sync_def)
qed

lemma follows_restored:
  "follows cfg bs b \<Longrightarrow> context_at cfg bs = Some ctx \<Longrightarrow> alt_block_to_verified_block_information (alt_of io c b) ctx = Some (restored io b)"
  using context_at_height [of cfg bs ctx]
  by (cases b) (simp add: follows_def alt_block_to_verified_block_information_def alt_of_def restored_def Let_def)

lemma write_restored: "db_write io rid (WriteBlock (restored io' b)) = db_write io rid (WriteBlock b)"
  by (simp add: fun_eq_iff db_write_def handle_blockchain_request_def)

lemma add_restored:
  "add_valid_block_to_main_chain new_vm io rid (restored io' b) = add_valid_block_to_main_chain new_vm io rid b"
  by (simp add: add_valid_block_to_main_chain_def add_valid_block_to_blockchain_cache_def write_restored)

lemma built_unique: "built io bs t \<Longrightarrow> built io bs t' \<Longrightarrow> t = t'"
proof (induction bs arbitrary: t t' rule: rev_induct)
  case (snoc b bs)
  from snoc.prems obtain u u' where "built io bs u" "add_block io b u = Ok t" "built io bs u'" "add_block io b u' = Ok t'"
    by (elim built_snocE)
  then show ?case
    using snoc.IH [of u u'] by simp
qed (auto elim: built_NilE)

lemma built_length: "built io bs t \<Longrightarrow> length bs \<le> 2 ^ 32"
proof (induction rule: built.induct)
  case (built_add bs t b t')
  then show ?case
    using built_ok [OF built_add.hyps(1)] by (simp add: block_addable_def)
qed simp

lemma built_prefix: "built io (bs @ bs') t \<Longrightarrow> \<exists>u. built io bs u"
proof (induction bs' arbitrary: t rule: rev_induct)
  case (snoc b bs')
  then obtain u where "built io (bs @ bs') u"
    using built_snocE [of io "bs @ bs'" b t] by auto
  then show ?case
    by (rule snoc.IH)
qed auto

lemma built_next_addable:
  assumes "built io (bs @ b # bs') u" "built io bs (flush_alt_blocks t)"
  shows "block_addable io b t"
proof -
  obtain v where "built io (bs @ [b]) v"
    using built_prefix [of io "bs @ [b]" bs' u] assms(1) by auto
  then obtain w where "built io bs w" "block_addable io b w"
    by (rule built_snocE)
  then show ?thesis
    using built_unique [OF assms(2)] by (metis flush_with_alts main_reads_alts(3))
qed

lemma readd_ok:
  fixes m :: "'vm manager"
  assumes "config_ok cfg" "node_sync io cfg bs (mg_tables m) (mg_context m)" "built io (bs @ bs') u" "follow_all cfg bs bs'"
  shows "\<exists>m'. mfor (readd_block new_vm io rid) (map (alt_of io c) bs') m = Some (m', Ok () :: 'e fault + unit) \<and>
    node_sync io cfg (bs @ bs') (mg_tables m') (mg_context m')"
  using assms(2-)
proof (induction bs' arbitrary: bs m)
  case (Cons b bs')
  have "block_addable io b (mg_tables m)"
    using built_next_addable [of io bs b bs' u] Cons.prems(1,2) by (simp add: node_sync_def)
  moreover have "fork_ok cfg bs b"
    using Cons.prems(3) by (simp add: follows_def)
  ultimately obtain m1 where m1: "add_valid_block_to_main_chain new_vm io rid b m = Some (m1, Ok () :: 'e fault + unit)"
      "node_sync io cfg (bs @ [b]) (mg_tables m1) (mg_context m1)"
    using add_valid_block_ok [OF assms(1) Cons.prems(1)] by blast
  have "alt_block_to_verified_block_information (alt_of io c b) (the_context m) = Some (restored io b)"
    using follows_restored [of cfg bs b] node_sync_context [OF Cons.prems(1)] Cons.prems(3) by simp
  then have "readd_block new_vm io rid (alt_of io c b) m = Some (m1, Ok () :: 'e fault + unit)"
    using m1(1) by (simp add: readd_block_def add_restored)
  then show ?case
    using Cons.IH [OF m1(2)] Cons.prems(2,3) by (simp add: mbind_def)
qed (simp add: mret_def)

lemma reverse_reorg_ok:
  fixes m :: "'vm manager"
  assumes cfg: "config_ok cfg" and sync: "node_sync io cfg (bs @ new) (mg_tables m) (mg_context m)"
    and old: "built io (bs @ old) u" "old \<noteq> []" "follow_all cfg bs old" "kept io c (length bs) old (mg_tables m)"
    and pop: "new = [] \<or> poppable io cfg bs new" and ne: "bs \<noteq> []" and rid: "rid \<noteq> 0" "c \<noteq> 0"
  shows "\<exists>m'. reverse_reorg new_vm io rid c m = Some (m', Ok () :: 'e fault + unit) \<and> mg_tables m' = u \<and>
    node_sync io cfg (bs @ old) (mg_tables m') (mg_context m')"
proof -
  have height: "vb_height (hd old) = length bs" "context_height m = length (bs @ new)"
    using old(2,3) context_at_height [OF node_sync_context [OF sync]] by (cases old; auto simp: follows_def split: option.splits)+
  have "length (bs @ new) < 2 ^ 64"
    using built_length [of io "bs @ new" "flush_alt_blocks (mg_tables m)"] sync by (simp add: node_sync_def)
  then have n: "wsub 64 (context_height m) (vb_height (hd old)) = length new"
    using height by (simp add: wsub_exact)
  obtain m1 where m1: "(if 0 < length new then mbind (manager_pop_blocks new_vm io rid (length new)) (\<lambda>_. mret ()) else mret ()) m = Some (m1, Ok () :: 'e fault + unit)"
    "node_sync io cfg bs (mg_tables m1) (mg_context m1)"
  proof (cases "new = []")
    case False
    then obtain m1 where "manager_pop_blocks new_vm io rid (length new) m = Some (m1, Ok rid :: 'e fault + nat)" "node_sync io cfg bs (mg_tables m1) (mg_context m1)"
      using manager_pop_ok [OF cfg sync _ rid(1)] pop by blast
    then show thesis
      using that False by (auto simp: mbind_def)
  qed (use that sync in simp)
  obtain m2 where m2: "mfor (readd_block new_vm io rid) (map (alt_of io c) old) m1 = Some (m2, Ok () :: 'e fault + unit)"
    "node_sync io cfg (bs @ old) (mg_tables m2) (mg_context m2)"
    using readd_ok [OF cfg m1(2) old(1,3)] by blast
  have "flush_alt_blocks (mg_tables m2) = u"
    using built_unique [of io "bs @ old"] m2(2) old(1) by (simp add: node_sync_def)
  moreover have "node_sync io cfg (bs @ old) (flush_alt_blocks (mg_tables m2)) (mg_context m2)"
    using m2(2) by (simp add: node_sync_def flush_with_alts)
  moreover have "read_alt_blocks_in_chain io c m = Some (m, Ok (Ok (map (alt_of io c) old)) :: 'e fault + (runtime_error fault + alt_block_information list))"
    using kept_read [OF old(4,2) rid(2)] ne built_length [OF old(1)] by (simp add: read_alt_blocks_in_chain_def db_read_def map_request_def mbind_def)
  moreover have "ab_height (hd (map (alt_of io c) old)) = vb_height (hd old)" "map (alt_of io c) old \<noteq> []"
    using old(2) by (cases old; simp add: alt_of_def)+
  ultimately show ?thesis
    using n m1(1) m2(1) unfolding reverse_reorg_def Let_def
    by (cases "new = []") (simp_all add: mbind_Ok db_write_def handle_blockchain_request_def run_transaction_def)
qed

end
