(* ===== verification/Fast_Sync.thy ===== *)
theory Fast_Sync
  imports Block_Verify
begin

text \<open>
  Fast sync: \<^verbatim>\<open>src/consensus/fast-sync/src/fast_sync.rs\<close> and the tool \<^verbatim>\<open>create.rs\<close> that makes its hashes. Below the fast-sync height a node
  does not verify blocks: it compares the hashes of batches of block ids with hashes it was built with, and computes what it stores
  about a block from the block and the context.

  \<open>blake3\<close> is the hash function of the crate of that name: a \<open>Hasher\<close> is the list of the bytes given to it. The static list of hashes is the
  argument \<open>hashes\<close>, so the panic of an unset \<open>OnceLock\<close> is not in the model. A peer is a value that is only copied. Sums of lengths of lists
  in memory and of heights of the chain do not reach \<open>2 ^ 64\<close>.
\<close>

subsection \<open>Validating chain entries\<close>

definition FAST_SYNC_BATCH_LEN :: nat where
  "FAST_SYNC_BATCH_LEN = 512"

definition fast_sync_stop_height :: "bytes list \<Rightarrow> nat" where
  "fast_sync_stop_height hashes = length hashes * FAST_SYNC_BATCH_LEN"

record 'p chain_entry =
  ce_ids :: "bytes list"
  ce_peer :: 'p

datatype fast_sync_error = HashesDoNotMatch | FastSyncDB runtime_error

definition get_hash_index_for_height :: "nat \<Rightarrow> nat" where
  "get_hash_index_for_height height = height div FAST_SYNC_BATCH_LEN"

definition as_block_hashes :: "read_response \<Rightarrow> bytes list option" where
  "as_block_hashes r = (case r of RBlockHashInRange hs \<Rightarrow> Some hs | _ \<Rightarrow> None)"

definition fast_sync_fault :: "runtime_error fault \<Rightarrow> fast_sync_error fault" where
  "fast_sync_fault e = (case e of Panic \<Rightarrow> Panic | Fault r \<Rightarrow> Fault (FastSyncDB r))"

text \<open>The loop that takes entries from the back; the entries are given last first.\<close>

fun take_unknown :: "nat \<Rightarrow> 'p chain_entry list \<Rightarrow> 'p chain_entry list \<Rightarrow> 'p chain_entry list \<times> 'p chain_entry list" where
  "take_unknown d [] unknown = ([], unknown)"
| "take_unknown d (back # es) unknown =
     (if d = 0 then (back # es, unknown)
      else
        let n = length (ce_ids back) in
        if d \<le> n
        then (back\<lparr>ce_ids := take (n - d) (ce_ids back)\<rparr> # es, back\<lparr>ce_ids := drop (n - d) (ce_ids back)\<rparr> # unknown)
        else take_unknown (d - n) es (back # unknown))"

fun check_hashes ::
  "(bytes \<Rightarrow> bytes) \<Rightarrow> bytes list \<Rightarrow> nat \<Rightarrow> nat \<Rightarrow> bytes \<Rightarrow> nat \<Rightarrow> bytes list \<Rightarrow> fast_sync_error fault + nat" where
  "check_hashes blake3 hashes start i hasher last_i [] = Ok last_i"
| "check_hashes blake3 hashes start i hasher last_i (hash # hs) =
     (let hasher = hasher @ hash in
      if (i + 1) mod FAST_SYNC_BATCH_LEN = 0
      then
        let index = get_hash_index_for_height (start + i) in
        if length hashes \<le> index then Err Panic
        else if blake3 hasher \<noteq> hashes ! index then Err (Fault HashesDoNotMatch)
        else check_hashes blake3 hashes start (i + 1) [] (i + 1) hs
      else check_hashes blake3 hashes start (i + 1) hasher (i + 1) hs)"

definition validate_entries ::
  "(bytes \<Rightarrow> bytes) \<Rightarrow> bytes list \<Rightarrow> 'p chain_entry list \<Rightarrow> nat \<Rightarrow> database \<Rightarrow>
     (fast_sync_error fault + 'p chain_entry list \<times> 'p chain_entry list) option" where
  "validate_entries blake3 hashes entries start_height db =
     (if fast_sync_stop_height hashes \<le> start_height then cok (entries, [])
      else
        let hashes_start_height = start_height div FAST_SYNC_BATCH_LEN * FAST_SYNC_BATCH_LEN;
            amount_of_hashes = sum_list (map (\<lambda>e. length (ce_ids e)) entries);
            last_height = amount_of_hashes + start_height;
            hashes_stop_height = min (last_height div FAST_SYNC_BATCH_LEN * FAST_SYNC_BATCH_LEN) (fast_sync_stop_height hashes)
        in
          cbind (map_option (map_err fast_sync_fault) (db (BlockHashInRange hashes_start_height start_height Main))) (\<lambda>r.
          cbind (cunwrap (as_block_hashes r)) (\<lambda>starting_hashes.
          if amount_of_hashes + length starting_hashes < FAST_SYNC_BATCH_LEN then cok ([], entries)
          else
            let (kept, unknown) = take_unknown (last_height - hashes_stop_height) (rev entries) [];
                entries = rev kept
            in
              cbind (Some (check_hashes blake3 hashes hashes_start_height 0 [] 1
                (starting_hashes @ concat (map ce_ids entries)))) (\<lambda>last_i.
              cbind (Some (assert (last_i mod FAST_SYNC_BATCH_LEN = 0))) (\<lambda>_.
              cok (entries, unknown))))))"

subsection \<open>Making the hashes\<close>

definition hash_of_hashes :: "(bytes \<Rightarrow> bytes) \<Rightarrow> bytes list \<Rightarrow> bytes" where
  "hash_of_hashes blake3 hashes = blake3 (concat hashes)"

definition read_batch :: "database \<Rightarrow> nat \<Rightarrow> bytes list db_result option" where
  "read_batch db height_from =
     cbind (db (BlockHashInRange height_from (height_from + FAST_SYNC_BATCH_LEN) Main)) (\<lambda>r. cunwrap (as_block_hashes r))"

function create_hashes :: "(bytes \<Rightarrow> bytes) \<Rightarrow> database \<Rightarrow> nat \<Rightarrow> nat \<Rightarrow> bytes list \<Rightarrow> bytes list db_result option" where
  "create_hashes blake3 db height_target height hashes_of_hashes =
     (if height + FAST_SYNC_BATCH_LEN < height_target
      then
        case read_batch db height of
          None \<Rightarrow> None
        | Some (Inr block_ids) \<Rightarrow>
            create_hashes blake3 db height_target (height + FAST_SYNC_BATCH_LEN) (hashes_of_hashes @ [hash_of_hashes blake3 block_ids])
        | Some (Inl (Fault _)) \<Rightarrow> cok hashes_of_hashes
        | Some (Inl Panic) \<Rightarrow> Some (Err Panic)
      else cok hashes_of_hashes)"
  by pat_completeness auto

termination
  by (relation "measure (\<lambda>(_, _, target, height, _). target - height)") (auto simp: FAST_SYNC_BATCH_LEN_def)

declare create_hashes.simps [simp del]

subsection \<open>Blocks\<close>

text \<open>The \<open>HashMap\<close> the transactions are collected into: a later transaction replaces one with the same hash.\<close>

definition collect_tx_map :: "tx_verification_data list \<Rightarrow> tx_map" where
  "collect_tx_map txs = fold (\<lambda>tx. map_insert (tv_hash tx) tx) txs []"

fun take_txs :: "bytes list \<Rightarrow> tx_map \<Rightarrow> tx_verification_data list option" where
  "take_txs [] m = Some []"
| "take_txs (h # hs) m =
     Option.bind (map_of m h) (\<lambda>tx. map_option (Cons tx) (take_txs hs (filter (\<lambda>p. fst p \<noteq> h) m)))"

definition block_to_verified_block_information ::
  "'p verifier \<Rightarrow> block \<Rightarrow> transaction list \<Rightarrow> blockchain_context \<Rightarrow> verified_block option" where
  "block_to_verified_block_information V blk txs ctx =
     (let v = bc_context_to_verify_block ctx in
      case inputs (prefix (miner_transaction blk)) of
        Gen height # _ \<Rightarrow>
          if height \<noteq> chain_height v then None
          else
            Option.bind (case collect_results (new_tx_verification_data V) txs of Inr data \<Rightarrow> Some data | Inl _ \<Rightarrow> None) (\<lambda>data.
            Option.bind (take_txs (transactions blk) (collect_tx_map data)) (\<lambda>data.
            let verified_txs = map verified_tx_of data;
                total_fees = sum_u64 (map vt_fee verified_txs);
                total_outputs = sum_u64 (map (\<lambda>out. unwrap_or_0 (amount out)) (outputs (prefix (miner_transaction blk))));
                generated_coins = wsub 64 total_outputs total_fees;
                weight = wadd 64 (tx_weight_of (vcodecs V) (miner_transaction blk)) (sum_u64 (map vt_weight verified_txs))
            in Some \<lparr>vb_block = blk, vb_block_blob = block_serialize (vcodecs V) blk, vb_txs = verified_txs, vb_hash = block_hash_of V blk,
                     vb_pow_hash = replicate 32 255, vb_height = height,
                     vb_generated_coins = generated_coins, vb_weight = weight,
                     vb_long_term_weight = next_block_long_term_weight ctx weight,
                     vb_cumulative_difficulty = wadd 128 (bc_cumulative_difficulty ctx) (next_difficulty v)\<rparr>))
      | _ \<Rightarrow> None)"

end
