(* ===== verification/Verify_Laws.thy ===== *)
theory Verify_Laws
  imports Block_Verify
begin

text \<open>
  What verification guarantees. The transactions end up in the order of the block; a verified list of transactions has distinct key images
  that the chain does not have, every transaction passed the checks its recorded state calls for, and a verified block has the fields that
  the context gives it.
\<close>

subsection \<open>Ordering\<close>

lemma position_Some: "position p xs = Some k \<Longrightarrow> k < length xs \<and> p (xs ! k)"
  by (induction xs arbitrary: k) (auto split: if_splits)

lemma position_None: "position p xs = None \<longleftrightarrow> (\<forall>x \<in> set xs. \<not> p x)"
  by (induction xs) auto

lemma swap_at_facts:
  assumes "i \<le> j" "j < length xs"
  shows "length (swap_at i j xs) = length xs" "mset (swap_at i j xs) = mset xs" "take i (swap_at i j xs) = take i xs"
    "swap_at i j xs ! i = xs ! j"
  using assms by (auto simp: swap_at_def mset_swap nth_list_update)

lemma drop_mset: "take i xs = take i ys \<Longrightarrow> mset xs = mset ys \<Longrightarrow> mset (drop i xs) = mset (drop i ys)"
  by (metis add_left_cancel append_take_drop_id mset_append)

lemma order_from_step:
  assumes "i < length txs" "position (\<lambda>tx. tv_hash tx = h) (drop i txs) = Some k"
  defines "txs' \<equiv> swap_at i (i + k) txs"
  shows "length txs' = length txs" "mset txs' = mset txs" "take i txs' = take i txs" "tv_hash (txs' ! i) = h"
  using position_Some [OF assms(2)] swap_at_facts [of i "i + k" txs] assms(1) by (auto simp: txs'_def)

lemma order_from_spec:
  assumes "i + length hs = length txs"
  shows "(order_from i hs txs = Ok txs' \<longrightarrow> mset txs' = mset txs \<and> take i txs' = take i txs \<and> map tv_hash (drop i txs') = hs) \<and>
    (is_ok (order_from i hs txs) \<longleftrightarrow> mset (map tv_hash (drop i txs)) = mset hs)"
  using assms
proof (induction hs arbitrary: i txs)
  case (Cons h hs)
  have i: "i < length txs"
    using Cons.prems by simp
  have drop_Suc: "drop i xs = xs ! i # drop (Suc i) xs" if "length xs = length txs" for xs :: "tx_verification_data list"
    using i that by (simp add: Cons_nth_drop_Suc)
  have main: ?case
    if us: "length us = length txs" "mset us = mset txs" "take i us = take i txs" "tv_hash (us ! i) = h"
      and eq: "order_from i (h # hs) txs = order_from (Suc i) hs us" for us
  proof -
    have IH: "(order_from (Suc i) hs us = Ok txs' \<longrightarrow> mset txs' = mset us \<and> take (Suc i) txs' = take (Suc i) us \<and> map tv_hash (drop (Suc i) txs') = hs) \<and>
        (is_ok (order_from (Suc i) hs us) \<longleftrightarrow> mset (map tv_hash (drop (Suc i) us)) = mset hs)"
      using Cons.IH [of "Suc i" us] Cons.prems us(1) by simp
    have "mset (drop i us) = mset (drop i txs)"
      by (rule drop_mset) (use us in simp_all)
    then have tail: "mset (map tv_hash (drop i txs)) = add_mset h (mset (map tv_hash (drop (Suc i) us)))"
      using drop_Suc [OF us(1)] us(4) by (metis image_mset_add_mset mset.simps(2) mset_map)
    have "take i txs' = take i txs \<and> map tv_hash (drop i txs') = h # hs"
      if "mset txs' = mset us" "take (Suc i) txs' = take (Suc i) us" "map tv_hash (drop (Suc i) txs') = hs"
    proof -
      have "length txs' = length txs"
        using that(1) us(1) by (metis size_mset)
      moreover have "txs' ! i = us ! i" "take i txs' = take i us"
        using that(2) by (metis lessI nth_take, metis Suc_n_not_le_n less_or_eq_imp_le linorder_not_less min.absorb2 min.commute take_take)
      ultimately show ?thesis
        using that(3) us drop_Suc [of txs'] by simp
    qed
    then show ?thesis
      using IH tail us(2) unfolding eq by simp
  qed
  show ?case
  proof (cases "tv_hash (txs ! i) = h")
    case True
    then show ?thesis
      by (intro main [of txs]) simp_all
  next
    case False
    show ?thesis
    proof (cases "position (\<lambda>tx. tv_hash tx = h) (drop i txs)")
      case None
      then have "h \<notin> set (map tv_hash (drop i txs))"
        unfolding position_None by auto
      then have "mset (map tv_hash (drop i txs)) \<noteq> mset (h # hs)"
        by (metis list.set_intros(1) mset_eq_setD)
      then show ?thesis
        using False None by (auto simp: ok_or_def)
    next
      case (Some k)
      then show ?thesis
        using False order_from_step [OF i Some] by (intro main [of "swap_at i (i + k) txs"]) (simp_all add: ok_or_def)
    qed
  qed
qed simp

subsection \<open>Results\<close>

lemma cbind_eq_Ok: "cbind r k = Some (Inr y) \<longleftrightarrow> (\<exists>x. r = Some (Inr x) \<and> k x = Some (Inr y))"
  by (auto simp: cbind_def split: option.splits sum.splits)

lemma cok_eq: "cok x = Some (Inr y) \<longleftrightarrow> x = y" "cunwrap z = Some (Inr y) \<longleftrightarrow> z = Some y"
  by (auto simp: cok_def cunwrap_def unwrap_def split: option.splits)

lemma from_errors_Ok [simp]:
  "from_transaction_error r = Inr x \<longleftrightarrow> r = Inr x" "from_block_error q = Inr x \<longleftrightarrow> q = Inr x"
  by (cases r; simp add: from_transaction_error_def) (cases q; simp add: from_block_error_def)

lemma ask_Ok: "ask db req sel = Some (Inr x) \<longleftrightarrow> (\<exists>r. db req = Some (Inr r) \<and> sel r = Some x)"
  by (auto simp: ask_def cbind_eq_Ok cok_eq map_err_eq_Inr)

subsection \<open>Key images\<close>

lemma batch_key_images_Ok:
  "batch_key_images ins seen = Ok ks \<longleftrightarrow>
     distinct (input_images ins) \<and> set (input_images ins) \<inter> set seen = {} \<and> ks = rev (input_images ins) @ seen"
  by (induction ins seen rule: batch_key_images.induct) auto

lemma check_kis_unique_sound:
  assumes "check_kis_unique txs (store_db (io, t)) = Some (Ok ())"
  defines "images \<equiv> input_images (concat (map (\<lambda>tx. inputs (prefix (tv_tx tx))) txs))"
  shows "distinct images" "\<forall>ki \<in> set images. ki \<notin> fst ` set (key_images t)"
  using assms(1)
  by (auto simp: check_kis_unique_def cbind_eq_Ok cok_eq ask_Ok no_panic_eq batch_key_images_Ok images_def map_request_def
      key_images_spent_def key_image_exists_def tbl_contains_iff list_ex_iff split: if_splits)

subsection \<open>The checks of each transaction\<close>

definition checked_as ::
  "'p verifier \<Rightarrow> output_cache \<Rightarrow> nat \<Rightarrow> bytes \<Rightarrow> nat \<Rightarrow> hard_fork \<Rightarrow> tx_verification_data \<times> verification_kind \<Rightarrow>
     tx_verification_data \<Rightarrow> bool" where
  "checked_as V c height tip now hf x tx' \<longleftrightarrow>
     (case x of (tx, n) \<Rightarrow>
        if needs_check n
        then \<exists>ring. ring_member_info hf c tx = Ok ring \<and>
               check_transaction_contextual (rules V) (tv_tx tx) ring height now hf = Ok () \<and>
               (n = SemanticAndContextual \<longrightarrow> semantic_check V hf tx = Ok () \<and>
                  list_all (\<lambda>(b, cs). statement_valid V b cs) (queued_statements (tv_tx tx))) \<and>
               tx' = tx\<lparr>tv_state := new_verification_state tip hf ring\<rparr>
        else tx' = tx)"

lemma set_states_rel:
  assumes "list_all2 Q (filter (\<lambda>x. needs_check (snd x)) xs) rings"
    and "\<And>x ring. x \<in> set xs \<Longrightarrow> needs_check (snd x) \<Longrightarrow> Q x ring \<Longrightarrow> R x ((fst x)\<lparr>tv_state := new_verification_state tip hf ring\<rparr>)"
    and "\<And>x. \<not> needs_check (snd x) \<Longrightarrow> R x (fst x)"
  shows "list_all2 R xs (set_states tip hf xs rings)"
  using assms(1,2)
proof (induction xs arbitrary: rings)
  case (Cons x xs)
  obtain tx n where x: "x = (tx, n)"
    by (cases x)
  show ?case
    using Cons assms(3) [of x] by (cases "needs_check n") (force simp: x list_all2_Cons1)+
qed simp

lemma verify_transactions_sound:
  assumes "verify_transactions V txs needed height tip now hf db cache = Some (Ok txs')"
  shows "\<exists>c. list_all2 (checked_as V c height tip now hf) (zip txs needed) txs' \<and>
    (case cache of Some c' \<Rightarrow> c = c'
     | None \<Rightarrow> \<exists>m. wanted_ring_members (map fst (filter (\<lambda>x. needs_check (snd x)) (zip txs needed))) [] = Ok m \<and>
         db (Outputs m False) = Some (Ok (ROutputs c)))"
proof -
  let ?xs = "zip txs needed"
  let ?checked = "filter (\<lambda>x. needs_check (snd x)) ?xs"
  obtain rings where rings: "batch_get_ring_member_info (map fst ?checked) hf db cache = Some (Ok rings)"
    "\<forall>x \<in> set (zip ?checked rings). check_one V height now hf x = Ok ()"
    "batch_verifies V (map (\<lambda>x. tv_tx (fst x)) (filter (\<lambda>x. snd x = SemanticAndContextual) ?checked))"
    "txs' = set_states tip hf ?xs rings"
    using assms by (auto simp: verify_transactions_def Let_def cbind_eq_Ok cok_eq try_for_each_Ok split: if_splits)
  obtain c m where c: "collect_results (ring_member_info hf c) (map fst ?checked) = Ok rings" "wanted_ring_members (map fst ?checked) [] = Ok m"
    "(case cache of Some c' \<Rightarrow> cok c' | None \<Rightarrow> ask db (Outputs m False) as_outputs) = Some (Ok c)"
    using rings(1) by (auto simp: batch_get_ring_member_info_def cbind_eq_Ok no_panic_eq)
  define Q where "Q x ring \<longleftrightarrow> ring_member_info hf c (fst x) = Ok ring \<and> check_one V height now hf (x, ring) = Ok ()" for x ring
  have "list_all2 (\<lambda>x ring. ring_member_info hf c (fst x) = Ok ring) ?checked rings"
    using c(1) by (simp add: collect_results_Ok list_all2_map1)
  then have "list_all2 Q ?checked rings"
    using rings(2) by (auto simp: Q_def list_all2_iff)
  then have "list_all2 (checked_as V c height tip now hf) ?xs (set_states tip hf ?xs rings)"
  proof (rule set_states_rel)
    fix x ring assume x: "x \<in> set ?xs" "needs_check (snd x)" "Q x ring"
    have "list_all (\<lambda>(b, cs). statement_valid V b cs) (queued_statements (tv_tx (fst x)))" if "snd x = SemanticAndContextual"
    proof -
      have "x \<in> set (filter (\<lambda>x. snd x = SemanticAndContextual) ?checked)"
        using that x(1) by (simp add: needs_check_def)
      then show ?thesis
        using rings(3) unfolding batch_verifies_def list_all_iff set_concat set_map by blast
    qed
    then show "checked_as V c height tip now hf x ((fst x)\<lparr>tv_state := new_verification_state tip hf ring\<rparr>)"
      using x(2,3) by (auto simp: checked_as_def Q_def check_one_def and_then_eq_Inr split_beta split: if_splits)
  qed (simp add: checked_as_def split_beta)
  then show ?thesis
    using c(2,3) rings(4) by (auto simp: cok_eq ask_Ok split: option.splits)
qed

definition decoys_ok :: "tables \<Rightarrow> hard_fork \<Rightarrow> nat list \<Rightarrow> tx_verification_data \<Rightarrow> bool" where
  "decoys_ok t hf amounts tx \<longleftrightarrow>
     hf = V1 \<or>
     (\<exists>di. decoy_info_new (inputs (prefix (tv_tx tx))) (\<lambda>a. if a \<in> set amounts then amount_of_outs t a else 0) hf = Ok di \<and>
        check_decoy_info di hf = Ok ())"

lemma decoy_info_sound:
  assumes "verify_transactions_decoy_info txs hf (store_db (io, t)) None = Some (Ok ())"
  shows "list_all (decoys_ok t hf (input_amounts txs)) txs"
proof (cases "hf = V1")
  case False
  let ?f = "\<lambda>a. case map_of (number_outputs_with_amount (input_amounts txs) t) a of Some n \<Rightarrow> n | None \<Rightarrow> 0"
  have "?f = (\<lambda>a. if a \<in> set (input_amounts txs) then amount_of_outs t a else 0)"
    by (intro ext) (simp add: number_outputs_with_amount_def map_of_map_restrict restrict_map_def)
  then show ?thesis
    using assms False
    by (fastforce simp: verify_transactions_decoy_info_def batch_get_decoy_info_def cbind_eq_Ok cok_eq ask_Ok map_request_def
        try_for_each_Ok and_then_eq_Inr list_all_iff decoys_ok_def assert_eq_Inr)
qed (simp add: decoys_ok_def list_all_iff)

lemma full_verify_ok:
  assumes "full_verify V txs height tip now hf (store_db (io, t)) None = Some (Ok txs')"
  defines "images \<equiv> input_images (concat (map (\<lambda>tx. inputs (prefix (tv_tx tx))) txs))"
    and "known \<equiv> filter (\<lambda>h. block_exists h t) (remdups (List.map_filter (\<lambda>tx. verified_at_block_hash (tv_state tx)) txs))"
  shows "distinct images \<and> (\<forall>ki \<in> set images. ki \<notin> fst ` set (key_images t)) \<and>
    (\<exists>needed m c. list_all2 (\<lambda>tx n. verification_needed_of known hf height now tx = Ok n) txs needed \<and>
       list_all (decoys_ok t hf (input_amounts (map fst (filter (\<lambda>x. snd x = V1DecoyCheck) (zip txs needed)))))
         (map fst (filter (\<lambda>x. snd x = V1DecoyCheck) (zip txs needed))) \<and>
       wanted_ring_members (map fst (filter (\<lambda>x. needs_check (snd x)) (zip txs needed))) [] = Ok m \<and>
       read_outputs io m False t = Ok c \<and> list_all2 (checked_as V c height tip now hf) (zip txs needed) txs')"
proof -
  let ?db = "store_db (io, t)"
  obtain hashes needed any_v1 where steps: "check_kis_unique txs ?db = Some (Ok ())" "hashes_referenced_in_main_chain txs ?db = Some (Ok hashes)"
    "verification_needed txs hashes hf height now = Ok (needed, any_v1)"
    "(if any_v1 then verify_transactions_decoy_info (map fst (filter (\<lambda>x. snd x = V1DecoyCheck) (zip txs needed))) hf ?db None else cok ()) = Some (Ok ())"
    "verify_transactions V txs needed height tip now hf ?db None = Some (Ok txs')"
    using assms(1) by (auto simp: full_verify_def cbind_eq_Ok no_panic_eq simp del: store_db.simps)
  have hashes: "hashes = known"
    using steps(2) by (auto simp: hashes_referenced_in_main_chain_def Let_def cok_eq ask_Ok map_request_def filter_unknown_hashes_def known_def
        split: if_splits)
  have needed: "list_all2 (\<lambda>tx n. verification_needed_of known hf height now tx = Ok n) txs needed" "any_v1 \<longleftrightarrow> V1DecoyCheck \<in> set needed"
    using steps(3) by (auto simp: verification_needed_def and_then_eq_Inr collect_results_Ok hashes)
  have "list_all (decoys_ok t hf (input_amounts (map fst (filter (\<lambda>x. snd x = V1DecoyCheck) (zip txs needed)))))
      (map fst (filter (\<lambda>x. snd x = V1DecoyCheck) (zip txs needed)))"
  proof (cases any_v1)
    case True
    then show ?thesis
      using steps(4) by (intro decoy_info_sound) simp
  next
    case False
    then have "filter (\<lambda>x. snd x = V1DecoyCheck) (zip txs needed) = []"
      using needed(2) by (auto simp: filter_empty_conv dest: set_zip_rightD)
    then show ?thesis
      by simp
  qed
  moreover obtain m c where "wanted_ring_members (map fst (filter (\<lambda>x. needs_check (snd x)) (zip txs needed))) [] = Ok m"
      "?db (Outputs m False) = Some (Ok (ROutputs c))" "list_all2 (checked_as V c height tip now hf) (zip txs needed) txs'"
    using verify_transactions_sound [OF steps(5)] by auto
  moreover have "read_outputs io m False t = Ok c"
    using calculation(3) by (auto simp: map_request_def and_then_eq_Inr)
  ultimately show ?thesis
    using check_kis_unique_sound [OF steps(1)] needed(1) unfolding images_def by blast
qed

subsection \<open>Recorded states\<close>

text \<open>
  A transaction passes the semantic checks of a fork when \<open>semantic_check\<close> accepts it and the range-proof statements it queues for the
  batch verifier hold. A recorded state is honest when the transaction passed the semantic checks of the fork it names.
\<close>

definition passes_semantic_checks :: "'p verifier \<Rightarrow> hard_fork \<Rightarrow> tx_verification_data \<Rightarrow> bool" where
  "passes_semantic_checks V hf tx \<longleftrightarrow>
     semantic_check V hf tx = Ok () \<and> list_all (\<lambda>(b, cs). statement_valid V b cs) (queued_statements (tv_tx tx))"

fun state_fork :: "cached_verification_state \<Rightarrow> hard_fork option" where
  "state_fork NotVerified = None"
| "state_fork (OnlySemantic hf) = Some hf"
| "state_fork (ValidAtHashAndHF _ hf) = Some hf"
| "state_fork (ValidAtHashAndHFWithTimeBasedLock _ hf _) = Some hf"

definition honest :: "'p verifier \<Rightarrow> tx_verification_data \<Rightarrow> bool" where
  "honest V tx \<longleftrightarrow> (case state_fork (tv_state tx) of None \<Rightarrow> True | Some hf \<Rightarrow> passes_semantic_checks V hf tx)"

definition semantically_valid :: "'p verifier \<Rightarrow> hard_fork \<Rightarrow> tx_verification_data \<Rightarrow> bool" where
  "semantically_valid V hf tx \<longleftrightarrow> state_fork (tv_state tx) = Some hf \<and> passes_semantic_checks V hf tx"

lemma semantic_check_state [simp]: "semantic_check V hf (tx\<lparr>tv_state := st\<rparr>) = semantic_check V hf tx"
  by (simp add: semantic_check_def)

lemma passes_state [simp]: "passes_semantic_checks V hf (tx\<lparr>tv_state := st\<rparr>) = passes_semantic_checks V hf tx"
  by (simp add: passes_semantic_checks_def)

lemma new_verification_state_fork [simp]: "state_fork (new_verification_state tip hf ring) = Some hf"
  by (simp add: new_verification_state_def split: option.split)

lemma needed_fork:
  assumes "verification_needed_of known hf height now tx = Ok n" "n \<noteq> SemanticAndContextual"
  shows "state_fork (tv_state tx) = Some hf"
  using assms by (auto simp: verification_needed_of_def Let_def split: cached_verification_state.splits if_splits)

lemma checked_as_valid:
  assumes "checked_as V c height tip now hf (tx, n) tx'" "verification_needed_of known hf height now tx = Ok n" "honest V tx"
  shows "semantically_valid V hf tx' \<and> verified_tx_of tx' = verified_tx_of tx"
proof (cases "n = SemanticAndContextual")
  case True
  then show ?thesis
    using assms(1) by (auto simp: checked_as_def needs_check_def semantically_valid_def passes_semantic_checks_def verified_tx_of_def)
next
  case False
  then have "state_fork (tv_state tx) = Some hf" "passes_semantic_checks V hf tx"
    using needed_fork [OF assms(2)] assms(3) by (simp_all add: honest_def)
  then show ?thesis
    using assms(1) by (auto simp: checked_as_def semantically_valid_def verified_tx_of_def split: if_splits)
qed

lemma full_verify_honest:
  assumes "full_verify V txs height tip now hf (store_db (io, t)) None = Some (Ok txs')" "list_all (honest V) txs"
  shows "list_all (semantically_valid V hf) txs' \<and> map verified_tx_of txs' = map verified_tx_of txs"
proof -
  obtain known needed c where "list_all2 (\<lambda>tx n. verification_needed_of known hf height now tx = Ok n) txs needed"
      "list_all2 (checked_as V c height tip now hf) (zip txs needed) txs'"
    using full_verify_ok [OF assms(1)] by blast
  then have "length txs = length needed" "length txs' = length txs"
      "\<forall>i < length txs. semantically_valid V hf (txs' ! i) \<and> verified_tx_of (txs' ! i) = verified_tx_of (txs ! i)"
    using assms(2) checked_as_valid by (fastforce simp: list_all2_conv_all_nth list_all_length)+
  then show ?thesis
    by (simp add: list_all_length list_eq_iff_nth_eq)
qed

text \<open>
  A transaction whose recorded state names the current fork and a block that the chain still has is taken as valid in context. Every other
  one is checked against the outputs read from the tables.
\<close>

definition known_valid :: "tables \<Rightarrow> hard_fork \<Rightarrow> tx_verification_data \<Rightarrow> bool" where
  "known_valid t hf tx \<longleftrightarrow>
     state_fork (tv_state tx) = Some hf \<and> (case verified_at_block_hash (tv_state tx) of None \<Rightarrow> False | Some h \<Rightarrow> block_exists h t)"

lemma needed_known:
  assumes "verification_needed_of known hf height now tx = Ok n" "\<not> needs_check n" "set known \<subseteq> {h. block_exists h t}"
  shows "known_valid t hf tx"
  using assms
  by (auto simp: verification_needed_of_def needs_check_def known_valid_def Let_def split: cached_verification_state.splits if_splits)

lemma full_verify_contextual:
  assumes "full_verify V txs height tip now hf (store_db (io, t)) None = Some (Ok txs')"
  shows "\<exists>m c. read_outputs io m False t = Ok c \<and>
    (\<forall>tx \<in> set txs. known_valid t hf tx \<or>
       (\<exists>ring. ring_member_info hf c tx = Ok ring \<and> check_transaction_contextual (rules V) (tv_tx tx) ring height now hf = Ok ()))"
proof -
  define known where "known = filter (\<lambda>h. block_exists h t) (remdups (List.map_filter (\<lambda>tx. verified_at_block_hash (tv_state tx)) txs))"
  obtain needed m c where *: "list_all2 (\<lambda>tx n. verification_needed_of known hf height now tx = Ok n) txs needed"
      "read_outputs io m False t = Ok c" "list_all2 (checked_as V c height tip now hf) (zip txs needed) txs'"
    using full_verify_ok [OF assms] unfolding known_def by blast
  have "known_valid t hf tx \<or> (\<exists>ring. ring_member_info hf c tx = Ok ring \<and> check_transaction_contextual (rules V) (tv_tx tx) ring height now hf = Ok ())"
    if tx: "tx \<in> set txs" for tx
  proof -
    obtain i where i: "i < length txs" "tx = txs ! i"
      using tx by (auto simp: in_set_conv_nth)
    then have "verification_needed_of known hf height now tx = Ok (needed ! i)" "checked_as V c height tip now hf (tx, needed ! i) (txs' ! i)"
      using *(1,3) by (auto simp: list_all2_conv_all_nth)
    then show ?thesis
      using needed_known [of known hf height now tx "needed ! i" t] by (auto simp: checked_as_def known_def split: if_splits)
  qed
  then show ?thesis
    using *(2) by blast
qed

subsection \<open>Verified blocks\<close>

lemma verified_tx_of_sel [simp]:
  "vt_fee \<circ> verified_tx_of = tv_fee" "vt_weight \<circ> verified_tx_of = tv_weight" "vt_hash \<circ> verified_tx_of = tv_hash"
  "vt_tx (verified_tx_of tx) = tv_tx tx" "vt_hash (verified_tx_of tx) = tv_hash tx"
  by (auto simp: verified_tx_of_def)

lemma verify_prepped_ok:
  assumes "verify_prepped_main_chain_block V now ctx prepped txs db None = Some (Ok (b, c))"
  obtains txs' where "verify_block_txs V now ctx prepped txs db None = Some (Ok txs')"
    "check_block_pow (pb_pow_hash prepped) (next_difficulty (bc_context_to_verify_block ctx)) = Ok ()"
    "check_block (rules V) now (vb_block b) (sum_u64 (map vt_fee (vb_txs b))) (vb_weight b) (length (pb_blob prepped))
       (bc_context_to_verify_block ctx) = Ok (from_vote (hardfork_signal (header (vb_block b))), vb_generated_coins b)"
    "vb_txs b = map verified_tx_of txs'" "vb_block b = pb_block prepped" "vb_hash b = pb_hash prepped"
    "vb_block_blob b = pb_blob prepped" "vb_pow_hash b = pb_pow_hash prepped"
    "vb_weight b = wadd 64 (pb_miner_tx_weight prepped) (sum_u64 (map vt_weight (vb_txs b)))"
    "vb_height b = chain_height (bc_context_to_verify_block ctx)"
    "vb_long_term_weight b = next_block_long_term_weight ctx (vb_weight b)"
    "vb_cumulative_difficulty b = wadd 128 (bc_cumulative_difficulty ctx) (next_difficulty (bc_context_to_verify_block ctx))"
proof -
  obtain txs' vote where *: "verify_block_txs V now ctx prepped txs db None = Some (Ok txs')"
    "check_block (rules V) now (vb_block b) (sum_u64 (map vt_fee (vb_txs b))) (vb_weight b) (length (pb_blob prepped))
       (bc_context_to_verify_block ctx) = Ok (vote, vb_generated_coins b)"
    "vb_txs b = map verified_tx_of txs'"
    using assms by (auto simp: verify_prepped_main_chain_block_def Let_def cbind_eq_Ok cok_eq)
  show thesis
    using assms * check_block_Ok(2) [OF *(2)]
    by (intro that [of txs']) (auto simp: verify_prepped_main_chain_block_def Let_def cbind_eq_Ok cok_eq no_panic_eq)
qed

lemma zip_map_eq: "length hs = length xs \<Longrightarrow> (\<forall>(h, x) \<in> set (zip hs xs). h = f x) \<Longrightarrow> hs = map f xs"
  by (simp add: list_eq_iff_nth_eq set_zip split_beta) blast

lemma verify_block_txs_ok:
  assumes "verify_block_txs V now ctx prepped txs (store_db (io, t)) None = Some (Ok txs')" "list_all (honest V) txs"
  defines "images \<equiv> input_images (concat (map (\<lambda>tx. inputs (prefix (tv_tx tx))) txs'))"
  shows "map tv_hash txs' = transactions (pb_block prepped)" "map verified_tx_of txs' = map verified_tx_of txs"
    "list_all (semantically_valid V (current_hf (bc_context_to_verify_block ctx))) txs'"
    "distinct images" "\<forall>ki \<in> set images. ki \<notin> fst ` set (key_images t)"
proof -
  let ?v = "bc_context_to_verify_block ctx"
  consider "txs' = []" "txs = []" "transactions (pb_block prepped) = []"
    | time where "transactions (pb_block prepped) = map tv_hash txs"
      "full_verify V txs (chain_height ?v) (top_hash ?v) time (current_hf ?v) (store_db (io, t)) None = Some (Ok txs')"
    using assms(1) zip_map_eq [of "transactions (pb_block prepped)" txs tv_hash]
    by (fastforce simp: verify_block_txs_def Let_def cbind_eq_Ok cok_eq list_ex_iff simp del: store_db.simps split: if_splits)
  then have "map tv_hash txs' = transactions (pb_block prepped) \<and> map verified_tx_of txs' = map verified_tx_of txs \<and>
      list_all (semantically_valid V (current_hf ?v)) txs' \<and> distinct images \<and> (\<forall>ki \<in> set images. ki \<notin> fst ` set (key_images t))"
  proof cases
    case (2 time)
    have same: "map verified_tx_of txs' = map verified_tx_of txs" "list_all (semantically_valid V (current_hf ?v)) txs'"
      using full_verify_honest [OF 2(2) assms(2)] by simp_all
    have "map (vt_hash \<circ> verified_tx_of) txs' = map (vt_hash \<circ> verified_tx_of) txs"
        "map (vt_tx \<circ> verified_tx_of) txs' = map (vt_tx \<circ> verified_tx_of) txs"
      unfolding map_map [symmetric] same(1) by simp_all
    then have eqs: "map tv_hash txs' = map tv_hash txs" "map tv_tx txs' = map tv_tx txs"
      by (simp_all add: comp_def)
    have "input_images (concat (map (\<lambda>tx. inputs (prefix (tv_tx tx))) xs)) = input_images (concat (map (\<lambda>tx. inputs (prefix tx)) (map tv_tx xs)))" for xs
      by (simp add: comp_def)
    from this [of txs'] this [of txs] have "images = input_images (concat (map (\<lambda>tx. inputs (prefix (tv_tx tx))) txs))"
      unfolding images_def eqs(2) by (rule trans [OF _ sym])
    then show ?thesis
      using full_verify_ok [OF 2(2)] same 2(1) eqs(1) by simp
  qed (simp add: images_def)
  then show "map tv_hash txs' = transactions (pb_block prepped)" "map verified_tx_of txs' = map verified_tx_of txs"
    "list_all (semantically_valid V (current_hf ?v)) txs'" "distinct images" "\<forall>ki \<in> set images. ki \<notin> fst ` set (key_images t)"
    by simp_all
qed

lemma semantically_valid_inputs:
  assumes "semantically_valid V hf tx"
  shows "\<forall>i \<in> set (inputs (prefix (tv_tx tx))). is_to_key i"
proof -
  have "check_transaction_semantic (rules V) (tv_tx tx) (length (tv_blob tx)) (tv_weight tx) (tv_hash tx) hf = Ok (tv_fee tx)"
    using assms by (auto simp: semantically_valid_def passes_semantic_checks_def semantic_check_def and_then_eq_Inr assert_eq_Inr)
  then show ?thesis
    by (rule check_transaction_semantic_Ok) (simp add: check_inputs_semantics_Ok)
qed

lemma foldl_wadd: "a < 2 ^ w \<Longrightarrow> foldl (wadd w) a xs = (a + sum_list xs) mod 2 ^ w"
  by (induction xs arbitrary: a) (simp_all add: wadd_def mod_add_left_eq add.assoc)

lemma wsub_wadd:
  assumes "a < 2 ^ w" "b < 2 ^ w"
  shows "wsub w (wadd w a b) b = a"
proof (cases "a + b < 2 ^ w")
  case False
  then have "(a + b) mod 2 ^ w = a + b - 2 ^ w"
    using assms by (simp add: mod_if)
  then show ?thesis
    using assms False by (simp add: wsub_def wadd_def)
qed (use assms in \<open>simp add: wsub_def wadd_def\<close>)

lemma sum_u64_eq: "sum_u64 xs = sum_list xs mod 2 ^ 64"
  by (simp add: sum_u64_def foldl_wadd del: power_numeral)

lemma calculate_block_reward_64: "calculate_block_reward b m c hf = Some r \<Longrightarrow> r < 2 ^ 64"
  using calculate_base_reward_bounds(2) [of c hf] by (auto simp: calculate_block_reward_def Let_def split: if_splits)

lemma check_block_coins:
  assumes "check_block X now blk fees w len v = Ok (vote, coins)" "fees < 2 ^ 64"
  shows "coins = wsub 64 (output_total (outputs (prefix (miner_transaction blk)))) fees"
    "output_total (outputs (prefix (miner_transaction blk))) < 2 ^ 64" "inputs (prefix (miner_transaction blk)) = [Gen (chain_height v)]"
proof -
  let ?total = "output_total (outputs (prefix (miner_transaction blk)))"
  obtain reward where r: "reward < 2 ^ 64" "?total < 2 ^ 64" "inputs (prefix (miner_transaction blk)) = [Gen (chain_height v)]"
      "check_total_output_amt ?total reward fees (current_hf v) = Ok coins"
    using check_block_Ok(8) [OF assms(1)] by (elim check_miner_tx_Ok) (auto dest: calculate_block_reward_64)
  show "?total < 2 ^ 64" "inputs (prefix (miner_transaction blk)) = [Gen (chain_height v)]"
    by (fact r)+
  have "wsub 64 (wadd 64 reward fees) fees = reward"
    using r(1) assms(2) by (rule wsub_wadd)
  then show "coins = wsub 64 ?total fees"
    using r(4) by (auto simp: check_total_output_amt_def split: if_splits)
qed

end
