(* ===== verification/Fast_Sync_Laws.thy ===== *)
theory Fast_Sync_Laws
  imports Fast_Sync Verify_Laws
begin

text \<open>
  What fast sync guarantees. \<open>validate_entries\<close> cuts the given ids where the last batch it can check ends, keeps which peer sent which id, and
  accepts exactly when the hashes of all batches agree. Hashes made from a chain accept that chain, and ids they accept are those of the
  chain unless two different inputs have the same hash. The information computed for a block is what full verification would have stored.
\<close>

subsection \<open>Entries\<close>

abbreviation ids_of :: "'p chain_entry list \<Rightarrow> bytes list" where
  "ids_of es \<equiv> concat (map ce_ids es)"

definition attributed :: "'p chain_entry list \<Rightarrow> ('p \<times> bytes) list" where
  "attributed es = concat (map (\<lambda>e. map (Pair (ce_peer e)) (ce_ids e)) es)"

lemma attributed_simps [simp]:
  "attributed [] = []" "attributed (e # es) = map (Pair (ce_peer e)) (ce_ids e) @ attributed es"
  "attributed (es @ es') = attributed es @ attributed es'"
  by (simp_all add: attributed_def)

lemma map_snd_attributed: "map snd (attributed es) = ids_of es"
  by (induction es) (simp_all add: comp_def)

lemma length_attributed: "length (attributed es) = length (ids_of es)" "sum_list (map (\<lambda>e. length (ce_ids e)) es) = length (ids_of es)"
  by (induction es) simp_all

lemma take_unknown_spec:
  assumes "take_unknown d es unknown = (kept, unknown')" "d \<le> length (attributed es)"
  shows "\<exists>u. unknown' = u @ unknown \<and> attributed (rev kept) = take (length (attributed es) - d) (attributed (rev es)) \<and>
    attributed u = drop (length (attributed es) - d) (attributed (rev es))"
  using assms
proof (induction es arbitrary: d unknown)
  case (Cons e es)
  let ?n = "length (attributed es)" and ?m = "length (ce_ids e)"
  have len: "length (attributed (rev es)) = ?n"
    by (simp add: length_attributed length_concat rev_map [symmetric] sum_list_rev)
  consider "d = 0" | "0 < d" "d \<le> ?m" | "?m < d"
    by linarith
  then show ?case
  proof cases
    case 1
    then show ?thesis
      using Cons.prems len by auto
  next
    case 2
    then show ?thesis
      using Cons.prems(1) len by (intro exI [of _ "[e\<lparr>ce_ids := drop (?m - d) (ce_ids e)\<rparr>]"]) (auto simp: Let_def take_map drop_map)
  next
    case 3
    then have "take_unknown (d - ?m) es (e # unknown) = (kept, unknown')" "d - ?m \<le> ?n"
      using Cons.prems by (auto simp: Let_def split: if_splits)
    then obtain u where "unknown' = u @ e # unknown" "attributed (rev kept) = take (?n - (d - ?m)) (attributed (rev es))"
        "attributed u = drop (?n - (d - ?m)) (attributed (rev es))"
      using Cons.IH by blast
    moreover have "?n - (d - ?m) = ?m + ?n - d" "?m + ?n - d \<le> ?n"
      using 3 Cons.prems(2) by auto
    ultimately show ?thesis
      using len by (intro exI [of _ "u @ [e]"]) simp
  qed
qed auto

subsection \<open>Batches of hashes\<close>

abbreviation L :: nat where
  "L \<equiv> FAST_SYNC_BATCH_LEN"

lemma L_pos [simp]: "0 < L" "L \<noteq> 0"
  by (simp_all add: FAST_SYNC_BATCH_LEN_def)

lemma check_hashes_batch:
  assumes "xs \<noteq> []" "i mod L + length xs = L"
  shows "check_hashes B H s i acc l (xs @ ys) =
    (let index = (s + i + length xs - 1) div L in
     if length H \<le> index then Err Panic
     else if B (acc @ concat xs) \<noteq> H ! index then Err (Fault HashesDoNotMatch)
     else check_hashes B H s (i + length xs) [] (i + length xs) ys)"
  using assms
proof (induction xs arbitrary: i acc l)
  case (Cons x xs)
  have step: "(i + 1) mod L = 0 \<longleftrightarrow> xs = []" "xs \<noteq> [] \<Longrightarrow> (i + 1) mod L = i mod L + 1"
    using Cons.prems(2) by (cases xs; simp add: mod_Suc)+
  show ?case
  proof (cases "xs = []")
    case True
    then show ?thesis
      using step(1) by (simp add: Let_def get_hash_index_for_height_def)
  next
    case False
    then show ?thesis
      using Cons.IH [of "i + 1" "acc @ x" "i + 1"] Cons.prems(2) step by (simp add: Let_def)
  qed
qed simp

definition batches_match :: "(bytes \<Rightarrow> bytes) \<Rightarrow> bytes list \<Rightarrow> nat \<Rightarrow> bytes list \<Rightarrow> nat \<Rightarrow> bool" where
  "batches_match B H a hs k \<longleftrightarrow> (\<forall>j < k. hash_of_hashes B (take L (drop (L * j) hs)) = H ! (a + j))"

lemma check_hashes_batches:
  assumes "length hs = L * k" "a + m + k \<le> length H"
  shows "check_hashes B H (L * a) (L * m) [] l hs =
    (if batches_match B H (a + m) hs k then Ok (if k = 0 then l else L * (m + k)) else Err (Fault HashesDoNotMatch))"
  using assms
proof (induction k arbitrary: m l hs)
  case (Suc k)
  have hs: "hs = take L hs @ drop L hs" "length (take L hs) = L" "take L hs \<noteq> []" "length (drop L hs) = L * k"
    using Suc.prems(1) by auto
  have index: "(L * a + L * m + L - 1) div L = a + m"
  proof -
    have "(a + m) * L = L * a + L * m"
      by (simp add: algebra_simps)
    then have "L * a + L * m + L - 1 = (L - 1) + (a + m) * L"
      using L_pos(1) by linarith
    then show ?thesis
      by (simp only: div_mult_self1 [OF L_pos(2)]) simp
  qed
  have "check_hashes B H (L * a) (L * m) [] l hs = check_hashes B H (L * a) (L * m) [] l (take L hs @ drop L hs)"
    by simp
  also have "\<dots> = (if length H \<le> a + m then Err Panic
       else if B (concat (take L hs)) \<noteq> H ! (a + m) then Err (Fault HashesDoNotMatch)
       else check_hashes B H (L * a) (L * Suc m) [] (L * Suc m) (drop L hs))"
    by (subst check_hashes_batch) (use hs index in \<open>simp_all add: Let_def add.commute\<close>)
  finally have *: "check_hashes B H (L * a) (L * m) [] l hs = \<dots>" .
  have "batches_match B H (a + m) hs (Suc k) \<longleftrightarrow> B (concat (take L hs)) = H ! (a + m) \<and> batches_match B H (a + Suc m) (drop L hs) k"
    unfolding batches_match_def by (simp add: All_less_Suc2 hash_of_hashes_def add.commute)
  then show ?case
    using * Suc.IH [of "drop L hs" "Suc m" "L * Suc m"] Suc.prems(2) hs(4) by simp
qed (simp add: batches_match_def)

subsection \<open>Validation\<close>

definition checked_batches :: "bytes list \<Rightarrow> nat \<Rightarrow> bytes list \<Rightarrow> nat" where
  "checked_batches H start ids = min ((start + length ids) div L) (length H) - start div L"

lemma validate_entries_eq:
  fixes entries :: "'p chain_entry list"
  assumes start: "start < fast_sync_stop_height H"
    and db: "db (BlockHashInRange (start div L * L) start Main) = Some (Ok (RBlockHashInRange starting))" "length starting = start mod L"
  defines "ids \<equiv> starting @ ids_of entries" and "k \<equiv> checked_batches H start (ids_of entries)"
  shows "(length ids < L \<longrightarrow> validate_entries B H entries start db = Some (Ok ([], entries))) \<and>
    (L \<le> length ids \<longrightarrow>
      0 < k \<and>
      (batches_match B H (start div L) ids k \<longrightarrow>
        (\<exists>valid unknown. validate_entries B H entries start db = Some (Ok (valid, unknown)) \<and>
           attributed valid @ attributed unknown = attributed entries \<and> starting @ ids_of valid = take (L * k) ids)) \<and>
      (\<not> batches_match B H (start div L) ids k \<longrightarrow> validate_entries B H entries start db = Some (Err (Fault HashesDoNotMatch))))"
proof -
  let ?a = "start div L" and ?last = "length (ids_of entries) + start"
  define stop where "stop = min (?last div L * L) (length H * L)"
  have a: "?a < length H"
    using start by (simp add: fast_sync_stop_height_def less_mult_imp_div_less)
  have len: "length ids + ?a * L = ?last"
    using db(2) by (simp add: ids_def mod_div_mult_eq)
  show ?thesis
  proof (cases "length ids < L")
    case True
    then show ?thesis
      using start db by (simp add: validate_entries_def Let_def length_attributed(2) cbind_def cunwrap_def unwrap_def as_block_hashes_def
          cok_def ids_def add.commute)
  next
    case False
    have "?a + 1 \<le> ?last div L"
      using False len by (simp add: less_eq_div_iff_mult_less_eq algebra_simps)
    then have k: "0 < k" "?a + k = min (?last div L) (length H)"
      using a by (auto simp: k_def checked_batches_def add.commute)
    have stop: "stop = (?a + k) * L"
      unfolding stop_def k(2) by (simp add: nat_mult_min_left)
    have start_eq: "?a * L + start mod L = start" "(?a + k) * L = ?a * L + L * k"
      by (simp_all add: algebra_simps)
    have "L \<le> L * k"
      using k(1) by simp
    then have le: "stop \<le> ?last" "start \<le> stop" "L * k = start mod L + (stop - start)"
      using start_eq mod_less_divisor [OF L_pos(1), of start] stop div_times_less_eq_dividend [of ?last L]
      by (simp add: stop_def, linarith+)
    obtain kept unknown where split: "take_unknown (?last - stop) (rev entries) [] = (kept, unknown)"
      by fastforce
    have n: "length (attributed (rev entries)) = length (ids_of entries)"
      by (simp add: length_attributed length_concat rev_map [symmetric] sum_list_rev)
    have parts: "attributed (rev kept) = take (stop - start) (attributed entries)" "attributed unknown = drop (stop - start) (attributed entries)"
    proof -
      have "length (ids_of entries) - (?last - stop) = stop - start"
        using le by linarith
      then show "attributed (rev kept) = take (stop - start) (attributed entries)" "attributed unknown = drop (stop - start) (attributed entries)"
        using take_unknown_spec [OF split] le n by auto
    qed
    have "ids_of (rev kept) = take (stop - start) (ids_of entries)"
      unfolding map_snd_attributed [symmetric] parts(1) take_map ..
    moreover have "take (L * k) ids = starting @ take (L * k - length starting) (ids_of entries)" "L * k - length starting = stop - start"
      unfolding ids_def db(2) le(3) by (simp_all add: db(2))
    ultimately have ids: "starting @ ids_of (rev kept) = take (L * k) ids"
      by simp
    have "L * k \<le> length ids"
      using len le(1) stop start_eq by linarith
    then have ids_len: "length (take (L * k) ids) = L * k"
      by simp
    have "take L (drop (L * j) (take (L * k) ids)) = take L (drop (L * j) ids)" if "j < k" for j
    proof -
      have "L * Suc j \<le> L * k"
        using that by (intro mult_le_mono) simp_all
      then show ?thesis
        by (simp add: drop_take)
    qed
    then have match: "batches_match B H ?a (take (L * k) ids) k \<longleftrightarrow> batches_match B H ?a ids k"
      by (simp add: batches_match_def)
    have "check_hashes B H (?a * L) 0 [] 1 (take (L * k) ids) =
        (if batches_match B H ?a ids k then Ok (L * k) else Err (Fault HashesDoNotMatch))"
      using check_hashes_batches [OF ids_len, of ?a 0 H B 1] k match by (simp add: mult.commute)
    moreover have "validate_entries B H entries start db =
        cbind (Some (check_hashes B H (?a * L) 0 [] 1 (take (L * k) ids))) (\<lambda>last_i.
        cbind (Some (assert (last_i mod L = 0))) (\<lambda>_. cok (rev kept, unknown)))"
      using start db False split unfolding ids [symmetric]
      by (simp add: validate_entries_def Let_def length_attributed(2) cbind_def cunwrap_def unwrap_def as_block_hashes_def
          fast_sync_stop_height_def stop_def ids_def add.commute)
    ultimately show ?thesis
      using False k(1) parts ids by (simp add: cbind_def cok_def assert_def)
  qed
qed

subsection \<open>Hashes made from a chain\<close>

text \<open>A database that serves the block ids of a chain.\<close>

definition serves :: "bytes list \<Rightarrow> database \<Rightarrow> bool" where
  "serves chain db \<longleftrightarrow>
     (\<forall>start stop. start \<le> stop \<and> stop \<le> length chain \<longrightarrow>
        db (BlockHashInRange start stop Main) = Some (Ok (RBlockHashInRange (take (stop - start) (drop start chain))))) \<and>
     (\<forall>start stop. start < stop \<and> length chain < stop \<longrightarrow> (\<exists>e. db (BlockHashInRange start stop Main) = Some (Err (Fault e))))"

definition hashes_of_chain :: "(bytes \<Rightarrow> bytes) \<Rightarrow> bytes list \<Rightarrow> nat \<Rightarrow> bytes list" where
  "hashes_of_chain B chain n = map (\<lambda>j. hash_of_hashes B (take L (drop (L * j) chain))) [0..<n]"

lemma create_hashes_from:
  assumes "serves chain db" "height = L * m" "acc = hashes_of_chain B chain m" "height \<le> length chain"
  shows "\<exists>n. create_hashes B db target height acc = cok (hashes_of_chain B chain n) \<and> L * n \<le> length chain \<and> m \<le> n \<and>
    (length chain < L * Suc n \<or> target \<le> L * Suc n)"
  using assms
proof (induction B db target height acc arbitrary: m rule: create_hashes.induct)
  case (1 B db target height acc)
  have here: "?case" if "length chain < L * Suc m \<or> target \<le> L * Suc m" "create_hashes B db target height acc = cok acc"
    by (intro exI [of _ m] conjI) (use that 1(3-5) in simp_all)
  show ?case
  proof (cases "height + L < target")
    case False
    then have "create_hashes B db target height acc = cok acc"
      by (subst create_hashes.simps) (rule if_not_P)
    moreover have "target \<le> L * Suc m"
      using False 1(3) by simp
    ultimately show ?thesis
      using here by blast
  next
    case True
    show ?thesis
    proof (cases "height + L \<le> length chain")
      case False
      then have "\<exists>e. db (BlockHashInRange height (height + L) Main) = Some (Err (Fault e))"
        using 1(2) unfolding serves_def by simp
      then obtain e where "read_batch db height = Some (Err (Fault e))"
        unfolding read_batch_def cbind_def by auto
      then have "create_hashes B db target height acc = cok acc"
        using True by (subst create_hashes.simps) simp
      moreover have "length chain < L * Suc m"
        using False 1(3) by simp
      ultimately show ?thesis
        using here by blast
    next
      case chain: True
      then have read: "read_batch db height = Some (Ok (take L (drop height chain)))"
        using 1(2) by (simp add: serves_def read_batch_def cbind_def cunwrap_def unwrap_def as_block_hashes_def)
      have next_acc: "acc @ [hash_of_hashes B (take L (drop height chain))] = hashes_of_chain B chain (Suc m)"
        using 1(3,4) by (simp add: hashes_of_chain_def)
      have "\<exists>n. create_hashes B db target (height + L) (acc @ [hash_of_hashes B (take L (drop height chain))]) =
            cok (hashes_of_chain B chain n) \<and> L * n \<le> length chain \<and> Suc m \<le> n \<and> (length chain < L * Suc n \<or> target \<le> L * Suc n)"
        using 1(2,3) next_acc chain by (intro 1(1) [OF True read refl]) simp_all
      then show ?thesis
        using True read Suc_leD by (subst create_hashes.simps) fastforce
    qed
  qed
qed

lemma hashes_of_chain_nth: "j < n \<Longrightarrow> hashes_of_chain B chain n ! j = hash_of_hashes B (take L (drop (L * j) chain))"
  by (simp add: hashes_of_chain_def)

lemma serves_prefix:
  assumes "serves (take start chain) db" "start \<le> length chain"
  shows "db (BlockHashInRange (start div L * L) start Main) = Some (Ok (RBlockHashInRange (take (start mod L) (drop (start div L * L) chain))))"
    "length (take (start mod L) (drop (start div L * L) chain)) = start mod L"
proof -
  have le: "start div L * L + start mod L = start" "start - start div L * L = start mod L" "start div L * L \<le> start"
    by (simp_all add: minus_div_mult_eq_mod)
  show "length (take (start mod L) (drop (start div L * L) chain)) = start mod L"
    using assms(2) le by simp
  have "take (start mod L) (drop (start div L * L) (take start chain)) = take (start mod L) (drop (start div L * L) chain)"
    unfolding drop_take le(2) by simp
  then show "db (BlockHashInRange (start div L * L) start Main) = Some (Ok (RBlockHashInRange (take (start mod L) (drop (start div L * L) chain))))"
    using assms le unfolding serves_def by simp
qed

lemma checked_batch_bound:
  assumes "j < checked_batches (hashes_of_chain B chain n) start ids"
  shows "start div L + j < n" "L * j + L \<le> start mod L + length ids"
proof -
  have less: "Suc (start div L + j) \<le> (start + length ids) div L" "start div L + j < n"
    using assms by (auto simp: checked_batches_def hashes_of_chain_def)
  show "start div L + j < n"
    by (fact less)
  have "Suc (start div L + j) * L \<le> (start + length ids) div L * L"
    using less(1) by (rule mult_le_mono1)
  moreover have "(start + length ids) div L * L \<le> start + length ids"
    by simp
  moreover have "start div L * L + start mod L = start" "Suc (start div L + j) * L = start div L * L + (L * j + L)"
    by (simp_all add: algebra_simps)
  ultimately show "L * j + L \<le> start mod L + length ids"
    by linarith
qed

lemma chain_batches_match:
  assumes "start < fast_sync_stop_height H" "H = hashes_of_chain B chain n" "start \<le> length chain"
    and "ids_of entries = take m (drop start chain)"
  shows "batches_match B H (start div L) (take (start mod L) (drop (start div L * L) chain) @ ids_of entries)
    (checked_batches H start (ids_of entries))"
proof -
  let ?a = "start div L" and ?k = "checked_batches H start (ids_of entries)"
  let ?ids = "take (start mod L) (drop (?a * L) chain) @ ids_of entries"
  have "drop start chain = drop (start mod L) (drop (?a * L) chain)"
    by simp
  then have ids: "?ids = take (start mod L + m) (drop (?a * L) chain)"
    unfolding assms(4) by (simp only: take_add)
  have "take L (drop (L * j) ?ids) = take L (drop (L * (?a + j)) chain)" "?a + j < n" if j: "j < ?k" for j
  proof -
    note bound = checked_batch_bound [OF j [unfolded assms(2)]]
    have "length (ids_of entries) \<le> m"
      by (simp add: assms(4))
    then have "L * j + L \<le> start mod L + m"
      using bound(2) by linarith
    then show "take L (drop (L * j) ?ids) = take L (drop (L * (?a + j)) chain)" "?a + j < n"
      unfolding ids using bound(1) by (simp_all add: drop_take algebra_simps)
  qed
  then show ?thesis
    unfolding batches_match_def assms(2) by (simp add: hashes_of_chain_nth)
qed

lemma checked_length:
  assumes "start < fast_sync_stop_height H" "0 < checked_batches H start ids"
  shows "L * checked_batches H start ids + start div L * L = min ((start + length ids) div L) (length H) * L"
proof -
  have "L * checked_batches H start ids + start div L * L = (checked_batches H start ids + start div L) * L"
    by (simp add: algebra_simps)
  also have "checked_batches H start ids + start div L = min ((start + length ids) div L) (length H)"
    using assms(2) by (simp add: checked_batches_def)
  finally show ?thesis .
qed

lemma validated_length:
  assumes start: "start < fast_sync_stop_height H" "start mod L = length starting"
    and k: "0 < checked_batches H start (ids_of entries)"
    and valid: "starting @ ids_of valid = take (L * checked_batches H start (ids_of entries)) (starting @ ids_of entries)"
      "attributed valid @ attributed unknown = attributed entries"
  shows "length (ids_of unknown) < L \<or> fast_sync_stop_height H \<le> start + length (ids_of valid)"
proof -
  let ?n = "length (ids_of entries)"
  note checked = checked_length [OF start(1) k]
  have total: "length (ids_of valid) + length (ids_of unknown) = ?n"
    using arg_cong [OF valid(2), of length] by (simp add: length_attributed)
  have start_eq: "start div L * L + start mod L = start" and le: "(start + ?n) div L * L \<le> start + ?n"
    by simp_all
  have "min ((start + ?n) div L) (length H) * L \<le> (start + ?n) div L * L"
    by (intro mult_le_mono1) simp
  then have "L * checked_batches H start (ids_of entries) \<le> length starting + ?n"
    using checked start_eq start(2) le by linarith
  then have "length starting + length (ids_of valid) = L * checked_batches H start (ids_of entries)"
    using arg_cong [OF valid(1), of length] by simp
  then have cut: "start + length (ids_of valid) = min ((start + ?n) div L) (length H) * L"
    using checked start_eq start(2) by linarith
  show ?thesis
  proof (cases "(start + ?n) div L \<le> length H")
    case True
    then have "start + length (ids_of valid) + (start + ?n) mod L = start + ?n"
      unfolding cut by simp
    then show ?thesis
      using total mod_less_divisor [OF L_pos(1), of "start + ?n"] by linarith
  qed (simp add: cut fast_sync_stop_height_def)
qed

lemma take_chunks:
  "(\<And>j. j < k \<Longrightarrow> take L (drop (L * j) xs) = take L (drop (L * j) ys)) \<Longrightarrow> take (L * k) xs = take (L * k) ys"
proof (induction k)
  case (Suc k)
  have "take (L * Suc k) zs = take (L * k) zs @ take L (drop (L * k) zs)" for zs :: "'a list"
    by (simp add: take_add [symmetric] add.commute)
  then show ?case
    using Suc by simp
qed simp

lemma created_hashes:
  assumes "serves chain db" "create_hashes B db target 0 [] = Some (Ok H)"
  obtains n where "H = hashes_of_chain B chain n" "L * n \<le> length chain"
  using create_hashes_from [OF assms(1), of 0 0 "[]" B target] assms(2) that by (auto simp: hashes_of_chain_def cok_def)

text \<open>Two batches of ids on which the hash collides.\<close>

definition collides :: "(bytes \<Rightarrow> bytes) \<Rightarrow> bytes list \<Rightarrow> bytes list \<Rightarrow> bool" where
  "collides B xs ys \<longleftrightarrow> concat xs \<noteq> concat ys \<and> B (concat xs) = B (concat ys)"

lemma hash_of_hashes_inj:
  assumes "hash_of_hashes B xs = hash_of_hashes B ys" "length xs = length ys" "\<forall>x \<in> set xs \<union> set ys. length x = 32"
    and "\<not> collides B xs ys"
  shows "xs = ys"
proof (rule concat_injective)
  show "concat xs = concat ys"
    using assms(1,4) by (auto simp: hash_of_hashes_def collides_def)
  show "\<forall>(x, y) \<in> set (zip xs ys). length x = length y"
    using assms(3) unfolding ball_Un by (auto, metis set_zip_leftD set_zip_rightD)
qed (fact assms(2))

subsection \<open>Blocks\<close>

lemma map_of_remove: "map_of (filter (\<lambda>p. fst p \<noteq> h) m) k = (if k = h then None else map_of m k)"
  by (induction m) auto

lemma map_of_map_insert: "map_of (map_insert k v m) k' = (if k' = k then Some v else map_of m k')"
  by (simp add: map_insert_def map_of_remove)

lemma map_of_collect_tx_map:
  assumes "distinct (map tv_hash txs)" "tx \<in> set txs"
  shows "map_of (collect_tx_map txs) (tv_hash tx) = Some tx"
proof -
  have "map_of (fold (\<lambda>tx. map_insert (tv_hash tx) tx) txs m) h =
      (case map_of (map (\<lambda>tx. (tv_hash tx, tx)) txs) h of Some tx \<Rightarrow> Some tx | None \<Rightarrow> map_of m h)"
    if "distinct (map tv_hash txs)" for txs :: "tx_verification_data list" and m h
    using that
  proof (induction txs arbitrary: m)
    case (Cons tx txs)
    have "map_of (map (\<lambda>tx. (tv_hash tx, tx)) txs) (tv_hash tx) = None"
      using Cons.prems by (force simp: map_of_eq_None_iff)
    then show ?case
      using Cons by (auto simp: map_of_map_insert split: option.split)
  qed simp
  moreover have "map_of (map (\<lambda>tx. (tv_hash tx, tx)) txs) (tv_hash tx) = Some tx"
    using assms by (intro map_of_is_SomeI) (auto simp: comp_def)
  ultimately show ?thesis
    using assms(1) by (simp add: collect_tx_map_def)
qed

lemma take_txs_all:
  assumes "\<And>tx. tx \<in> set txs \<Longrightarrow> map_of m (tv_hash tx) = Some tx" "distinct (map tv_hash txs)"
  shows "take_txs (map tv_hash txs) m = Some txs"
  using assms
proof (induction txs arbitrary: m)
  case (Cons tx txs)
  have "take_txs (map tv_hash txs) (filter (\<lambda>p. fst p \<noteq> tv_hash tx) m) = Some txs"
  proof (rule Cons.IH)
    fix tx' assume "tx' \<in> set txs"
    then have "tv_hash tx' \<noteq> tv_hash tx" "map_of m (tv_hash tx') = Some tx'"
      using Cons.prems(2) Cons.prems(1) [of tx'] by (simp_all, metis imageI)
    then show "map_of (filter (\<lambda>p. fst p \<noteq> tv_hash tx) m) (tv_hash tx') = Some tx'"
      by (simp add: map_of_remove)
  qed (use Cons.prems(2) in simp)
  then show ?case
    using Cons.prems by simp
qed simp

lemma take_txs_ordered:
  assumes "mset ordered = mset data" "map tv_hash ordered = hashes" "distinct hashes"
  shows "take_txs hashes (collect_tx_map data) = Some ordered"
proof -
  have "set ordered = set data" "distinct (map tv_hash data)"
    using assms(1) mset_eq_imp_distinct_iff [of "map tv_hash ordered" "map tv_hash data"] assms(2,3) by (auto dest: mset_eq_setD)
  then show ?thesis
    using assms(2,3) take_txs_all [of ordered "collect_tx_map data"] map_of_collect_tx_map [of data] by auto
qed

lemma prepared_block_fields:
  "prepared_block_new V blk vm = Ok prepped \<Longrightarrow>
     pb_block prepped = blk \<and> pb_blob prepped = block_serialize (vcodecs V) blk \<and> pb_hash prepped = block_hash_of V blk \<and>
     pb_miner_tx_weight prepped = tx_weight_of (vcodecs V) (miner_transaction blk)"
  by (cases "inputs (prefix (miner_transaction blk))"; cases "hd (inputs (prefix (miner_transaction blk)))";
      cases "tl (inputs (prefix (miner_transaction blk)))") (auto simp: prepared_block_new_def and_then_eq_Inr)

lemma new_data_honest:
  assumes "collect_results (new_tx_verification_data V) txs = Ok data"
  shows "list_all (honest V) data"
proof -
  have "new_tx_verification_data V tx = Ok d \<Longrightarrow> tv_state d = NotVerified" for tx d
    by (auto simp: new_tx_verification_data_def Let_def and_then_eq_Inr)
  then have "new_tx_verification_data V tx = Ok d \<Longrightarrow> honest V d" for tx d
    by (simp add: honest_def)
  then show ?thesis
    using assms by (auto simp: collect_results_Ok list_all2_conv_all_nth list_all_length)
qed

lemma fast_sync_agrees:
  assumes data: "collect_results (new_tx_verification_data V) txs = Ok data" "order_transactions blk data = Ok ordered"
    and prepped: "prepared_block_new V blk vm = Ok prepped"
    and verified: "verify_prepped_main_chain_block V now ctx prepped ordered (store_db (io, t)) None = Some (Ok (b, c))"
  shows "block_to_verified_block_information V blk txs ctx = Some (b\<lparr>vb_pow_hash := replicate 32 255\<rparr>)"
proof -
  let ?v = "bc_context_to_verify_block ctx" and ?fees = "sum_u64 (map vt_fee (vb_txs b))"
  have len: "length (transactions blk) = length data" "order_from 0 (transactions blk) data = Ok ordered"
    using data(2) by (auto simp: order_transactions_def split: if_splits)
  have ordered: "mset ordered = mset data" "map tv_hash ordered = transactions blk"
    using order_from_spec [of 0 "transactions blk" data ordered] len by simp_all
  obtain txs' where b: "verify_block_txs V now ctx prepped ordered (store_db (io, t)) None = Some (Ok txs')"
    "check_block (rules V) now (vb_block b) ?fees (vb_weight b) (length (pb_blob prepped)) ?v =
       Ok (from_vote (hardfork_signal (header (vb_block b))), vb_generated_coins b)"
    "vb_txs b = map verified_tx_of txs'" "vb_block b = pb_block prepped" "vb_hash b = pb_hash prepped" "vb_block_blob b = pb_blob prepped"
    "vb_weight b = wadd 64 (pb_miner_tx_weight prepped) (sum_u64 (map vt_weight (vb_txs b)))" "vb_height b = chain_height ?v"
    "vb_long_term_weight b = next_block_long_term_weight ctx (vb_weight b)"
    "vb_cumulative_difficulty b = wadd 128 (bc_cumulative_difficulty ctx) (next_difficulty ?v)"
    using verify_prepped_ok [OF verified] by metis
  note fields = prepared_block_fields [OF prepped]
  have "list_all (honest V) ordered"
    using new_data_honest [OF data(1)] mset_eq_setD [OF ordered(1)] by (simp add: list_all_iff)
  then have txs: "vb_txs b = map verified_tx_of ordered"
    using verify_block_txs_ok(2) [OF b(1)] b(3) by simp
  have taken: "take_txs (transactions blk) (collect_tx_map data) = Some ordered"
    using ordered check_block_Ok(7) [OF b(2)] b(4) fields by (intro take_txs_ordered) simp_all
  have "?fees < 2 ^ 64"
    unfolding sum_u64_eq by simp
  note coins = check_block_coins [OF b(2) this]
  show ?thesis
    using data(1) taken coins fields b(4-10) txs
    by (cases b) (simp add: block_to_verified_block_information_def Let_def sum_u64_eq [of "map _ (outputs _)"] output_total_def)
qed

subsection \<open>Properties\<close>

text \<open>
  C12: hashes made from a chain accept that chain. A node that has the first \<open>start\<close> blocks and is given ids of blocks that follow gets
  them back, attributed to the peers that sent them and split into a checked and an unchecked part; less than one batch stays
  unchecked unless the fast-sync height is reached, so a node that is given further ids makes progress.
\<close>

theorem created_hashes_accept_chain:
  fixes entries :: "'p chain_entry list"
  assumes "serves chain db" "create_hashes B db target 0 [] = Some (Ok H)"
    and "serves (take start chain) db'" "start \<le> length chain" "start < fast_sync_stop_height H"
    and "ids_of entries = take m (drop start chain)"
  shows "\<exists>valid unknown. validate_entries B H entries start db' = Some (Ok (valid, unknown)) \<and>
    attributed valid @ attributed unknown = attributed entries \<and>
    (length (ids_of unknown) < L \<or> fast_sync_stop_height H \<le> start + length (ids_of valid))"
proof -
  obtain n where H: "H = hashes_of_chain B chain n"
    by (rule created_hashes [OF assms(1,2)])
  note match = chain_batches_match [OF assms(5) H assms(4,6)]
  note spec = validate_entries_eq [where db = db', OF assms(5) serves_prefix [OF assms(3,4)], of entries B]
  show ?thesis
  proof (cases "length (take (start mod L) (drop (start div L * L) chain) @ ids_of entries) < L")
    case True
    then show ?thesis
      using spec by simp
  next
    case False
    then obtain valid unknown where v: "validate_entries B H entries start db' = Some (Ok (valid, unknown))"
        "attributed valid @ attributed unknown = attributed entries"
        "take (start mod L) (drop (start div L * L) chain) @ ids_of valid =
           take (L * checked_batches H start (ids_of entries)) (take (start mod L) (drop (start div L * L) chain) @ ids_of entries)"
        "0 < checked_batches H start (ids_of entries)"
      using spec match by (auto simp only: not_less simp_thms)
    then show ?thesis
      using validated_length [OF assms(5) serves_prefix(2) [OF assms(3,4), symmetric] v(4,3,2)] by blast
  qed
qed

text \<open>A chain, databases that serve it, and entries that continue it.\<close>

definition sample_chain :: "bytes list" where
  "sample_chain = replicate 600 (replicate 32 7)"

definition serving :: "bytes list \<Rightarrow> database" where
  "serving chain req =
     (case req of
        BlockHashInRange start stop Main \<Rightarrow>
          Some (if start < stop \<and> length chain < stop then Err (Fault KeyNotFound)
                else Ok (RBlockHashInRange (take (stop - start) (drop start chain))))
      | _ \<Rightarrow> None)"

definition sample_entries :: "nat chain_entry list" where
  "sample_entries = [\<lparr>ce_ids = take 550 (drop 3 sample_chain), ce_peer = 1\<rparr>]"

lemma serving_serves: "serves chain (serving chain)"
  by (simp add: serves_def serving_def)

lemma sample_created:
  "create_hashes id (serving sample_chain) 600 0 [] = Some (Ok [concat (take 512 sample_chain)])"
proof -
  have "read_batch (serving sample_chain) 0 = Some (Ok (take 512 sample_chain))"
    by (simp add: read_batch_def serving_def cbind_def cunwrap_def unwrap_def as_block_hashes_def FAST_SYNC_BATCH_LEN_def sample_chain_def)
  then show ?thesis
    by (simp add: create_hashes.simps [of id _ 600 0] create_hashes.simps [of id _ 600 512] FAST_SYNC_BATCH_LEN_def hash_of_hashes_def
        cok_def)
qed

theorem created_hashes_accept_chain_witness:
  "\<exists>valid unknown. validate_entries id [concat (take 512 sample_chain)] sample_entries 3 (serving (take 3 sample_chain)) = Some (Ok (valid, unknown)) \<and>
    attributed valid @ attributed unknown = attributed sample_entries \<and>
    (length (ids_of unknown) < L \<or> fast_sync_stop_height [concat (take 512 sample_chain)] \<le> 3 + length (ids_of valid))"
  by (rule created_hashes_accept_chain [OF serving_serves sample_created serving_serves, where m = 550])
    (simp_all add: fast_sync_stop_height_def FAST_SYNC_BATCH_LEN_def sample_chain_def sample_entries_def)

text \<open>
  C8: ids that \<open>validate_entries\<close> accepts are the ids of the chain the hashes were made from, unless one of the batches that the given ids
  form collides with the batch of the chain at the same place under \<open>blake3\<close>.
\<close>

theorem validated_ids_are_those_of_the_chain:
  fixes entries :: "'p chain_entry list"
  assumes "serves chain db" "create_hashes B db target 0 [] = Some (Ok H)"
    and "serves (take start chain) db'" "start \<le> length chain" "start < fast_sync_stop_height H"
    and "list_all (\<lambda>x. length x = 32) (chain @ ids_of entries)"
    and "validate_entries B H entries start db' = Some (Ok (valid, unknown))"
  defines "ids \<equiv> take (start mod L) (drop (start div L * L) chain) @ ids_of entries"
  shows "ids_of valid = take (length (ids_of valid)) (drop start chain) \<or>
    (\<exists>j. collides B (take L (drop (L * j) ids)) (take L (drop (L * j) (drop (start div L * L) chain))))"
proof (rule disjCI)
  assume inj: "\<nexists>j. collides B (take L (drop (L * j) ids)) (take L (drop (L * j) (drop (start div L * L) chain)))"
  obtain n where H: "H = hashes_of_chain B chain n" "L * n \<le> length chain"
    by (rule created_hashes [OF assms(1,2)])
  let ?a = "start div L" and ?k = "checked_batches H start (ids_of entries)"
  let ?pre = "take (start mod L) (drop (?a * L) chain)"
  note pre = serves_prefix [OF assms(3,4)]
  note spec = validate_entries_eq [where db = db', OF assms(5) pre, of entries B]
  show "ids_of valid = take (length (ids_of valid)) (drop start chain)"
  proof (cases "length (?pre @ ids_of entries) < L")
    case True
    then show ?thesis
      using spec assms(7) by simp
  next
    case False
    then have k: "0 < ?k" "batches_match B H ?a (?pre @ ids_of entries) ?k" "?pre @ ids_of valid = take (L * ?k) (?pre @ ids_of entries)"
      using spec assms(7) by (auto simp only: not_less simp_thms split: if_splits)
    let ?ids = "?pre @ ids_of entries"
    have "take L (drop (L * j) ?ids) = take L (drop (L * j) (drop (?a * L) chain))" if j: "j < ?k" for j
    proof (rule hash_of_hashes_inj)
      show "\<not> collides B (take L (drop (L * j) ?ids)) (take L (drop (L * j) (drop (?a * L) chain)))"
        using inj unfolding ids_def by blast
      note bound = checked_batch_bound [OF j [unfolded H(1)]]
      have "L * Suc (?a + j) \<le> length chain"
        using H(2) bound(1) mult_le_mono2 [of "Suc (?a + j)" n L] by linarith
      moreover have "L * Suc (?a + j) = ?a * L + (L * j + L)"
        by (simp add: algebra_simps)
      ultimately have "?a * L + (L * j + L) \<le> length chain" "L * j + L \<le> start mod L + length (ids_of entries)"
        using bound(2) by linarith+
      then show "length (take L (drop (L * j) ?ids)) = length (take L (drop (L * j) (drop (?a * L) chain)))"
        using pre(2) by simp
      show "hash_of_hashes B (take L (drop (L * j) ?ids)) = hash_of_hashes B (take L (drop (L * j) (drop (?a * L) chain)))"
      proof -
        have "hash_of_hashes B (take L (drop (L * j) ?ids)) = H ! (?a + j)"
          using k(2) j unfolding batches_match_def by blast
        also have "\<dots> = hash_of_hashes B (take L (drop (L * (?a + j)) chain))"
          using bound(1) by (simp add: H(1) hashes_of_chain_nth)
        finally show ?thesis
          by (simp add: algebra_simps)
      qed
      show "\<forall>x \<in> set (take L (drop (L * j) ?ids)) \<union> set (take L (drop (L * j) (drop (?a * L) chain))). length x = 32"
        using assms(6) by (auto simp: list_all_iff dest!: in_set_takeD in_set_dropD)
    qed
    then have "?pre @ ids_of valid = take (L * ?k) (drop (?a * L) chain)"
      unfolding k(3) by (rule take_chunks)
    moreover have "L * ?k = start mod L + (L * ?k - start mod L)"
      using k(1) mod_less_divisor [OF L_pos(1), of start] mult_le_mono2 [of 1 ?k L] by linarith
    then have "take (L * ?k) (drop (?a * L) chain) = ?pre @ take (L * ?k - start mod L) (drop (start mod L) (drop (?a * L) chain))"
      by (metis take_add)
    ultimately have "ids_of valid = take (L * ?k - start mod L) (drop start chain)"
      by simp
    then show ?thesis
      by (metis append_eq_conv_conj append_take_drop_id)
  qed
qed

theorem validated_ids_are_those_of_the_chain_witness:
  "\<exists>valid unknown. validate_entries id [concat (take 512 sample_chain)] sample_entries 3 (serving (take 3 sample_chain)) = Some (Ok (valid, unknown)) \<and>
    ids_of valid = take (length (ids_of valid)) (drop 3 sample_chain)"
proof -
  obtain valid unknown where v: "validate_entries id [concat (take 512 sample_chain)] sample_entries 3 (serving (take 3 sample_chain)) = Some (Ok (valid, unknown))"
    using validate_entries_eq [where db = "serving (take 3 sample_chain)" and H = "[concat (take 512 sample_chain)]" and start = 3 and starting = "take 3 sample_chain" and entries = sample_entries and B = id]
      chain_batches_match [where H = "[concat (take 512 sample_chain)]" and start = 3 and B = id and chain = sample_chain and n = 1 and m = 550 and entries = sample_entries]
    by (auto simp: fast_sync_stop_height_def FAST_SYNC_BATCH_LEN_def sample_chain_def sample_entries_def serving_def hashes_of_chain_def
        hash_of_hashes_def)
  have "ids_of valid = take (length (ids_of valid)) (drop 3 sample_chain)"
    by (rule disjE [OF validated_ids_are_those_of_the_chain [OF serving_serves sample_created serving_serves _ _ _ v]])
      (auto simp: fast_sync_stop_height_def FAST_SYNC_BATCH_LEN_def sample_chain_def sample_entries_def list_all_iff collides_def)
  then show ?thesis
    using v by blast
qed

end
