(* ===== verification/Block_Handlers.thy ===== *)
theory Block_Handlers
  imports Chain_Manager Fast_Sync
begin

text \<open>
  The blockchain manager's handlers: \<^verbatim>\<open>src/binaries/cuprated/src/blockchain/manager/handler.rs\<close> and the commands of \<^verbatim>\<open>commands.rs\<close>.
  A block that follows the top of the chain is verified and added; any other block goes to an alternative chain, and when that has
  more work the chain is reorganised: its blocks are popped to the split, the alternative blocks verified and added, and on an error
  the popped blocks are put back.

  One run of a handler reads the clock as \<open>now\<close>. The random ids drawn by a run are arguments: \<open>alt_id\<close> for a new alternative chain,
  \<open>alt_ids\<close> for those of a batch by the number of blocks left,
  \<open>pop_id\<close> for blocks popped to reorganise and \<open>undo_id\<close> for blocks popped to undo that. \<open>number\<close> is \<open>Block::number\<close> of \<open>monero_oxide\<close>, \<open>hashes\<close> the
  fast-sync hashes. The locks of \<open>REORG_LOCK\<close> order readers and are not modelled.
\<close>

subsection \<open>Errors and calls\<close>

datatype manager_error =
  VerifyError extended_consensus_error
| ManagerDatabase runtime_error
| NewTxError transaction_error
| TxConversionError
| NewAltBlockError block_error
| AlreadyInMainChain

record 'p node_env =
  ne_verifier :: "'p verifier"
  ne_number :: "block \<Rightarrow> nat"
  ne_hashes :: "bytes list"

abbreviation ne_codecs :: "'p node_env \<Rightarrow> codecs" where
  "ne_codecs E \<equiv> vcodecs (ne_verifier E)"

definition from_fault :: "('e \<Rightarrow> manager_error) \<Rightarrow> 'e fault + 'a \<Rightarrow> manager_error fault + 'a" where
  "from_fault f = map_err (\<lambda>e. case e of Panic \<Rightarrow> Panic | Fault x \<Rightarrow> Fault (f x))"

text \<open>A function of the verifier, run on the context task with the database.\<close>

definition on_context ::
  "codecs \<Rightarrow> (database \<Rightarrow> ('vm context_task, extended_consensus_error, 'a) action) \<Rightarrow> ('vm manager, manager_error, 'a) action" where
  "on_context io f m =
     map_option (\<lambda>(s, r). (m\<lparr>mg_context := s\<rparr>, from_fault VerifyError r)) (f (store_db (io, mg_tables m)) (mg_context m))"

definition verify_next ::
  "'p verifier \<Rightarrow> nat \<Rightarrow> prepared_block \<Rightarrow> tx_verification_data list \<Rightarrow> batch_prepare_cache option \<Rightarrow>
     ('vm manager, manager_error, verified_block \<times> batch_prepare_cache option) action" where
  "verify_next V now prepped txs cache m =
     mlift (map_option (from_fault VerifyError)
       (verify_prepped_main_chain_block V now (the_context m) prepped txs (store_db (vcodecs V, mg_tables m)) cache)) m"

definition broadcast_block :: "bytes \<Rightarrow> nat \<Rightarrow> ('vm manager, 'e, unit) action" where
  "broadcast_block block_bytes blockchain_height = send (BroadcastBlock block_bytes blockchain_height)"

definition ban_and_stop :: "('vm manager, 'e, unit) action" where
  "ban_and_stop = mbind (send BanPeer) (\<lambda>_. send StopDownloader)"

subsection \<open>Reorganisations\<close>

definition alt_prepped_txs :: "'p verifier \<Rightarrow> alt_block_information \<Rightarrow> manager_error + tx_verification_data list" where
  "alt_prepped_txs V ab = map_err (\<lambda>_. TxConversionError) (collect_results (verified_to_verification_data V) (ab_txs ab))"

definition verify_add_alt_block ::
  "'p verifier \<Rightarrow> (bytes \<Rightarrow> 'vm option) \<Rightarrow> nat \<Rightarrow> nat \<Rightarrow> alt_block_information \<Rightarrow> ('vm manager, manager_error, unit) action" where
  "verify_add_alt_block V new_vm pop_id now ab =
     mbind (mresult (no_panic (alt_prepped_txs V ab))) (\<lambda>txs.
     mbind (mresult (no_panic (map_err NewAltBlockError (new_alt_block V ab)))) (\<lambda>prepped.
     mbind (verify_next V now prepped txs None) (\<lambda>(b, _).
     add_valid_block_to_main_chain new_vm (vcodecs V) pop_id b)))"

definition verify_add_alt_blocks_to_main_chain ::
  "'p verifier \<Rightarrow> (bytes \<Rightarrow> 'vm option) \<Rightarrow> nat \<Rightarrow> nat \<Rightarrow> alt_block_information list \<Rightarrow> ('vm manager, manager_error, unit) action" where
  "verify_add_alt_blocks_to_main_chain V new_vm pop_id now alt_blocks = mfor (verify_add_alt_block V new_vm pop_id now) alt_blocks"

definition try_do_reorg ::
  "'p verifier \<Rightarrow> (bytes \<Rightarrow> 'vm option) \<Rightarrow> nat \<Rightarrow> nat \<Rightarrow> nat \<Rightarrow> alt_block_information \<Rightarrow> ('vm manager, manager_error, unit) action" where
  "try_do_reorg V new_vm pop_id undo_id now top_alt_block =
     mbind (read_alt_blocks_in_chain (vcodecs V) (ab_chain_id top_alt_block)) (\<lambda>r.
     mbind (mresult (from_fault ManagerDatabase r)) (\<lambda>alt_blocks.
     let alt_blocks = alt_blocks @ [top_alt_block]; split_height = ab_height (hd alt_blocks) in
     mbind (mget context_height) (\<lambda>current_main_chain_height.
     mbind (manager_pop_blocks new_vm (vcodecs V) pop_id (wsub 64 current_main_chain_height split_height)) (\<lambda>old_main_chain_id.
     mbind (mtry (verify_add_alt_blocks_to_main_chain V new_vm pop_id now alt_blocks)) (\<lambda>reorg_res.
     case reorg_res of
       Inr _ \<Rightarrow> mret ()
     | Inl e \<Rightarrow> mbind (reverse_reorg new_vm (vcodecs V) undo_id old_main_chain_id) (\<lambda>_. merr e))))))"

subsection \<open>Alternative blocks\<close>

datatype add_alt_block = AlreadyCached | NewlyCached bytes | Reorged

definition handle_incoming_alt_block ::
  "'p verifier \<Rightarrow> ('vm \<Rightarrow> bytes \<Rightarrow> bytes option) \<Rightarrow> (bytes \<Rightarrow> 'vm option) \<Rightarrow> nat \<Rightarrow> nat \<Rightarrow> nat \<Rightarrow> nat \<Rightarrow> block \<Rightarrow> tx_map \<Rightarrow>
     ('vm manager, manager_error, add_alt_block) action" where
  "handle_incoming_alt_block V vm_hash new_vm alt_id pop_id undo_id now blk prepared_txs =
     mbind (db_read (vcodecs V) (FindBlock (block_hash_of V blk))) (\<lambda>r.
     mbind (mexpect r) (\<lambda>response.
     case response of
       RFindBlock (Some (Alt _, _)) \<Rightarrow> mret AlreadyCached
     | RFindBlock (Some (Main, _)) \<Rightarrow> merr AlreadyInMainChain
     | RFindBlock None \<Rightarrow>
         mbind (on_context (vcodecs V) (sanity_check_alt_block V vm_hash new_vm alt_id now blk prepared_txs)) (\<lambda>alt_block_info.
         mbind (mget the_context) (\<lambda>ctx.
         if bc_cumulative_difficulty ctx < ab_cumulative_difficulty alt_block_info
         then mbind (try_do_reorg V new_vm pop_id undo_id now alt_block_info) (\<lambda>_. mret Reorged)
         else
           mbind (db_write (vcodecs V) pop_id (WriteAltBlock alt_block_info)) (\<lambda>r.
           mbind (mresult (from_fault ManagerDatabase r)) (\<lambda>_.
           mret (NewlyCached (ab_block_blob alt_block_info))))))
     | _ \<Rightarrow> mpanic))"

subsection \<open>Single blocks\<close>

datatype incoming_block_ok = AddedToMainChain | NotReady | AddedToAltChain | AlreadyHave

definition handle_incoming_block ::
  "'p verifier \<Rightarrow> ('vm \<Rightarrow> bytes \<Rightarrow> bytes option) \<Rightarrow> (bytes \<Rightarrow> 'vm option) \<Rightarrow> nat \<Rightarrow> nat \<Rightarrow> nat \<Rightarrow> nat \<Rightarrow> block \<Rightarrow> tx_map \<Rightarrow>
     ('vm manager, manager_error, incoming_block_ok) action" where
  "handle_incoming_block V vm_hash new_vm alt_id pop_id undo_id now blk prepared_txs =
     mbind (mget the_context) (\<lambda>ctx.
     if previous (header blk) \<noteq> top_hash (bc_context_to_verify_block ctx)
     then
       mbind (handle_incoming_alt_block V vm_hash new_vm alt_id pop_id undo_id now blk prepared_txs) (\<lambda>res.
       mbind
         (case res of
            NewlyCached block_blob \<Rightarrow> mbind (mget context_height) (\<lambda>chain_height. broadcast_block block_blob chain_height)
          | _ \<Rightarrow> mret ()) (\<lambda>_.
       mret AddedToAltChain))
     else
       mbind (on_context (vcodecs V) (verify_main_chain_block V vm_hash new_vm now blk prepared_txs)) (\<lambda>verified_block.
       let block_blob = vb_block_blob verified_block in
       mbind (add_valid_block_to_main_chain new_vm (vcodecs V) pop_id verified_block) (\<lambda>_.
       mbind (mget context_height) (\<lambda>chain_height.
       mbind (broadcast_block block_blob chain_height) (\<lambda>_.
       mret AddedToMainChain)))))"

datatype manager_command = AddBlock block tx_map | PopBlocksCommand nat

datatype command_response = AddBlockResponse "manager_error + incoming_block_ok" | PopBlocksResponse

definition handle_command ::
  "'p verifier \<Rightarrow> ('vm \<Rightarrow> bytes \<Rightarrow> bytes option) \<Rightarrow> (bytes \<Rightarrow> 'vm option) \<Rightarrow> nat \<Rightarrow> nat \<Rightarrow> nat \<Rightarrow> nat \<Rightarrow> manager_command \<Rightarrow>
     ('vm manager, manager_error, command_response) action" where
  "handle_command V vm_hash new_vm alt_id pop_id undo_id now command =
     (case command of
        AddBlock blk prepped_txs \<Rightarrow>
          mbind (mtry (handle_incoming_block V vm_hash new_vm alt_id pop_id undo_id now blk prepped_txs)) (\<lambda>res.
          mret (AddBlockResponse res))
      | PopBlocksCommand numb_blocks \<Rightarrow>
          mbind (handle_pop_blocks_command new_vm (vcodecs V) pop_id numb_blocks) (\<lambda>_. mret PopBlocksResponse))"

subsection \<open>Batches\<close>

type_synonym block_batch = "(block \<times> transaction list) list"

text \<open>The verified blocks are kept to be written in one go.\<close>

fun fast_sync_blocks ::
  "'p verifier \<Rightarrow> (bytes \<Rightarrow> 'vm option) \<Rightarrow> block_batch \<Rightarrow> verified_block list \<Rightarrow> ('vm manager, 'e, verified_block list) action" where
  "fast_sync_blocks V new_vm [] valid_blocks = mret valid_blocks"
| "fast_sync_blocks V new_vm ((blk, txs) # batch) valid_blocks =
     mbind (mget the_context) (\<lambda>ctx.
     mbind (mopt (block_to_verified_block_information V blk txs ctx)) (\<lambda>b.
     mbind (add_valid_block_to_blockchain_cache new_vm (vcodecs V) b) (\<lambda>_.
     fast_sync_blocks V new_vm batch (valid_blocks @ [b]))))"

definition handle_incoming_block_batch_fast_sync ::
  "'p verifier \<Rightarrow> (bytes \<Rightarrow> 'vm option) \<Rightarrow> nat \<Rightarrow> block_batch \<Rightarrow> ('vm manager, 'e, unit) action" where
  "handle_incoming_block_batch_fast_sync V new_vm pop_id batch =
     mbind (fast_sync_blocks V new_vm batch []) (\<lambda>valid_blocks.
     batch_add_valid_block_to_blockchain_database (vcodecs V) pop_id valid_blocks)"

fun add_prepped_blocks ::
  "'p verifier \<Rightarrow> (bytes \<Rightarrow> 'vm option) \<Rightarrow> nat \<Rightarrow> nat \<Rightarrow> (prepared_block \<times> tx_verification_data list) list \<Rightarrow> batch_prepare_cache option \<Rightarrow>
     ('vm manager, manager_error, unit) action" where
  "add_prepped_blocks V new_vm pop_id now [] cache = mret ()"
| "add_prepped_blocks V new_vm pop_id now ((prepped, txs) # blocks) cache =
     mbind (mtry (verify_next V now prepped txs cache)) (\<lambda>r.
     case r of
       Inl (e :: manager_error) \<Rightarrow> ban_and_stop
     | Inr (b, cache) \<Rightarrow>
         mbind (add_valid_block_to_main_chain new_vm (vcodecs V) pop_id b) (\<lambda>_.
         add_prepped_blocks V new_vm pop_id now blocks cache))"

definition handle_incoming_block_batch_main_chain ::
  "'p node_env \<Rightarrow> ('vm \<Rightarrow> bytes \<Rightarrow> bytes option) \<Rightarrow> (bytes \<Rightarrow> 'vm option) \<Rightarrow> nat \<Rightarrow> nat \<Rightarrow> block_batch \<Rightarrow>
     ('vm manager, manager_error, unit) action" where
  "handle_incoming_block_batch_main_chain E vm_hash new_vm pop_id now batch =
     mbind (mopt (if batch = [] then None else Some (fst (last batch)))) (\<lambda>last_block.
     if ne_number E last_block < fast_sync_stop_height (ne_hashes E)
     then handle_incoming_block_batch_fast_sync (ne_verifier E) new_vm pop_id batch
     else
       mbind (mtry (on_context (ne_codecs E) (batch_prepare_main_chain_blocks (ne_verifier E) vm_hash new_vm batch))) (\<lambda>r.
       case r of
         Inl (e :: manager_error) \<Rightarrow> ban_and_stop
       | Inr (prepped_blocks, output_cache) \<Rightarrow> add_prepped_blocks (ne_verifier E) new_vm pop_id now prepped_blocks (Some output_cache)))"

definition batch_tx_map :: "'p verifier \<Rightarrow> transaction list \<Rightarrow> manager_error + tx_map" where
  "batch_tx_map V txs =
     and_then (map_err NewTxError (collect_results (new_tx_verification_data V) txs)) (\<lambda>data. Ok (collect_tx_map data))"

fun handle_incoming_block_batch_alt_chain ::
  "'p node_env \<Rightarrow> ('vm \<Rightarrow> bytes \<Rightarrow> bytes option) \<Rightarrow> (bytes \<Rightarrow> 'vm option) \<Rightarrow> (nat \<Rightarrow> nat) \<Rightarrow> nat \<Rightarrow> nat \<Rightarrow> nat \<Rightarrow> block_batch \<Rightarrow>
     ('vm manager, manager_error, unit) action" where
  "handle_incoming_block_batch_alt_chain E vm_hash new_vm alt_ids pop_id undo_id now [] = mret ()"
| "handle_incoming_block_batch_alt_chain E vm_hash new_vm alt_ids pop_id undo_id now ((blk, txs) # blocks) =
     mbind
       (mtry
         (mbind (mresult (no_panic (batch_tx_map (ne_verifier E) txs))) (\<lambda>txs.
          handle_incoming_alt_block (ne_verifier E) vm_hash new_vm (alt_ids (length blocks)) pop_id undo_id now blk txs))) (\<lambda>r.
     case r of
       Inl (e :: manager_error) \<Rightarrow> ban_and_stop
     | Inr Reorged \<Rightarrow>
         (if blocks = [] then mret () else handle_incoming_block_batch_main_chain E vm_hash new_vm pop_id now blocks)
     | Inr _ \<Rightarrow> handle_incoming_block_batch_alt_chain E vm_hash new_vm alt_ids pop_id undo_id now blocks)"

definition handle_incoming_block_batch ::
  "'p node_env \<Rightarrow> ('vm \<Rightarrow> bytes \<Rightarrow> bytes option) \<Rightarrow> (bytes \<Rightarrow> 'vm option) \<Rightarrow> (nat \<Rightarrow> nat) \<Rightarrow> nat \<Rightarrow> nat \<Rightarrow> nat \<Rightarrow> block_batch \<Rightarrow>
     ('vm manager, manager_error, unit) action" where
  "handle_incoming_block_batch E vm_hash new_vm alt_ids pop_id undo_id now batch =
     mbind (mopt (if batch = [] then None else Some (fst (hd batch)))) (\<lambda>first_block.
     mbind (mget the_context) (\<lambda>ctx.
     if previous (header first_block) = top_hash (bc_context_to_verify_block ctx)
     then handle_incoming_block_batch_main_chain E vm_hash new_vm pop_id now batch
     else handle_incoming_block_batch_alt_chain E vm_hash new_vm alt_ids pop_id undo_id now batch))"

subsection \<open>The task\<close>

text \<open>One round of the manager's loop: a batch from the block downloader or a command; with both channels closed the code panics.\<close>

datatype manager_event = Batch block_batch | Command manager_command | ChannelsClosed

definition manager_round ::
  "'p node_env \<Rightarrow> ('vm \<Rightarrow> bytes \<Rightarrow> bytes option) \<Rightarrow> (bytes \<Rightarrow> 'vm option) \<Rightarrow> (nat \<Rightarrow> nat) \<Rightarrow> nat \<Rightarrow> nat \<Rightarrow> nat \<Rightarrow> manager_event \<Rightarrow>
     ('vm manager, manager_error, command_response option) action" where
  "manager_round E vm_hash new_vm alt_ids pop_id undo_id now event =
     (case event of
        Batch batch \<Rightarrow> mbind (handle_incoming_block_batch E vm_hash new_vm alt_ids pop_id undo_id now batch) (\<lambda>_. mret None)
      | Command command \<Rightarrow>
          mbind (handle_command (ne_verifier E) vm_hash new_vm (alt_ids 0) pop_id undo_id now command) (\<lambda>res. mret (Some res))
      | ChannelsClosed \<Rightarrow> mpanic)"

end
