(* ===== verification/Node_Laws.thy ===== *)
theory Node_Laws
  imports Manager_Laws Fast_Sync_Laws Block_Handlers
begin

text \<open>
  Verification, storage and context together: a block that verification accepts has the fields the context gives it, the tables take it
  without a panic, and afterwards the context task is in sync with the longer chain.
\<close>

subsection \<open>Verified blocks are added\<close>

text \<open>
  What storage needs beyond the rules: the codecs read back what they wrote, the hashes are new, and the tables have room.
\<close>

definition storage_accepts :: "codecs \<Rightarrow> verified_block \<Rightarrow> tables \<Rightarrow> bool" where
  "storage_accepts io b t \<longleftrightarrow>
     list_all (tx_storable io) (block_entries io b) \<and> vt_hash (miner_entry io (vb_block b)) \<notin> set (transactions (vb_block b)) \<and>
     list_all (\<lambda>x. vt_hash x \<notin> fst ` set (tx_ids t)) (block_entries io b) \<and> room_for (block_entries io b) t \<and>
     vb_hash b \<notin> fst ` set (block_heights t) \<and> chain_height_of t < 2 ^ 32 \<and>
     header_read io (header_serialize io (header (vb_block b))) = Some (header (vb_block b)) \<and>
     block_new io (header (vb_block b)) (miner_transaction (vb_block b)) (transactions (vb_block b)) = Some (vb_block b)"

lemma input_images_append [simp]: "input_images (xs @ ys) = input_images xs @ input_images ys"
  by (induction xs rule: input_images.induct) simp_all

lemma input_images_concat: "input_images (concat xss) = concat (map input_images xss)"
  by (induction xss) simp_all

lemma spent_key_images_Some: "\<forall>i \<in> set ins. is_to_key i \<Longrightarrow> spent_key_images ins = Some (input_images ins)"
  by (induction ins rule: spent_key_images.induct) simp_all

lemma context_at_fields:
  "context_at cfg bs = Some ctx \<Longrightarrow>
     chain_height (bc_context_to_verify_block ctx) = length bs \<and>
     current_hf (bc_context_to_verify_block ctx) = current_hardfork (hard_fork_at (hard_fork_cfg cfg) (headers_of bs))"
  by (auto simp: context_at_def build_blockchain_context_def Let_def bind_eq_Some_conv)

lemma verified_block_at:
  assumes ctx: "context_at cfg bs = Some ctx" and height: "chain_height_of t = length bs"
    and verified: "verify_prepped_main_chain_block V now ctx prepped txs (store_db (io, t)) None = Some (Ok (b, c))"
    and honest: "list_all (honest V) txs" and accepts: "storage_accepts io b t"
  shows "block_addable io b t \<and> follows cfg bs b"
proof -
  let ?v = "bc_context_to_verify_block ctx"
  let ?fees = "sum_u64 (map vt_fee (vb_txs b))"
  obtain txs' where b: "verify_block_txs V now ctx prepped txs (store_db (io, t)) None = Some (Ok txs')"
    "check_block (rules V) now (vb_block b) ?fees (vb_weight b) (length (pb_blob prepped)) ?v =
       Ok (from_vote (hardfork_signal (header (vb_block b))), vb_generated_coins b)"
    "vb_txs b = map verified_tx_of txs'" "vb_block b = pb_block prepped" "vb_height b = chain_height ?v"
    "vb_long_term_weight b = next_block_long_term_weight ctx (vb_weight b)"
    "vb_cumulative_difficulty b = wadd 128 (bc_cumulative_difficulty ctx) (next_difficulty ?v)"
    using verify_prepped_ok [OF verified] by metis
  note txs = verify_block_txs_ok [OF b(1) honest]
  have fees: "?fees < 2 ^ 64"
    unfolding sum_u64_eq by simp
  note coins = check_block_coins [OF b(2) fees] and fields = context_at_fields [OF ctx]
  have hashes: "map vt_hash (vb_txs b) = transactions (vb_block b)" "distinct (transactions (vb_block b))"
    using txs(1) b(3,4) check_block_Ok(7) [OF b(2)] by simp_all
  have images: "concat (map tx_images (block_entries io b)) = input_images (concat (map (\<lambda>tx. inputs (prefix (tv_tx tx))) txs'))"
    using coins(3) by (simp add: b(3) input_images_concat miner_entry_def comp_def Let_def)
  have "txs_addable io (block_entries io b) t"
    using accepts hashes txs(4,5) unfolding txs_addable_def images by (simp add: storage_accepts_def list_all_iff image_iff)
  then have "block_addable io b t"
    using accepts hashes height fields b(5) by (simp add: block_addable_def storage_accepts_def)
  moreover have "spent_key_images (concat (map (\<lambda>x. inputs (prefix (vt_tx x))) (vb_txs b))) \<noteq> None"
    using txs(3) semantically_valid_inputs by (subst spent_key_images_Some) (simp_all add: b(3) list_all_iff, blast)
  then have "follows cfg bs b"
    using ctx fields check_block_Ok(1) [OF b(2)] coins b(5-7) wadd_bound [of 128]
    by (simp add: follows_def fork_ok_def miner_outputs_sum_def sum_u64_eq [of "map _ (outputs _)"] output_total_def)
  ultimately show ?thesis ..
qed

lemma verified_block_ok:
  assumes sync: "node_sync io cfg bs t s"
    and verified: "verify_prepped_main_chain_block V now (context_cache s) prepped txs (store_db (io, t)) None = Some (Ok (b, c))"
    and honest: "list_all (honest V) txs" and accepts: "storage_accepts io b t"
  shows "block_addable io b t \<and> follows cfg bs b"
proof (rule verified_block_at [OF node_sync_context [OF sync] _ verified honest accepts])
  show "chain_height_of t = length bs"
    using sync by (auto simp: node_sync_def intro: built_holds_alts(2))
qed

subsection \<open>Reorganisations\<close>

text \<open>The blocks of the alternative chain that pass verification on top of \<open>bs\<close> can be stored.\<close>

definition alt_blocks_storable ::
  "'p verifier \<Rightarrow> nat \<Rightarrow> context_config \<Rightarrow> verified_block list \<Rightarrow> alt_block_information list \<Rightarrow> bool" where
  "alt_blocks_storable V now cfg bs alts \<longleftrightarrow>
     (\<forall>new t ctx. built (vcodecs V) (bs @ new) (flush_alt_blocks t) \<and> context_at cfg (bs @ new) = Some ctx \<longrightarrow>
        (\<forall>ab \<in> set alts. \<forall>txs prepped b c.
           alt_prepped_txs V ab = Ok txs \<and> new_alt_block V ab = Ok prepped \<and>
           verify_prepped_main_chain_block V now ctx prepped txs (store_db (vcodecs V, t)) None = Some (Ok (b, c)) \<longrightarrow>
           storage_accepts (vcodecs V) b t))"

lemma alt_prepped_txs_honest: "alt_prepped_txs V ab = Ok txs \<Longrightarrow> list_all (honest V) txs"
proof -
  assume txs: "alt_prepped_txs V ab = Ok txs"
  have "verified_to_verification_data V x = Ok d \<Longrightarrow> tv_state d = NotVerified" for x d
    by (auto simp: verified_to_verification_data_def and_then_eq_Inr)
  then have "verified_to_verification_data V x = Ok d \<Longrightarrow> honest V d" for x d
    by (simp add: honest_def)
  then show ?thesis
    using txs by (auto simp: alt_prepped_txs_def map_err_eq_Inr collect_results_Ok list_all2_conv_all_nth list_all_length)
qed

lemma verify_add_alt_block_ok:
  fixes m :: "'vm manager"
  assumes cfg: "config_ok cfg" and sync: "node_sync (vcodecs V) cfg bs (mg_tables m) (mg_context m)"
    and stores: "\<And>txs prepped b c. alt_prepped_txs V ab = Ok txs \<Longrightarrow> new_alt_block V ab = Ok prepped \<Longrightarrow>
      verify_prepped_main_chain_block V now (the_context m) prepped txs (store_db (vcodecs V, mg_tables m)) None = Some (Ok (b, c)) \<Longrightarrow>
      storage_accepts (vcodecs V) b (mg_tables m)"
    and run: "verify_add_alt_block V new_vm rid now ab m = Some (m', r)" "r \<noteq> Err Panic"
  shows "(\<exists>e. r = Err (Fault e) \<and> m' = m) \<or>
    (\<exists>b. r = Ok () \<and> node_sync (vcodecs V) cfg (bs @ [b]) (mg_tables m') (mg_context m') \<and> add_block (vcodecs V) b (mg_tables m) = Ok (mg_tables m'))"
proof (cases "alt_prepped_txs V ab")
  case txs: (Inr txs)
  show ?thesis
  proof (cases "new_alt_block V ab")
    case prepped: (Inr prepped)
    let ?v = "verify_prepped_main_chain_block V now (the_context m) prepped txs (store_db (vcodecs V, mg_tables m)) None"
    have step: "verify_add_alt_block V new_vm rid now ab m =
        mbind (verify_next V now prepped txs None) (\<lambda>(b, _). add_valid_block_to_main_chain new_vm (vcodecs V) rid b) m"
      by (simp add: verify_add_alt_block_def txs prepped no_panic_def)
    consider "?v = None" | e where "?v = Some (Inl e)" | b c where "?v = Some (Inr (b, c))"
      by (metis option.exhaust sum.exhaust surj_pair)
    then show ?thesis
    proof cases
      case (3 b c)
      then have "block_addable (vcodecs V) b (mg_tables m) \<and> follows cfg bs b"
        using verified_block_ok [OF sync 3 alt_prepped_txs_honest [OF txs]] stores [OF txs prepped 3] by simp
      then obtain m1 where "add_valid_block_to_main_chain new_vm (vcodecs V) rid b m = Some (m1, Ok () :: manager_error fault + unit)"
          "node_sync (vcodecs V) cfg (bs @ [b]) (mg_tables m1) (mg_context m1)" "add_block (vcodecs V) b (mg_tables m) = Ok (mg_tables m1)"
        using add_valid_block_ok [OF cfg sync, of b] by (auto simp: follows_def)
      then show ?thesis
        using run(1) 3 unfolding step by (auto simp: verify_next_def mlift_def mbind_def from_fault_def simp del: store_db.simps)
    qed (use run in \<open>unfold step, auto simp: verify_next_def mlift_def mbind_def from_fault_def simp del: store_db.simps split: fault.splits\<close>)
  qed (use run txs in \<open>auto simp: verify_add_alt_block_def mbind_def mresult_def no_panic_def\<close>)
qed (use run in \<open>auto simp: verify_add_alt_block_def mbind_def mresult_def no_panic_def\<close>)

lemma alt_blocks_storable_Cons: "alt_blocks_storable V now cfg bs (ab # alts) \<Longrightarrow> alt_blocks_storable V now cfg bs alts"
  unfolding alt_blocks_storable_def by (simp only: list.set insert_iff) blast

lemma alt_blocks_storable_append: "alt_blocks_storable V now cfg bs alts \<Longrightarrow> alt_blocks_storable V now cfg (bs @ new) alts"
  unfolding alt_blocks_storable_def append_assoc by blast

lemma alt_blocks_storableD:
  assumes "alt_blocks_storable V now cfg bs alts" "node_sync (vcodecs V) cfg (bs @ new) t s" "ab \<in> set alts"
    and "alt_prepped_txs V ab = Ok txs" "new_alt_block V ab = Ok prepped"
    and "verify_prepped_main_chain_block V now (context_cache s) prepped txs (store_db (vcodecs V, t)) None = Some (Ok (b, c))"
  shows "storage_accepts (vcodecs V) b t"
  using assms(1,3-) node_sync_context [OF assms(2)] assms(2) unfolding alt_blocks_storable_def node_sync_def by blast

lemma verify_add_alt_blocks_ok:
  fixes m :: "'vm manager"
  assumes cfg: "config_ok cfg" and sync: "node_sync (vcodecs V) cfg bs (mg_tables m) (mg_context m)"
    and stores: "alt_blocks_storable V now cfg bs alts" and kept: "kept (vcodecs V) c n old (mg_tables m)"
    and run: "verify_add_alt_blocks_to_main_chain V new_vm rid now alts m = Some (m', r)" "r \<noteq> Err Panic"
  shows "\<exists>new. node_sync (vcodecs V) cfg (bs @ new) (mg_tables m') (mg_context m') \<and> kept (vcodecs V) c n old (mg_tables m') \<and>
    (r = Ok () \<longrightarrow> length new = length alts)"
  using sync stores kept run(1) unfolding verify_add_alt_blocks_to_main_chain_def
proof (induction alts arbitrary: bs m)
  case (Cons ab alts)
  obtain m1 q where step: "verify_add_alt_block V new_vm rid now ab m = Some (m1, q)"
    using Cons.prems(4) by (auto simp: mbind_def split: option.splits)
  have "q \<noteq> Err Panic"
    using Cons.prems(4) run(2) step by (auto simp: mbind_def)
  then consider e where "q = Err (Fault e)" "m1 = m"
    | b where "q = Ok ()" "node_sync (vcodecs V) cfg (bs @ [b]) (mg_tables m1) (mg_context m1)" "add_block (vcodecs V) b (mg_tables m) = Ok (mg_tables m1)"
    using verify_add_alt_block_ok [OF cfg Cons.prems(1) _ step] alt_blocks_storableD [OF Cons.prems(2), of "[]" _ "mg_context m"] Cons.prems(1)
    by (metis append_Nil2 list.set_intros(1))
  then show ?case
  proof cases
    case 1
    then show ?thesis
      using Cons.prems(1,3,4) step by (intro exI [of _ "[]"]) (auto simp: mbind_def)
  next
    case (2 b)
    have "mfor (verify_add_alt_block V new_vm rid now) alts m1 = Some (m', r)"
      using Cons.prems(4) step 2(1) by (simp add: mbind_def)
    then obtain new where "node_sync (vcodecs V) cfg ((bs @ [b]) @ new) (mg_tables m') (mg_context m')"
        "kept (vcodecs V) c n old (mg_tables m')" "r = Ok () \<longrightarrow> length new = length alts"
      using Cons.IH [OF 2(2) alt_blocks_storable_append [OF alt_blocks_storable_Cons [OF Cons.prems(2)]] kept_add_block [OF Cons.prems(3) 2(3)]]
      by blast
    then show ?thesis
      by (intro exI [of _ "b # new"]) simp
  qed
qed (auto intro: exI [of _ "[]"])

lemma reorg_steps:
  fixes m :: "'vm manager"
  assumes cfg: "config_ok cfg" and sync: "node_sync (vcodecs V) cfg (bs @ old) (mg_tables m) (mg_context m)"
    and pop: "poppable (vcodecs V) cfg bs old" "pop_id \<noteq> 0"
    and alts: "alt_blocks_in_chain (vcodecs V) (ab_chain_id top_block) (mg_tables m) = Some (Ok alts)" "ab_height (hd (alts @ [top_block])) = length bs"
  obtains m1 where "manager_pop_blocks new_vm (vcodecs V) pop_id (length old) m = Some (m1, Ok pop_id :: manager_error fault + nat)"
    "node_sync (vcodecs V) cfg bs (mg_tables m1) (mg_context m1)" "kept (vcodecs V) pop_id (length bs) old (mg_tables m1)"
    "try_do_reorg V new_vm pop_id undo_id now top_block m =
       mbind (mtry (verify_add_alt_blocks_to_main_chain V new_vm pop_id now (alts @ [top_block]))) 
         (case_sum (\<lambda>e. mbind (reverse_reorg new_vm (vcodecs V) undo_id pop_id) (\<lambda>_. merr e)) mret) m1"
proof -
  obtain m1 where m1: "manager_pop_blocks new_vm (vcodecs V) pop_id (length old) m = Some (m1, Ok pop_id :: manager_error fault + nat)"
    "node_sync (vcodecs V) cfg bs (mg_tables m1) (mg_context m1)" "kept (vcodecs V) pop_id (length bs) old (mg_tables m1)"
    using manager_pop_ok [OF cfg sync pop] by blast
  have "context_height m = length (bs @ old)" "length (bs @ old) < 2 ^ 64"
    using context_at_height [OF node_sync_context [OF sync]] pop(1) by (simp_all add: poppable_def)
  then have "wsub 64 (context_height m) (ab_height (hd (alts @ [top_block]))) = length old"
    using alts(2) by (simp add: wsub_exact)
  moreover have "read_alt_blocks_in_chain (vcodecs V) (ab_chain_id top_block) m =
      Some (m, Ok (Ok alts) :: manager_error fault + (runtime_error fault + alt_block_information list))"
    using alts(1) by (simp add: read_alt_blocks_in_chain_def db_read_def map_request_def mbind_def)
  ultimately have "try_do_reorg V new_vm pop_id undo_id now top_block m =
       mbind (mtry (verify_add_alt_blocks_to_main_chain V new_vm pop_id now (alts @ [top_block]))) 
         (case_sum (\<lambda>e. mbind (reverse_reorg new_vm (vcodecs V) undo_id pop_id) (\<lambda>_. merr e)) mret) m1"
    using m1(1) by (simp add: try_do_reorg_def Let_def mbind_Ok from_fault_def)
  then show thesis
    using that m1 by blast
qed

lemma failed_reorg_ok:
  fixes m :: "'vm manager"
  assumes cfg: "config_ok cfg" and sync: "node_sync (vcodecs V) cfg (bs @ old) (mg_tables m) (mg_context m)"
    and pop: "poppable (vcodecs V) cfg bs old" "pop_id \<noteq> 0" "undo_id \<noteq> 0" and follow: "follow_all cfg bs old"
    and alts: "alt_blocks_in_chain (vcodecs V) (ab_chain_id top_block) (mg_tables m) = Some (Ok alts)" "ab_height (hd (alts @ [top_block])) = length bs"
    and stores: "alt_blocks_storable V now cfg bs (alts @ [top_block])"
    and fails: "\<And>m1. manager_pop_blocks new_vm (vcodecs V) pop_id (length old) m = Some (m1, Ok pop_id :: manager_error fault + nat) \<Longrightarrow>
      \<exists>m2. verify_add_alt_blocks_to_main_chain V new_vm pop_id now (alts @ [top_block]) m1 = Some (m2, Err (Fault e)) \<and>
        (\<forall>new. node_sync (vcodecs V) cfg (bs @ new) (mg_tables m2) (mg_context m2) \<longrightarrow> new = [] \<or> poppable (vcodecs V) cfg bs new)"
  shows "\<exists>m'. try_do_reorg V new_vm pop_id undo_id now top_block m = Some (m', Err (Fault e)) \<and>
    node_sync (vcodecs V) cfg (bs @ old) (mg_tables m') (mg_context m') \<and> mg_tables m' = flush_alt_blocks (mg_tables m)"
proof -
  obtain m1 where m1: "manager_pop_blocks new_vm (vcodecs V) pop_id (length old) m = Some (m1, Ok pop_id :: manager_error fault + nat)"
    "node_sync (vcodecs V) cfg bs (mg_tables m1) (mg_context m1)" "kept (vcodecs V) pop_id (length bs) old (mg_tables m1)"
    and reorg: "try_do_reorg V new_vm pop_id undo_id now top_block m =
       mbind (mtry (verify_add_alt_blocks_to_main_chain V new_vm pop_id now (alts @ [top_block]))) 
         (case_sum (\<lambda>e. mbind (reverse_reorg new_vm (vcodecs V) undo_id pop_id) (\<lambda>_. merr e)) mret) m1"
    by (rule reorg_steps [OF cfg sync pop(1,2) alts])
  obtain m2 where m2: "verify_add_alt_blocks_to_main_chain V new_vm pop_id now (alts @ [top_block]) m1 = Some (m2, Err (Fault e))"
    "\<forall>new. node_sync (vcodecs V) cfg (bs @ new) (mg_tables m2) (mg_context m2) \<longrightarrow> new = [] \<or> poppable (vcodecs V) cfg bs new"
    using fails [OF m1(1)] by blast
  obtain new where new: "node_sync (vcodecs V) cfg (bs @ new) (mg_tables m2) (mg_context m2)" "kept (vcodecs V) pop_id (length bs) old (mg_tables m2)"
    using verify_add_alt_blocks_ok [OF cfg m1(2) stores m1(3) m2(1)] by blast
  have "built (vcodecs V) (bs @ old) (flush_alt_blocks (mg_tables m))" "old \<noteq> []" "bs \<noteq> []"
    using sync pop(1) by (simp_all add: node_sync_def poppable_def)
  then obtain m3 where "reverse_reorg new_vm (vcodecs V) undo_id pop_id m2 = Some (m3, Ok () :: manager_error fault + unit)"
    "mg_tables m3 = flush_alt_blocks (mg_tables m)" "node_sync (vcodecs V) cfg (bs @ old) (mg_tables m3) (mg_context m3)"
    using reverse_reorg_ok [OF cfg new(1) _ _ follow new(2) _ _ pop(3,2)] m2(2) new(1) by blast
  then show ?thesis
    using m2(1) unfolding reorg by (simp add: mbind_def mtry_def merr_def)
qed

lemma reorg_ok:
  fixes m :: "'vm manager"
  assumes cfg: "config_ok cfg" and sync: "node_sync (vcodecs V) cfg (bs @ old) (mg_tables m) (mg_context m)"
    and pop: "poppable (vcodecs V) cfg bs old" "pop_id \<noteq> 0"
    and alts: "alt_blocks_in_chain (vcodecs V) (ab_chain_id top_block) (mg_tables m) = Some (Ok alts)" "ab_height (hd (alts @ [top_block])) = length bs"
    and stores: "alt_blocks_storable V now cfg bs (alts @ [top_block])"
    and reorg: "try_do_reorg V new_vm pop_id undo_id now top_block m = Some (m', Ok ())"
  shows "\<exists>new. length new = Suc (length alts) \<and> node_sync (vcodecs V) cfg (bs @ new) (mg_tables m') (mg_context m')"
proof -
  let ?alts = "alts @ [top_block]"
  obtain m1 where m1: "node_sync (vcodecs V) cfg bs (mg_tables m1) (mg_context m1)" "kept (vcodecs V) pop_id (length bs) old (mg_tables m1)"
    and steps: "try_do_reorg V new_vm pop_id undo_id now top_block m =
       mbind (mtry (verify_add_alt_blocks_to_main_chain V new_vm pop_id now ?alts))
         (case_sum (\<lambda>e. mbind (reverse_reorg new_vm (vcodecs V) undo_id pop_id) (\<lambda>_. merr e)) mret) m1"
    by (rule reorg_steps [OF cfg sync pop(1,2) alts]) blast
  have "verify_add_alt_blocks_to_main_chain V new_vm pop_id now ?alts m1 = Some (m', Ok ())"
    using reorg unfolding steps by (auto simp: mbind_def mtry_def merr_def split: option.splits sum.splits fault.splits)
  then show ?thesis
    using verify_add_alt_blocks_ok [OF cfg m1(1) stores m1(2)] by fastforce
qed

subsection \<open>Incoming blocks\<close>

lemma current_rx_vms_sync:
  assumes "current_rx_vms new_vm db s = Some (s', r)"
  shows "context_cache s' = context_cache s" "node_sync io cfg bs t s \<Longrightarrow> node_sync io cfg bs t s'"
proof -
  have "s' = s \<or> (\<exists>rx. s' = s\<lparr>rx_vm_cache_of := rx\<rparr> \<and> seeds rx = seeds (rx_vm_cache_of s))"
    using assms
    by (auto simp: current_rx_vms_def ask_context_def handle_req_def crun_def cunwrap_def unwrap_def get_vms_def split: option.splits
        if_splits nat.splits list.splits)
  then show "context_cache s' = context_cache s" "node_sync io cfg bs t s \<Longrightarrow> node_sync io cfg bs t s'"
    by (auto simp: node_sync_def in_sync_def)
qed

lemma verify_main_chain_block_ok:
  fixes s :: "'vm context_task"
  assumes run: "verify_main_chain_block V vm_hash new_vm now blk txs db s = Some (s', r)" and sync: "node_sync io cfg bs t s"
  shows "node_sync io cfg bs t s' \<and> context_cache s' = context_cache s \<and>
    (\<forall>b. r = Ok b \<longrightarrow> (\<exists>vm prepped ordered c. prepared_block_new V blk vm = Ok prepped \<and> pull_ordered_transactions blk txs = Ok ordered \<and>
       verify_prepped_main_chain_block V now (context_cache s) prepped ordered db None = Some (Ok (b, c))))"
proof -
  let ?ctx = "context_cache s"
  let ?v = "bc_context_to_verify_block ?ctx"
  define vms where "vms = (if hardfork_version (header blk) < 12 then mret [] else current_rx_vms new_vm db)"
  define rest :: "(nat \<times> 'vm) list \<Rightarrow> ('vm context_task, extended_consensus_error, verified_block) action" where "rest machines =
     mbind (mresult (from_block_error
       (prepared_block_new V blk (map_option vm_hash (map_of machines (randomx_seed_height (chain_height ?v))))))) (\<lambda>prepped.
     mbind (mresult (from_block_error (no_panic (check_block_pow (pb_pow_hash prepped) (next_difficulty ?v))))) (\<lambda>_.
     mbind (mresult (no_panic (pull_ordered_transactions (pb_block prepped) txs))) (\<lambda>ordered_txs.
     mbind (mget context_cache) (\<lambda>ctx.
     mbind (mlift (verify_prepped_main_chain_block V now ctx prepped ordered_txs db None)) (\<lambda>(b, _). mret b)))))" for machines
  have run: "mbind vms rest s = Some (s', r)"
    using run by (simp only: verify_main_chain_block_def vms_def rest_def [abs_def] Let_def mbind_simps)
  obtain s1 q where s1: "vms s = Some (s1, q)"
    using run by (auto simp: mbind_def split: option.splits)
  have "node_sync io cfg bs t s1 \<and> context_cache s1 = ?ctx"
    using s1 sync current_rx_vms_sync [of new_vm db s s1 q] by (auto simp: vms_def split: if_splits)
  moreover have "s' = s1"
    using run s1
    by (auto simp: rest_def mbind_def mget_def mresult_def mlift_def mret_def split: option.splits sum.splits)
  moreover have "\<exists>vm prepped ordered c. prepared_block_new V blk vm = Ok prepped \<and> pull_ordered_transactions blk txs = Ok ordered \<and>
       verify_prepped_main_chain_block V now ?ctx prepped ordered db None = Some (Ok (b, c))" if r: "r = Ok b" for b
  proof -
    obtain vm prepped ordered c where "prepared_block_new V blk vm = Ok prepped" "pull_ordered_transactions (pb_block prepped) txs = Ok ordered"
        "verify_prepped_main_chain_block V now (context_cache s1) prepped ordered db None = Some (Ok (b, c))"
      using run s1 unfolding r by (auto simp: rest_def mbind_eq_Ok action_eq_Ok no_panic_eq)
    then show ?thesis
      using calculation prepared_block_fields by metis
  qed
  ultimately show ?thesis
    by blast
qed

lemma pull_in_order_from: "pull_in_order hs m = Ok txs \<Longrightarrow> set txs \<subseteq> snd ` set m"
proof (induction hs arbitrary: m txs)
  case (Cons h hs)
  then obtain tx rest where *: "map_of m h = Some tx" "pull_in_order hs (filter (\<lambda>p. fst p \<noteq> h) m) = Ok rest" "txs = tx # rest"
    by (auto simp: and_then_eq_Inr ok_or_eq_Inr)
  have "tx \<in> snd ` set m"
    using map_of_SomeD [OF *(1)] by force
  then show ?case
    using Cons.IH [OF *(2)] *(3) by auto
qed simp

lemma pulled_honest: "pull_ordered_transactions blk m = Ok txs \<Longrightarrow> list_all (\<lambda>p. honest V (snd p)) m \<Longrightarrow> list_all (honest V) txs"
  using pull_in_order_from [of "transactions blk" m txs] by (fastforce simp: pull_ordered_transactions_def list_all_iff split: if_splits)

lemma incoming_block_ok:
  fixes m :: "'vm manager"
  assumes cfg: "config_ok cfg" and sync: "node_sync (vcodecs V) cfg bs (mg_tables m) (mg_context m)"
    and top: "previous (header blk) = top_hash (bc_context_to_verify_block (the_context m))"
    and honest: "list_all (\<lambda>p. honest V (snd p)) txs"
    and stores: "\<And>vm prepped ordered b c. prepared_block_new V blk vm = Ok prepped \<Longrightarrow> pull_ordered_transactions blk txs = Ok ordered \<Longrightarrow>
      verify_prepped_main_chain_block V now (the_context m) prepped ordered (store_db (vcodecs V, mg_tables m)) None = Some (Ok (b, c)) \<Longrightarrow>
      storage_accepts (vcodecs V) b (mg_tables m)"
    and run: "handle_incoming_block V vm_hash new_vm alt_id pop_id undo_id now blk txs m = Some (m', r)" "r \<noteq> Err Panic"
  shows "(\<exists>e. r = Err (Fault e)) \<and> node_sync (vcodecs V) cfg bs (mg_tables m') (mg_context m') \<and> mg_tables m' = mg_tables m \<and> mg_sent m' = mg_sent m \<or>
    (\<exists>b spent. r = Ok AddedToMainChain \<and> vb_block b = blk \<and> node_sync (vcodecs V) cfg (bs @ [b]) (mg_tables m') (mg_context m') \<and>
       mg_sent m' = mg_sent m @ [PoolNewBlock spent, BroadcastBlock (block_serialize (vcodecs V) blk) (Suc (length bs))])"
proof -
  let ?db = "store_db (vcodecs V, mg_tables m)"
  obtain s1 q where s1: "verify_main_chain_block V vm_hash new_vm now blk txs ?db (mg_context m) = Some (s1, q)"
    using run(1) top by (auto simp: handle_incoming_block_def mbind_def on_context_def mget_def simp del: store_db.simps split: option.splits)
  note verified = verify_main_chain_block_ok [OF s1 sync]
  let ?m1 = "m\<lparr>mg_context := s1\<rparr>"
  consider "q = Inl Panic" | e where "q = Inl (Fault e)" | b where "q = Inr b"
    by (metis sum.exhaust fault.exhaust)
  then show ?thesis
  proof cases
    case (3 b)
    then obtain vm prepped ordered c where p: "prepared_block_new V blk vm = Ok prepped" "pull_ordered_transactions blk txs = Ok ordered"
        "verify_prepped_main_chain_block V now (the_context m) prepped ordered ?db None = Some (Ok (b, c))"
      using verified by blast
    have blk: "pb_block prepped = blk" "vb_block b = blk" "vb_block_blob b = block_serialize (vcodecs V) blk"
      using prepared_block_fields [OF p(1)] verify_prepped_ok [OF p(3)] by metis+
    have "block_addable (vcodecs V) b (mg_tables m) \<and> follows cfg bs b"
      by (rule verified_block_ok [OF sync p(3) pulled_honest [OF p(2) honest] stores [OF p(1,2,3)]])
    then have addable: "block_addable (vcodecs V) b (mg_tables ?m1)" "fork_ok cfg bs b"
      by (simp_all add: follows_def)
    have sync1: "node_sync (vcodecs V) cfg bs (mg_tables ?m1) (mg_context ?m1)"
      using verified by simp
    obtain m2 spent where m2: "add_valid_block_to_main_chain new_vm (vcodecs V) pop_id b ?m1 = Some (m2, Ok () :: manager_error fault + unit)"
        "node_sync (vcodecs V) cfg (bs @ [b]) (mg_tables m2) (mg_context m2)" "mg_sent m2 = mg_sent m @ [PoolNewBlock spent]"
      using add_valid_block_ok [OF cfg sync1 addable, of new_vm pop_id] by auto
    have "context_height m2 = Suc (length bs)"
      using context_at_height [OF node_sync_context [OF m2(2)]] by simp
    then have "handle_incoming_block V vm_hash new_vm alt_id pop_id undo_id now blk txs m =
        Some (m2\<lparr>mg_sent := mg_sent m2 @ [BroadcastBlock (block_serialize (vcodecs V) blk) (Suc (length bs))]\<rparr>, Ok AddedToMainChain)"
      using top s1 3 m2(1) blk(3)
      by (simp add: handle_incoming_block_def on_context_def mbind_def mget_def from_fault_def broadcast_block_def send_def mret_def
          del: store_db.simps)
    then show ?thesis
      using run(1) m2(2,3) blk(2) by auto
  qed (use run top s1 verified in \<open>auto simp: handle_incoming_block_def on_context_def mbind_def mget_def from_fault_def simp del: store_db.simps\<close>)
qed

subsection \<open>Fast sync\<close>

text \<open>The blocks that fast sync computes from a batch, each from the context of the chain below it.\<close>

fun fast_follows :: "'p verifier \<Rightarrow> context_config \<Rightarrow> verified_block list \<Rightarrow> block_batch \<Rightarrow> verified_block list \<Rightarrow> bool" where
  "fast_follows V cfg bs [] news \<longleftrightarrow> news = []"
| "fast_follows V cfg bs ((blk, txs) # batch) news \<longleftrightarrow>
     (case news of
        [] \<Rightarrow> False
      | b # news \<Rightarrow>
          (case context_at cfg bs of None \<Rightarrow> False | Some ctx \<Rightarrow> block_to_verified_block_information V blk txs ctx = Some b) \<and>
          fork_ok cfg bs b \<and> fast_follows V cfg (bs @ [b]) batch news)"

lemma in_step_context: "in_step cfg bs s \<Longrightarrow> context_at cfg bs = Some (context_cache s)"
  by (auto simp: in_step_def in_sync_def context_at_def Let_def)

lemma fast_sync_blocks_ok:
  fixes m :: "'vm manager"
  assumes "config_ok cfg" "in_step cfg bs (mg_context m)" "bs \<noteq> []" "headers_readable bs" "length (bs @ news) \<le> 2 ^ 32"
    and "fast_follows V cfg bs batch news"
  shows "\<exists>s. fast_sync_blocks V new_vm batch valid m = Some (m\<lparr>mg_context := s\<rparr>, Ok (valid @ news) :: 'e fault + verified_block list) \<and>
    in_step cfg (bs @ news) s \<and> headers_readable (bs @ news)"
  using assms(2-)
proof (induction batch arbitrary: bs news valid m)
  case Nil
  then show ?case
    by (intro exI [of _ "mg_context m"]) simp
next
  case (Cons x batch)
  obtain blk txs where x: "x = (blk, txs)"
    by (cases x)
  obtain b news' where news: "news = b # news'" "block_to_verified_block_information V blk txs (the_context m) = Some b" "fork_ok cfg bs b"
      "fast_follows V cfg (bs @ [b]) batch news'"
    using Cons.prems(5) in_step_context [OF Cons.prems(1)] by (auto simp: x split: list.splits)
  have "vb_height b = chain_height (bc_context_to_verify_block (the_context m))"
    using news(2) by (auto simp: block_to_verified_block_information_def Let_def bind_eq_Some_conv split: list.splits input.splits if_splits)
  then have height: "vb_height b = length bs" "length bs < 2 ^ 32"
    using context_at_height [OF in_step_context [OF Cons.prems(1)]] Cons.prems(4) news(1) by simp_all
  obtain s' where s': "context_update (new_block_data_of b) (mg_context m) = Some (s', Ok CtxOk)" "in_step cfg (bs @ [b]) s'"
    using context_update_ok [OF assms(1) Cons.prems(1-3) news(3) height] by blast
  then have "add_valid_block_to_blockchain_cache new_vm (vcodecs V) b m = Some (m\<lparr>mg_context := s'\<rparr>, Ok () :: 'e fault + unit)"
    by (simp add: add_valid_block_to_blockchain_cache_def mbind_def context_call_def handle_req_def mexpect_def mret_def)
  moreover obtain s where "fast_sync_blocks V new_vm batch (valid @ [b]) (m\<lparr>mg_context := s'\<rparr>) =
        Some (m\<lparr>mg_context := s\<rparr>, Ok ((valid @ [b]) @ news') :: 'e fault + verified_block list)"
      "in_step cfg ((bs @ [b]) @ news') s" "headers_readable ((bs @ [b]) @ news')"
    using Cons.IH [of "bs @ [b]" "m\<lparr>mg_context := s'\<rparr>" news' "valid @ [b]"] s'(2) news Cons.prems(3,4) fork_ok_readable [OF news(3)] by auto
  ultimately show ?case
    using news by (auto simp: x mbind_def mget_def mopt_def)
qed

lemma write_blocks_built:
  assumes "built io (bs @ news) u" "built io bs (flush_alt_blocks t)"
  shows "\<exists>t'. write_blocks io news t = Ok t' \<and> built io (bs @ news) (flush_alt_blocks t')"
  using assms
proof (induction news arbitrary: bs t)
  case (Cons b news)
  have b: "block_addable io b t"
    using built_next_addable [of io bs b news u] Cons.prems by simp
  have "db_ok t"
    using built_ok [OF Cons.prems(2)] by (simp add: flush_with_alts)
  then obtain t1 where t1: "add_block io b t = Ok t1"
    using add_block_eq [OF _ b] by blast
  then have "built io (bs @ [b]) (flush_alt_blocks t1)"
    using Cons.prems(2) b by (intro built_add [of io bs "flush_alt_blocks t"]) (simp_all add: flush_with_alts add_block_alts)
  then show ?case
    using Cons.IH [of "bs @ [b]" t1] Cons.prems(1) t1 by simp
qed simp

lemma fast_sync_batch_ok:
  fixes m :: "'vm manager"
  assumes cfg: "config_ok cfg" and sync: "node_sync (vcodecs V) cfg bs (mg_tables m) (mg_context m)"
    and follows: "fast_follows V cfg bs batch news" and built: "built (vcodecs V) (bs @ news) u"
  shows "\<exists>m'. handle_incoming_block_batch_fast_sync V new_vm pop_id batch m = Some (m', Ok () :: 'e fault + unit) \<and>
    node_sync (vcodecs V) cfg (bs @ news) (mg_tables m') (mg_context m') \<and> mg_sent m' = mg_sent m"
proof -
  note at = sync [unfolded node_sync_def]
  obtain s where s: "fast_sync_blocks V new_vm batch [] m = Some (m\<lparr>mg_context := s\<rparr>, Ok news :: 'e fault + verified_block list)"
      "in_step cfg (bs @ news) s" "headers_readable (bs @ news)"
    using fast_sync_blocks_ok [OF cfg _ _ _ _ follows, of m new_vm "[]"] at built_length [OF built] by (auto simp: in_step_def)
  obtain t where t: "write_blocks (vcodecs V) news (mg_tables m) = Ok t" "built (vcodecs V) (bs @ news) (flush_alt_blocks t)"
    using write_blocks_built [OF built] at by blast
  have "node_sync (vcodecs V) cfg (bs @ news) t s"
    using s(2,3) t(2) at by (simp add: node_sync_def in_step_def)
  moreover have "handle_incoming_block_batch_fast_sync V new_vm pop_id batch m =
      Some (m\<lparr>mg_context := s, mg_tables := t\<rparr>, Ok () :: 'e fault + unit)"
    using s(1) t(1)
    by (simp add: handle_incoming_block_batch_fast_sync_def mbind_def batch_add_valid_block_to_blockchain_database_def db_write_def
        handle_blockchain_request_def run_transaction_def mexpect_def mret_def)
  ultimately show ?thesis
    by simp
qed

text \<open>
  A batch that full verification accepts: each block, with its transactions put into order, passes verification against the context and
  the tables of the chain below it, and storage takes it.
\<close>

inductive verifies_batch :: "'p verifier \<Rightarrow> context_config \<Rightarrow> verified_block list \<Rightarrow> block_batch \<Rightarrow> verified_block list \<Rightarrow> bool" for V cfg where
  verifies_empty: "verifies_batch V cfg bs [] []"
| verifies_block: "context_at cfg bs = Some ctx \<Longrightarrow> built (vcodecs V) bs (flush_alt_blocks t) \<Longrightarrow>
    collect_results (new_tx_verification_data V) txs = Ok data \<Longrightarrow> order_transactions blk data = Ok ordered \<Longrightarrow>
    prepared_block_new V blk vm = Ok prepped \<Longrightarrow>
    verify_prepped_main_chain_block V now ctx prepped ordered (store_db (vcodecs V, t)) None = Some (Ok (b, c)) \<Longrightarrow>
    storage_accepts (vcodecs V) b t \<Longrightarrow> verifies_batch V cfg (bs @ [b]) batch news \<Longrightarrow>
    verifies_batch V cfg bs ((blk, txs) # batch) (b # news)"

lemma fast_follows_cong:
  "map (restored io) bs = map (restored io) bs' \<Longrightarrow> fast_follows V cfg bs batch news \<longleftrightarrow> fast_follows V cfg bs' batch news"
proof (induction batch arbitrary: bs bs' news)
  case (Cons x batch)
  have "fork_ok cfg bs b = fork_ok cfg bs' b" for b
    using restored_cong(1) [OF Cons.prems] by (simp add: fork_ok_def)
  then show ?case
    using Cons.IH [of "bs @ [_]" "bs' @ [_]"] Cons.prems restored_cong(2) [OF Cons.prems]
    by (cases x) (simp split: list.splits option.splits)
qed simp

lemma order_transactions_set: "order_transactions blk txs = Ok txs' \<Longrightarrow> set txs' = set txs"
  using order_from_spec [of 0 "transactions blk" txs txs'] mset_eq_setD by (auto simp: order_transactions_def split: if_splits)

lemma verified_is_restored:
  assumes "prepared_block_new V blk vm = Ok prepped"
    and "verify_prepped_main_chain_block V now ctx prepped txs db None = Some (Ok (b, c))"
  shows "b\<lparr>vb_pow_hash := replicate 32 255\<rparr> = restored (vcodecs V) b"
proof -
  have "vb_block_blob b = block_serialize (vcodecs V) (vb_block b)"
    using prepared_block_fields [OF assms(1)] verify_prepped_ok [OF assms(2)] by metis
  then show ?thesis
    by (cases b) (simp add: restored_def)
qed

lemma verifies_batch_ok:
  assumes "verifies_batch V cfg bs batch news" "built (vcodecs V) bs u" "headers_readable bs"
  shows "(\<exists>u. built (vcodecs V) (bs @ news) u) \<and> fast_follows V cfg bs batch (map (restored (vcodecs V)) news)"
  using assms
proof (induction arbitrary: u rule: verifies_batch.induct)
  case (verifies_block bs ctx t txs data blk ordered vm prepped now b c batch news)
  let ?io = "vcodecs V"
  have t: "chain_height_of t = length bs" "db_ok t"
    using built_holds_alts [OF verifies_block.hyps(2) verifies_block.prems(2)] by blast+
  have "list_all (honest V) ordered"
    using new_data_honest [OF verifies_block.hyps(3)] order_transactions_set [OF verifies_block.hyps(4)] by (simp add: list_all_iff)
  then have b: "block_addable ?io b t" "follows cfg bs b"
    using verified_block_at [OF verifies_block.hyps(1) t(1) verifies_block.hyps(6)] verifies_block.hyps(7) by blast+
  then obtain t' where "add_block ?io b t = Ok t'"
    using add_block_eq [OF t(2) b(1)] by blast
  then have "built ?io (bs @ [b]) (flush_alt_blocks t')"
    using verifies_block.hyps(2) b(1) by (intro built_add [of _ bs "flush_alt_blocks t"]) (simp_all add: flush_with_alts add_block_alts)
  moreover have "headers_readable (bs @ [b])"
    using verifies_block.prems(2) b(2) fork_ok_readable [of cfg bs b] by (simp add: follows_def)
  ultimately have rest: "\<exists>u. built ?io ((bs @ [b]) @ news) u" "fast_follows V cfg (bs @ [b]) batch (map (restored ?io) news)"
    using verifies_block.IH by blast+
  have "fast_follows V cfg (bs @ [restored ?io b]) batch (map (restored ?io) news)"
    using rest(2) fast_follows_cong [of ?io "bs @ [b]" "bs @ [restored ?io b]" V] by simp
  moreover have "block_to_verified_block_information V blk txs ctx = Some (restored ?io b)"
    using fast_sync_agrees [OF verifies_block.hyps(3-6)] verified_is_restored [OF verifies_block.hyps(5,6)] by simp
  ultimately show ?case
    using rest(1) verifies_block.hyps(1) b(2) by (simp add: follows_def)
qed auto

lemma fast_sync_verified_batch:
  fixes m :: "'vm manager"
  assumes cfg: "config_ok cfg" and sync: "node_sync (vcodecs V) cfg bs (mg_tables m) (mg_context m)" and batch: "verifies_batch V cfg bs batch news"
  shows "\<exists>m'. handle_incoming_block_batch_fast_sync V new_vm pop_id batch m = Some (m', Ok () :: 'e fault + unit) \<and>
    node_sync (vcodecs V) cfg (bs @ news) (mg_tables m') (mg_context m') \<and> mg_sent m' = mg_sent m"
proof -
  let ?news = "map (restored (vcodecs V)) news"
  have same: "map (restored (vcodecs V)) (bs @ ?news) = map (restored (vcodecs V)) (bs @ news)"
    by simp
  obtain u where "built (vcodecs V) (bs @ news) u" and follows: "fast_follows V cfg bs batch ?news"
    using verifies_batch_ok [OF batch] sync by (auto simp: node_sync_def)
  then have "built (vcodecs V) (bs @ ?news) u"
    using restored_cong(3) [OF same] by blast
  from fast_sync_batch_ok [OF cfg sync follows this] show ?thesis
    using node_sync_cong [OF same] by blast
qed

subsection \<open>Runs of the node\<close>

text \<open>
  The states that a node reaches: it starts by initialising the context from its tables, blocks are added one at a time or as a
  fast-synced batch, and runs of blocks are popped.
\<close>

inductive node_run :: "(bytes \<Rightarrow> 'vm option) \<Rightarrow> 'p verifier \<Rightarrow> context_config \<Rightarrow> verified_block list \<Rightarrow> 'vm manager \<Rightarrow> bool" for new_vm V cfg where
  run_start: "built (vcodecs V) bs (flush_alt_blocks (mg_tables m)) \<Longrightarrow> bs \<noteq> [] \<Longrightarrow> headers_readable bs \<Longrightarrow>
    init_context new_vm cfg (store_db (vcodecs V, mg_tables m)) = cok (mg_context m) \<Longrightarrow> node_run new_vm V cfg bs m"
| run_add: "node_run new_vm V cfg bs m \<Longrightarrow> block_addable (vcodecs V) b (mg_tables m) \<Longrightarrow> fork_ok cfg bs b \<Longrightarrow>
    add_valid_block_to_main_chain new_vm (vcodecs V) rid b m = Some (m', Ok () :: manager_error fault + unit) \<Longrightarrow>
    node_run new_vm V cfg (bs @ [b]) m'"
| run_batch: "node_run new_vm V cfg bs m \<Longrightarrow> verifies_batch V cfg bs batch news \<Longrightarrow>
    handle_incoming_block_batch_fast_sync V new_vm rid batch m = Some (m', Ok () :: manager_error fault + unit) \<Longrightarrow>
    node_run new_vm V cfg (bs @ news) m'"
| run_pop: "node_run new_vm V cfg (bs @ bs') m \<Longrightarrow> poppable (vcodecs V) cfg bs bs' \<Longrightarrow> c \<noteq> 0 \<Longrightarrow>
    manager_pop_blocks new_vm (vcodecs V) c (length bs') m = Some (m', Ok c :: manager_error fault + nat) \<Longrightarrow>
    node_run new_vm V cfg bs m'"

lemma node_run_sync:
  assumes "config_ok cfg" "\<forall>seed. new_vm seed \<noteq> None" "node_run new_vm V cfg bs m"
  shows "node_sync (vcodecs V) cfg bs (mg_tables m) (mg_context m)"
  using assms(3)
proof (induction rule: node_run.induct)
  case (run_start bs m)
  have "length bs < 2 ^ 64"
    using built_length [OF run_start(1)] by simp
  then show ?case
    using node_start [OF assms(1) run_start(1-3) _ assms(2)] run_start(4) by (auto simp: cok_def)
next
  case (run_add bs m b rid m')
  then show ?case
    using add_valid_block_ok [where 'e = manager_error, OF assms(1) run_add.IH run_add.hyps(2,3), of new_vm rid] by auto
next
  case (run_batch bs m batch news rid m')
  then show ?case
    using fast_sync_verified_batch [where 'e = manager_error, OF assms(1) run_batch.IH run_batch.hyps(2), of new_vm rid] by auto
next
  case (run_pop bs bs' m c m')
  then show ?case
    using manager_pop_ok [where 'e = manager_error, OF assms(1) run_pop.IH run_pop.hyps(2,3), of new_vm] by auto
qed

end
