(* ===== verification/Node_Properties.thy ===== *)
theory Node_Properties
  imports Node_Laws
begin

text \<open>
  A concrete node for the properties of theory \<open>Node_Laws\<close>: a genesis block, and a block that follows it on the main network and passes
  verification.
\<close>

definition node_miner :: "nat \<Rightarrow> nat \<Rightarrow> transaction" where
  "node_miner height reward =
     TxV1 \<lparr>additional_timelock = TBlock (height + 60), inputs = [Gen height],
           outputs = [\<lparr>amount = Some reward, out_key = [1], view_tag = None\<rparr>], extra = [of_nat height]\<rparr> []"

definition node_header :: "nat \<Rightarrow> nat \<Rightarrow> bytes \<Rightarrow> block_header" where
  "node_header time signal prev = \<lparr>hardfork_version = 1, hardfork_signal = signal, hdr_timestamp = time, previous = prev, nonce = 0\<rparr>"

definition node_genesis :: verified_block where
  "node_genesis =
     \<lparr>vb_block = \<lparr>header = node_header 100 1 [0], miner_transaction = node_miner 0 5, transactions = []\<rparr>,
      vb_block_blob = [3], vb_txs = [], vb_hash = [5], vb_pow_hash = [], vb_height = 0, vb_generated_coins = 5, vb_weight = 100, vb_long_term_weight = 100,
      vb_cumulative_difficulty = 1\<rparr>"

definition node_reward :: nat where
  "node_reward = 17592186044415"

definition node_next :: block where
  "node_next = \<lparr>header = node_header 200 2 [5], miner_transaction = node_miner 1 node_reward, transactions = []\<rparr>"

text \<open>A block of an unknown fork.\<close>

definition node_unknown :: block where
  "node_unknown =
     \<lparr>header = \<lparr>hardfork_version = 99, hardfork_signal = 1, hdr_timestamp = 300, previous = [5], nonce = 0\<rparr>,
      miner_transaction = node_miner 1 7, transactions = []\<rparr>"

definition node_codecs :: codecs where
  "node_codecs =
     \<lparr>header_serialize = (\<lambda>h. if previous h = [5] then [1] else [0]),
      header_read = (\<lambda>b. Some (if b = [1] then node_header 200 2 [5] else node_header 100 1 [0])),
      tx_serialize = (\<lambda>tx. extra (prefix tx)), tx_read = (\<lambda>b. Some (if b = [1] then node_miner 1 node_reward else node_miner 0 5)),
      tx_hash_of = (\<lambda>tx. 10 # extra (prefix tx)), tx_weight_of = (\<lambda>_. 80), tx_version_of = (\<lambda>_. 1),
      block_serialize = (\<lambda>b. if hardfork_version (header b) = 99 then [9] else [3]), block_read = (\<lambda>b. Some (if b = [9] then node_unknown else node_next)),
      block_new = (\<lambda>h m txs. Some \<lparr>header = h, miner_transaction = m, transactions = txs\<rparr>),
      zero_commitment = (\<lambda>_. []), varint_write = (\<lambda>n. [of_nat n])\<rparr>"

definition node_verifier :: "int verifier" where
  "node_verifier =
     \<lparr>rules = sample_oxide, vcodecs = node_codecs, calculate_clawback = (\<lambda>_ _. 0), statement_valid = (\<lambda>_ _. True),
      block_hash_of = (\<lambda>b. if previous (header b) = [5] then [6] else [5]), serialize_pow_hash = (\<lambda>_. [4]),
      pow_functions = \<lparr>cryptonight_hash_v0 = (\<lambda>_. [1]), cryptonight_hash_v1 = (\<lambda>_. None), cryptonight_hash_v2 = (\<lambda>_. [1]),
        cryptonight_hash_r = (\<lambda>_ _. [1])\<rparr>\<rparr>"

definition node_ctx :: blockchain_context where
  "node_ctx =
     \<lparr>bc_cumulative_difficulty = 1,
      bc_context_to_verify_block =
        \<lparr>median_weight_for_block_reward = 20000, effective_median_weight = 20000, top_hash = [5], median_block_timestamp = None, chain_height = 1,
         current_hf = V1, next_difficulty = 1, already_generated_coins = 5\<rparr>,
      bc_median_long_term_weight = 100, bc_top_block_timestamp = None\<rparr>"

lemma main_net_first_fork: "max V1 (fork_at_height hfs_main_net 1) = V1"
  by (simp add: fork_at_height_def VARIANTS_def hfs_main_net_def info_for_hf_def hf_info_new_def hard_fork_order max_def)

lemma node_fork: "current_hardfork (hard_fork_at (hard_fork_cfg context_main_net) (headers_of [node_genesis])) = V1"
  using main_net_first_fork from_version_as_u8 [of V1]
  by (simp add: hard_fork_at_def context_main_net_def hard_fork_main_net_def current_fork_by_height network_tables headers_of_def header_of_def
      node_genesis_def node_header_def)

lemma node_context: "context_at context_main_net [node_genesis] = Some node_ctx"
  unfolding context_at_def Let_def node_fork
  by (simp add: build_blockchain_context_def context_main_net_def node_ctx_def weights_at_def difficulty_at_def rm_of_def headers_of_def header_of_def
      node_genesis_def median_for_block_reward_def median_short_term_weight_def rm_median_def hard_fork_order last_n_def weights_main_net_def
      difficulty_main_net_def median_def penalty_free_zone_def PENALTY_FREE_ZONE_1_def effective_median_block_weight_def
      median_long_term_weight_def calculate_effective_median_block_weight_def median_timestamp_def BLOCKCHAIN_TIMESTAMP_CHECK_WINDOW_def
      checked_sub_def difficulty_next_difficulty_def next_difficulty_in_def cumulative_difficulty_def last_or_one_def hash_at_def coins_after_def
      top_block_timestamp_def wadd_def SHORT_TERM_WINDOW_def LONG_TERM_WINDOW_def)

definition node_prepped :: prepared_block where
  "node_prepped =
     \<lparr>pb_block = node_next, pb_blob = [3], pb_hf_vote = V2, pb_hf_version = V1, pb_hash = [6], pb_pow_hash = [1], pb_miner_tx_weight = 80\<rparr>"

definition node_block :: verified_block where
  "node_block =
     \<lparr>vb_block = node_next, vb_block_blob = [3], vb_txs = [], vb_hash = [6], vb_pow_hash = [1], vb_height = 1, vb_generated_coins = node_reward, vb_weight = 80,
      vb_long_term_weight = 80, vb_cumulative_difficulty = 2\<rparr>"

lemma node_prepped: "prepared_block_new node_verifier node_next vm = Ok node_prepped"
  by (simp add: from_version_def from_repr_def VARIANTS_def prepared_block_new_def node_verifier_def node_next_def node_header_def node_miner_def node_prepped_def from_block_header_def
      from_vote_def calculate_pow_hash_def hard_fork_order node_codecs_def)

lemma node_miner_Ok: "check_miner_tx sample_oxide (node_miner 1 node_reward) 0 1 80 20000 5 V1 = Ok node_reward"
  by (simp add: check_miner_tx_def node_miner_def node_reward_def sample_oxide_def tx_version_from_raw_def check_miner_tx_version_def
      check_time_lock_def MINER_TX_TIME_LOCKED_BLOCKS_def wadd_def MAX_BLOCK_HEIGHT_USIZE_def check_inputs_def
      check_output_types_def hard_fork_order calculate_block_reward_def calculate_base_reward_eq miner_sum_outputs_def
      checked_add_def check_total_output_amt_def Let_def)

lemma node_check_block:
  "check_block sample_oxide 1000 node_next 0 80 1 (bc_context_to_verify_block node_ctx) = Ok (V2, node_reward)"
  using node_miner_Ok
  by (simp add: check_block_def node_next_def node_ctx_def node_header_def from_block_header_def from_version_def from_repr_def
      from_vote_def VARIANTS_def check_block_version_vote_def hard_fork_order check_timestamp_def wadd_def
      BLOCK_FUTURE_TIME_LIMIT_def check_prev_id_def check_block_weight_def wmul_def block_size_sanity_check_def
      BLOCK_SIZE_SANITY_LEEWAY_def check_amount_txs_def check_txs_unique_def from_miner_tx_error_def)

lemma node_verified:
  "verify_prepped_main_chain_block node_verifier 1000 node_ctx node_prepped [] db None = Some (Ok (node_block, None))"
proof -
  have "check_block_pow [1] 1 = Ok ()"
    by (simp add: check_block_pow_def u256_checked_mul_def)
  then show ?thesis
    using node_check_block
    by (simp add: verify_prepped_main_chain_block_def Let_def cbind_def cok_def from_block_error_def no_panic_def node_prepped_def node_ctx_def verify_block_txs_def sum_u64_def
        node_next_def node_verifier_def node_block_def next_block_long_term_weight_def calculate_block_long_term_weight_def hard_fork_order wadd_def)
qed

lemma node_genesis_addable: "block_addable node_codecs node_genesis empty_tables"
  by (simp add: store_eval node_genesis_def node_codecs_def node_miner_def node_header_def)

definition node_tables :: tables where
  "node_tables = empty_tables
     \<lparr>block_header_blobs := [(0, [0])], block_txs_hashes := [(0, [])], block_heights := [([5], 0)],
      block_infos := [(0, info_of node_genesis 0 0 0)], num_outputs := [(5, 1)],
      outputs_table := [((5, 0), \<lparr>do_key = [1], do_height = 0, non_zero_unlock_time = True, do_tx_idx = 0\<rparr>)],
      tx_blobs := [(0, [0])], tx_ids := [([10, 0], 0)], tx_heights := [(0, 0)], tx_outputs := [(0, [0])], tx_unlock_time := [(0, 60)]\<rparr>"

lemmas node_defs = node_genesis_def node_codecs_def node_miner_def node_header_def node_next_def node_tables_def node_block_def node_reward_def

lemma node_genesis_added: "add_block node_codecs node_genesis empty_tables = Ok node_tables"
  by (simp add: add_block_def add_tx_def store_eval get_num_tx_def tbl_put_def cumulative_generated_coins_at_def tbl_get_def info_of_def
      split_u128_into_low_high_bits_def node_defs add_output_def get_rct_num_outputs_def)

lemma node_tables_built: "built node_codecs [node_genesis] node_tables"
  using built_add [OF built_empty node_genesis_addable node_genesis_added] by simp

lemma node_block_storable: "storage_accepts node_codecs node_block node_tables"
  by (simp add: storage_accepts_def store_eval node_defs)

lemma node_started:
  "\<exists>s :: bytes context_task. init_context Some context_main_net (store_db (node_codecs, node_tables)) = cok s \<and>
     node_sync node_codecs context_main_net [node_genesis] node_tables s \<and> context_cache s = node_ctx"
proof -
  have "flush_alt_blocks node_tables = node_tables" "headers_readable [node_genesis]"
    using built_no_alts [OF node_tables_built] from_version_as_u8 [of V1]
    by (simp_all add: headers_readable_def node_genesis_def node_header_def is_ok_iff)
  then obtain s :: "bytes context_task" where s: "init_context Some context_main_net (store_db (node_codecs, node_tables)) = cok s"
      "node_sync node_codecs context_main_net [node_genesis] node_tables s"
    using node_start [OF config_ok_networks(1), of node_codecs "[node_genesis]" node_tables "Some :: bytes \<Rightarrow> bytes option"] node_tables_built
    by auto
  then show ?thesis
    using node_sync_context [OF s(2)] node_context by auto
qed

lemma node_vcodecs [simp]: "vcodecs node_verifier = node_codecs"
  by (simp add: node_verifier_def)

lemma node_block_ok:
  assumes "node_sync node_codecs context_main_net [node_genesis] node_tables s" "context_cache s = node_ctx"
  shows "block_addable node_codecs node_block node_tables" "follows context_main_net [node_genesis] node_block"
  using verified_block_ok [OF assms(1), of node_verifier 1000 node_prepped "[]" node_block None] node_verified node_block_storable
  by (simp_all add: assms(2))

subsection \<open>Properties\<close>

text \<open>
  C10: the context task follows the database through every run. A node starts by initialising the context from its tables; after any
  sequence of blocks added, batches fast-synced and runs of blocks popped, its context task holds what initialising the context from the
  tables of that moment gives: the same context, caches of difficulties, weights, votes and seeds, height, top hash and coins. The steps of
  a run have conditions: an added block is storable and declares the current fork, a batch is one that full verification accepts, and a
  pop is one for which \<open>poppable\<close> holds: the window of votes is not full or the votes are settled, and the new top is not a seed block of
  the epoch left. Every virtual machine can be made.
\<close>

theorem context_is_that_of_the_database:
  fixes new_vm :: "bytes \<Rightarrow> 'vm option"
  assumes "config_ok cfg" "\<forall>seed. new_vm seed \<noteq> None" "node_run new_vm V cfg bs m"
  shows "\<exists>s'. init_context new_vm cfg (store_db (vcodecs V, mg_tables m)) = cok s' \<and> same_context (mg_context m) s'"
proof -
  have sync: "node_sync (vcodecs V) cfg bs (mg_tables m) (mg_context m)"
    by (rule node_run_sync) (fact assms)+
  then have "length bs < 2 ^ 64"
    using built_length [of "vcodecs V" bs "flush_alt_blocks (mg_tables m)"] by (simp add: node_sync_def)
  then obtain s' where "init_context new_vm cfg (store_db (vcodecs V, mg_tables m)) = cok s'" "node_sync (vcodecs V) cfg bs (mg_tables m) s'"
    using node_start [OF assms(1), of "vcodecs V" bs "mg_tables m" new_vm] sync assms(2) by (auto simp: node_sync_def)
  then show ?thesis
    using sync in_sync_same by (fastforce simp: node_sync_def)
qed

lemma node_poppable: "poppable node_codecs context_main_net [node_genesis] [node_block]"
  by (simp add: poppable_def linked_def alt_movable_def node_defs pops_exactly_def pops_to_own_seed_def context_main_net_def hard_fork_main_net_def DEFAULT_WINDOW_SIZE_def)

text \<open>The node starts, adds the block and pops it.\<close>

lemma node_runs:
  "\<exists>(m0 :: bytes manager) m1 m2. mg_tables m0 = node_tables \<and>
     add_valid_block_to_main_chain Some node_codecs 0 node_block m0 = Some (m1, Ok () :: manager_error fault + unit) \<and>
     manager_pop_blocks Some node_codecs 7 1 m1 = Some (m2, Ok 7 :: manager_error fault + nat) \<and>
     node_run Some node_verifier context_main_net [node_genesis] m2"
proof -
  let ?bs = "[node_genesis]" and ?cfg = context_main_net
  obtain s :: "bytes context_task" where s: "init_context Some ?cfg (store_db (node_codecs, node_tables)) = cok s"
      "node_sync node_codecs ?cfg ?bs node_tables s" "context_cache s = node_ctx"
    using node_started by blast
  define m0 where "m0 = \<lparr>mg_tables = node_tables, mg_context = s, mg_sent = []\<rparr>"
  have m0: "node_sync node_codecs ?cfg ?bs (mg_tables m0) (mg_context m0)" "block_addable node_codecs node_block (mg_tables m0)"
      "fork_ok ?cfg ?bs node_block"
    using s(2) node_block_ok [OF s(2,3)] by (simp_all add: m0_def follows_def)
  have run0: "node_run Some node_verifier ?cfg ?bs m0"
    using s(1,2) by (intro run_start) (simp_all add: m0_def node_sync_def del: store_db.simps)
  obtain m1 where m1: "add_valid_block_to_main_chain Some node_codecs 0 node_block m0 = Some (m1, Ok () :: manager_error fault + unit)"
      "node_sync node_codecs ?cfg (?bs @ [node_block]) (mg_tables m1) (mg_context m1)"
    using add_valid_block_ok [OF config_ok_networks(1) m0, of Some 0] by blast
  have run1: "node_run Some node_verifier ?cfg (?bs @ [node_block]) m1"
    using m1(1) m0(2,3) by (intro run_add [OF run0]) simp_all
  obtain m2 where m2: "manager_pop_blocks Some node_codecs 7 (length [node_block]) m1 = Some (m2, Ok 7 :: manager_error fault + nat)"
    using manager_pop_ok [OF config_ok_networks(1) m1(2) node_poppable, of 7 Some] by auto
  then have "node_run Some node_verifier ?cfg ?bs m2"
    using node_poppable by (intro run_pop [OF run1, of 7]) simp_all
  moreover have "mg_tables m0 = node_tables"
    by (simp add: m0_def)
  ultimately show ?thesis
    using m1(1) m2 by auto
qed

theorem context_is_that_of_the_database_witness:
  "\<exists>(m0 :: bytes manager) m1 m2 s'. mg_tables m0 = node_tables \<and>
     add_valid_block_to_main_chain Some node_codecs 0 node_block m0 = Some (m1, Ok () :: manager_error fault + unit) \<and>
     manager_pop_blocks Some node_codecs 7 1 m1 = Some (m2, Ok 7 :: manager_error fault + nat) \<and>
     init_context Some context_main_net (store_db (node_codecs, mg_tables m2)) = cok s' \<and> same_context (mg_context m2) s'"
proof -
  obtain m0 m1 m2 :: "bytes manager" where m: "mg_tables m0 = node_tables"
      "add_valid_block_to_main_chain Some node_codecs 0 node_block m0 = Some (m1, Ok () :: manager_error fault + unit)"
      "manager_pop_blocks Some node_codecs 7 1 m1 = Some (m2, Ok 7 :: manager_error fault + nat)"
      "node_run Some node_verifier context_main_net [node_genesis] m2"
    using node_runs by blast
  from context_is_that_of_the_database [OF config_ok_networks(1) _ m(4)] m(1-3) show ?thesis
    by (fastforce simp del: store_db.simps)
qed

text \<open>
  C2: an incoming block that names the top of the chain either is rejected, and then the database and the messages sent are untouched
  and the context still belongs to the chain, or it is added: it becomes the top of the chain in the database and in the context, the
  pool is told the spent key images and the block is broadcast with the new height. The hypotheses beyond the node being in sync: the
  recorded states of the given transactions are honest, and storage can hold a block that passed verification.
\<close>

theorem incoming_block_extends_chain:
  fixes m :: "'vm manager"
  assumes "config_ok cfg" "node_sync (vcodecs V) cfg bs (mg_tables m) (mg_context m)"
    and "previous (header blk) = top_hash (bc_context_to_verify_block (the_context m))"
    and "list_all (\<lambda>p. honest V (snd p)) txs"
    and "\<And>vm prepped ordered b c. prepared_block_new V blk vm = Ok prepped \<Longrightarrow> pull_ordered_transactions blk txs = Ok ordered \<Longrightarrow>
      verify_prepped_main_chain_block V now (the_context m) prepped ordered (store_db (vcodecs V, mg_tables m)) None = Some (Ok (b, c)) \<Longrightarrow>
      storage_accepts (vcodecs V) b (mg_tables m)"
    and "handle_incoming_block V vm_hash new_vm alt_id pop_id undo_id now blk txs m = Some (m', r)" "r \<noteq> Err Panic"
  shows "(\<exists>e. r = Err (Fault e)) \<and> node_sync (vcodecs V) cfg bs (mg_tables m') (mg_context m') \<and> mg_tables m' = mg_tables m \<and> mg_sent m' = mg_sent m \<or>
    (\<exists>b spent. r = Ok AddedToMainChain \<and> vb_block b = blk \<and> node_sync (vcodecs V) cfg (bs @ [b]) (mg_tables m') (mg_context m') \<and>
       mg_sent m' = mg_sent m @ [PoolNewBlock spent, BroadcastBlock (block_serialize (vcodecs V) blk) (Suc (length bs))])"
  using assms by (rule incoming_block_ok)

lemma node_verify_main:
  assumes "context_cache s = node_ctx"
  shows "verify_main_chain_block node_verifier vm_hash new_vm 1000 node_next [] db s = Some (s, Ok node_block)"
proof -
  have "hardfork_version (header node_next) < 12" "pull_ordered_transactions node_next [] = Ok []" "pb_block node_prepped = node_next"
    by (simp_all add: node_defs node_prepped_def pull_ordered_transactions_def)
  moreover have "check_block_pow (pb_pow_hash node_prepped) (next_difficulty (bc_context_to_verify_block node_ctx)) = Ok ()"
    by (simp add: node_prepped_def node_ctx_def check_block_pow_def u256_checked_mul_def)
  ultimately show ?thesis
    using node_verified assms
    by (simp add: verify_main_chain_block_def Let_def mbind_def mget_def mret_def mresult_def mlift_def node_prepped no_panic_def from_block_error_def)
qed

theorem incoming_block_extends_chain_witness:
  "\<exists>(m :: bytes manager) m' b spent. mg_tables m = node_tables \<and>
     handle_incoming_block node_verifier (\<lambda>_ _. None) Some 1 2 3 1000 node_next [] m = Some (m', Ok AddedToMainChain) \<and>
     vb_block b = node_next \<and> node_sync node_codecs context_main_net [node_genesis, b] (mg_tables m') (mg_context m') \<and>
     mg_sent m' = [PoolNewBlock spent, BroadcastBlock [3] 2]"
proof -
  obtain s :: "bytes context_task" where s: "node_sync node_codecs context_main_net [node_genesis] node_tables s" "context_cache s = node_ctx"
    using node_started by blast
  define m where "m = \<lparr>mg_tables = node_tables, mg_context = s, mg_sent = []\<rparr>"
  have m: "node_sync (vcodecs node_verifier) context_main_net [node_genesis] (mg_tables m) (mg_context m)" "the_context m = node_ctx"
    using s by (simp_all add: m_def)
  have top: "previous (header node_next) = top_hash (bc_context_to_verify_block (the_context m))"
    by (simp add: m(2) node_ctx_def node_defs)
  obtain m1 where m1: "add_valid_block_to_main_chain Some node_codecs 2 node_block m = Some (m1, Ok () :: manager_error fault + unit)"
    using add_valid_block_ok [OF config_ok_networks(1) m(1), of node_block] node_block_ok [OF s] by (auto simp: follows_def m_def)
  then obtain m' where run: "handle_incoming_block node_verifier (\<lambda>_ _. None) Some 1 2 3 1000 node_next [] m = Some (m', Ok AddedToMainChain)"
    using node_verify_main [OF m(2)] top
    by (simp add: handle_incoming_block_def on_context_def mbind_def mget_def from_fault_def broadcast_block_def send_def mret_def
        del: store_db.simps)
  have stores: "storage_accepts (vcodecs node_verifier) b (mg_tables m)"
    if "prepared_block_new node_verifier node_next vm = Ok prepped" "pull_ordered_transactions node_next [] = Ok ordered"
      "verify_prepped_main_chain_block node_verifier 1000 (the_context m) prepped ordered (store_db (vcodecs node_verifier, mg_tables m)) None = Some (Ok (b, c))"
    for vm prepped ordered b c
  proof -
    have "prepped = node_prepped" "ordered = []"
      using that(1,2) by (simp_all add: node_prepped pull_ordered_transactions_def) (simp add: node_next_def)
    then show ?thesis
      using that(3) node_block_storable node_verified by (simp add: m(2) del: store_db.simps) (simp add: m_def)
  qed
  obtain b spent where "vb_block b = node_next" "node_sync node_codecs context_main_net ([node_genesis] @ [b]) (mg_tables m') (mg_context m')"
      "mg_sent m' = mg_sent m @ [PoolNewBlock spent, BroadcastBlock (block_serialize node_codecs node_next) (Suc (length [node_genesis]))]"
  proof (rule disjE [OF incoming_block_extends_chain [OF config_ok_networks(1) m(1) top _ _ run]])
    show "storage_accepts (vcodecs node_verifier) b (mg_tables m)"
      if "prepared_block_new node_verifier node_next vm = Ok prepped" "pull_ordered_transactions node_next [] = Ok ordered"
        "verify_prepped_main_chain_block node_verifier 1000 (the_context m) prepped ordered (store_db (vcodecs node_verifier, mg_tables m)) None = Some (Ok (b, c))"
      for vm prepped ordered b c
      using that by (rule stores)
  qed (use that in auto)
  moreover have "block_serialize node_codecs node_next = [3]" "mg_tables m = node_tables" "mg_sent m = []"
    by (simp_all add: node_defs m_def)
  ultimately show ?thesis
    using run by (intro exI [of _ m] exI [of _ m'] exI [of _ b] exI [of _ spent]) simp
qed

text \<open>
  C1: a reorganisation that fails is undone. When the alternative chain splits off above \<open>bs\<close> and one of its blocks fails verification,
  whichever and however many were added before it, the handler reports the error and leaves the node with the chain it had, the tables
  exactly those of that chain without alternative blocks, and the context in sync with it.

  The conditions: the blocks \<open>old\<close> that are popped first, and the blocks \<open>new\<close> of the alternative chain that were added before the failure,
  are \<open>poppable\<close>. That is, they are linked and can be moved to an alternative chain, and the context follows their pop exactly: the
  chain is shorter than the window of hard-fork votes or the votes are settled at both ends of the pop, and the new top is not a seed
  block of the epoch left. Outside these conditions the context after a pop differs from that of the shorter chain. The old blocks have the
  fields the context gave them (\<open>follow_all\<close>), and those blocks of the alternative chain that pass verification can be stored
  (\<open>alt_blocks_storable\<close>). The failure is an error of verification, not a panic.
\<close>

theorem failed_reorg_is_undone:
  fixes m :: "'vm manager"
  assumes "config_ok cfg" "node_sync (vcodecs V) cfg (bs @ old) (mg_tables m) (mg_context m)"
    and "poppable (vcodecs V) cfg bs old" "pop_id \<noteq> 0" "undo_id \<noteq> 0" "follow_all cfg bs old"
    and "alt_blocks_in_chain (vcodecs V) (ab_chain_id top_block) (mg_tables m) = Some (Ok alts)" "ab_height (hd (alts @ [top_block])) = length bs"
    and "alt_blocks_storable V now cfg bs (alts @ [top_block])"
    and "\<And>m1. manager_pop_blocks new_vm (vcodecs V) pop_id (length old) m = Some (m1, Ok pop_id :: manager_error fault + nat) \<Longrightarrow>
      \<exists>m2. verify_add_alt_blocks_to_main_chain V new_vm pop_id now (alts @ [top_block]) m1 = Some (m2, Err (Fault e)) \<and>
        (\<forall>new. node_sync (vcodecs V) cfg (bs @ new) (mg_tables m2) (mg_context m2) \<longrightarrow> new = [] \<or> poppable (vcodecs V) cfg bs new)"
  shows "\<exists>m'. try_do_reorg V new_vm pop_id undo_id now top_block m = Some (m', Err (Fault e)) \<and>
    node_sync (vcodecs V) cfg (bs @ old) (mg_tables m') (mg_context m') \<and> mg_tables m' = flush_alt_blocks (mg_tables m)"
  using assms by (rule failed_reorg_ok)

definition node_bad :: verified_block where
  "node_bad =
     \<lparr>vb_block = node_unknown, vb_block_blob = [9], vb_txs = [], vb_hash = [8], vb_pow_hash = replicate 32 255, vb_height = 1, vb_generated_coins = 7, vb_weight = 80,
      vb_long_term_weight = 80, vb_cumulative_difficulty = 2\<rparr>"

definition with_bad_chain :: "tables \<Rightarrow> tables" where
  "with_bad_chain t = t
     \<lparr>alt_chain_infos := [(7, \<lparr>parent_chain = raw_chain Main, common_ancestor_height = 0, aci_chain_height = 2\<rparr>)],
      alt_block_heights := [([8], 7, 1)], alt_blocks_info := [((7, 1), compact_info_of node_bad)], alt_block_blobs := [((7, 1), [9])]\<rparr>"

lemma node_bad_kept: "kept node_codecs 7 1 [node_bad] (with_bad_chain t)"
  by (simp add: kept_def with_bad_chain_def alt_stored_def alt_readable_def alt_movable_def node_bad_def node_unknown_def node_codecs_def)

lemma node_bad_rejected: "new_alt_block node_verifier (alt_of node_codecs 7 node_bad) = Err hard_fork_unknown"
  by (simp add: new_alt_block_def alt_of_def node_bad_def node_unknown_def from_version_def from_repr_def VARIANTS_def)

lemma node_bad_txs: "alt_prepped_txs node_verifier (alt_of node_codecs 7 node_bad) = Ok []"
  by (simp add: alt_prepped_txs_def alt_of_def node_bad_def)

lemma node_sync_unique:
  assumes "node_sync io cfg bs t s" "node_sync io cfg (bs @ new) t s"
  shows "new = []"
proof -
  have "chain_height_of t = length bs" "chain_height_of t = length (bs @ new)"
    using assms built_holds_alts(2) unfolding node_sync_def by blast+
  then show ?thesis
    by simp
qed

theorem failed_reorg_is_undone_witness:
  "\<exists>(m :: bytes manager) m'. node_sync node_codecs context_main_net [node_genesis, node_block] (mg_tables m) (mg_context m) \<and>
     try_do_reorg node_verifier Some 3 4 1000 (alt_of node_codecs 7 node_bad) m = Some (m', Err (Fault (NewAltBlockError hard_fork_unknown))) \<and>
     node_sync node_codecs context_main_net [node_genesis, node_block] (mg_tables m') (mg_context m') \<and>
     mg_tables m' = flush_alt_blocks (mg_tables m)"
proof -
  let ?bad = "alt_of node_codecs 7 node_bad" and ?bs = "[node_genesis]" and ?cfg = context_main_net
  obtain s :: "bytes context_task" where s: "node_sync node_codecs ?cfg ?bs node_tables s" "context_cache s = node_ctx"
    using node_started by blast
  define m0 where "m0 = \<lparr>mg_tables = node_tables, mg_context = s, mg_sent = []\<rparr>"
  have m0: "node_sync node_codecs ?cfg ?bs (mg_tables m0) (mg_context m0)" "block_addable node_codecs node_block (mg_tables m0)"
      "fork_ok ?cfg ?bs node_block"
    using s(1) node_block_ok [OF s] by (simp_all add: m0_def follows_def)
  obtain m1 where "add_valid_block_to_main_chain Some node_codecs 0 node_block m0 = Some (m1, Ok () :: manager_error fault + unit)"
      and m1: "node_sync node_codecs ?cfg (?bs @ [node_block]) (mg_tables m1) (mg_context m1)"
    using add_valid_block_ok [OF config_ok_networks(1) m0, of Some 0] by blast
  define m where "m = m1\<lparr>mg_tables := with_bad_chain (mg_tables m1)\<rparr>"
  have m: "node_sync (vcodecs node_verifier) ?cfg (?bs @ [node_block]) (mg_tables m) (mg_context m)"
    using m1 by (simp add: node_sync_def m_def with_bad_chain_def flush_alt_blocks_def)
  have follow: "follow_all ?cfg ?bs [node_block]"
    using node_block_ok(2) [OF s] by simp
  have alts: "alt_blocks_in_chain (vcodecs node_verifier) (ab_chain_id ?bad) (mg_tables m) = Some (Ok [?bad])"
    using kept_read [OF node_bad_kept, of "mg_tables m1"] by (simp add: m_def alt_of_def)
  have stores: "alt_blocks_storable node_verifier 1000 ?cfg ?bs ([?bad] @ [?bad])"
    by (simp add: alt_blocks_storable_def node_bad_rejected)
  have fails: "\<exists>m2. verify_add_alt_blocks_to_main_chain node_verifier Some 3 1000 ([?bad] @ [?bad]) m1 =
        Some (m2, Err (Fault (NewAltBlockError hard_fork_unknown))) \<and>
      (\<forall>new. node_sync (vcodecs node_verifier) ?cfg (?bs @ new) (mg_tables m2) (mg_context m2) \<longrightarrow> new = [] \<or> poppable (vcodecs node_verifier) ?cfg ?bs new)"
    if pop: "manager_pop_blocks Some (vcodecs node_verifier) 3 (length [node_block]) m = Some (m1, Ok 3 :: manager_error fault + nat)" for m1
  proof -
    obtain m2 where "manager_pop_blocks Some node_codecs 3 (length [node_block]) m = Some (m2, Ok 3 :: manager_error fault + nat)"
        "node_sync node_codecs ?cfg ?bs (mg_tables m2) (mg_context m2)"
      using manager_pop_ok [OF config_ok_networks(1) m [unfolded node_vcodecs] node_poppable, of 3 Some] by auto
    then have "node_sync node_codecs ?cfg ?bs (mg_tables m1) (mg_context m1)"
      using pop by simp
    moreover have "verify_add_alt_blocks_to_main_chain node_verifier Some 3 1000 ([?bad] @ [?bad]) m1 =
        Some (m1, Err (Fault (NewAltBlockError hard_fork_unknown)))"
      by (simp add: verify_add_alt_blocks_to_main_chain_def verify_add_alt_block_def mbind_def mresult_def node_bad_rejected no_panic_def
          node_bad_txs)
    ultimately show ?thesis
      using node_sync_unique by fastforce
  qed
  from failed_reorg_is_undone [OF config_ok_networks(1) m _ _ _ follow alts _ stores fails] show ?thesis
    using m node_poppable by (auto simp: alt_of_def node_bad_def)
qed

text \<open>
  C9: fast sync computes what full verification would. When a block and its transactions pass full verification against a context, the
  information that fast sync computes from them and that context is the verified block in every field but the proof-of-work hash,
  which fast sync does not compute and sets to 32 bytes 255.
\<close>

theorem fast_sync_agrees_with_verification:
  assumes "collect_results (new_tx_verification_data V) txs = Ok data" "order_transactions blk data = Ok ordered"
    and "prepared_block_new V blk vm = Ok prepped"
    and "verify_prepped_main_chain_block V now ctx prepped ordered (store_db (io, t)) None = Some (Ok (b, c))"
  shows "block_to_verified_block_information V blk txs ctx = Some (b\<lparr>vb_pow_hash := replicate 32 255\<rparr>)"
  using assms by (rule fast_sync_agrees)

theorem fast_sync_agrees_with_verification_witness:
  "block_to_verified_block_information node_verifier node_next [] node_ctx = Some (node_block\<lparr>vb_pow_hash := replicate 32 255\<rparr>)"
  using fast_sync_agrees_with_verification [OF _ _ node_prepped node_verified, of "[]" "[]"]
  by (simp add: order_transactions_def node_next_def)

text \<open>
  C11: fast-syncing a batch leaves the node where verifying its blocks one by one would. When every block of the batch passes full
  verification against the context and the tables of the chain below it, and storage takes it, the fast-sync handler, which verifies
  none of this, moves the context block by block, writes all blocks at once and ends without an error or a panic with the tables and the
  context of the chain extended by the verified blocks.
\<close>

theorem fast_sync_batch_extends_chain:
  fixes m :: "'vm manager"
  assumes "config_ok cfg" "node_sync (vcodecs V) cfg bs (mg_tables m) (mg_context m)" "verifies_batch V cfg bs batch news"
  shows "\<exists>m'. handle_incoming_block_batch_fast_sync V new_vm pop_id batch m = Some (m', Ok () :: manager_error fault + unit) \<and>
    node_sync (vcodecs V) cfg (bs @ news) (mg_tables m') (mg_context m') \<and> mg_sent m' = mg_sent m"
  using assms by (rule fast_sync_verified_batch)

lemma node_verifies_batch: "verifies_batch node_verifier context_main_net [node_genesis] [(node_next, [])] [node_block]"
proof (rule verifies_block [OF node_context _ _ _ node_prepped node_verified _ verifies_empty])
  show "built (vcodecs node_verifier) [node_genesis] (flush_alt_blocks node_tables)"
    using node_tables_built built_no_alts [OF node_tables_built] by simp
  show "storage_accepts (vcodecs node_verifier) node_block node_tables"
    by (simp add: node_block_storable)
  show "order_transactions node_next [] = Ok []"
    by (simp add: order_transactions_def node_next_def)
qed simp

theorem fast_sync_batch_extends_chain_witness:
  "\<exists>(m :: bytes manager) m'. mg_tables m = node_tables \<and>
     handle_incoming_block_batch_fast_sync node_verifier Some 1 [(node_next, [])] m = Some (m', Ok () :: manager_error fault + unit) \<and>
     node_sync node_codecs context_main_net [node_genesis, node_block] (mg_tables m') (mg_context m')"
proof -
  obtain s :: "bytes context_task" where s: "node_sync node_codecs context_main_net [node_genesis] node_tables s"
    using node_started by blast
  define m where "m = \<lparr>mg_tables = node_tables, mg_context = s, mg_sent = []\<rparr>"
  have m: "node_sync (vcodecs node_verifier) context_main_net [node_genesis] (mg_tables m) (mg_context m)" "mg_tables m = node_tables"
    using s(1) by (simp_all add: m_def)
  from fast_sync_batch_extends_chain [OF config_ok_networks(1) m(1) node_verifies_batch, of Some 1] m(2) show ?thesis
    by auto
qed

text \<open>
  C3: what full verification of a list of transactions guarantees, from the database's answers alone. No two inputs have the same key image
  and none is spent on the chain. Every transaction passed the semantic checks of the current fork, the range proofs that the batch
  verifier checks included, now or when its recorded state was set, and its recorded state says so. Every transaction passed the contextual
  checks with ring members read from the tables, unless its recorded state names this fork and a block of the chain. The transactions
  themselves are those that were given. The hypotheses: the recorded states that come with the transactions are honest, that is, they name
  forks whose semantic checks the transaction passes; and the verification runs without the cache of a batch of blocks.
\<close>

theorem full_verify_sound:
  assumes "full_verify V txs height tip now hf (store_db (io, t)) None = Some (Ok txs')" "list_all (honest V) txs"
  shows "distinct (input_images (concat (map (\<lambda>tx. inputs (prefix (tv_tx tx))) txs))) \<and>
    (\<forall>ki \<in> set (input_images (concat (map (\<lambda>tx. inputs (prefix (tv_tx tx))) txs))). ki \<notin> fst ` set (key_images t)) \<and>
    list_all (semantically_valid V hf) txs' \<and>
    (\<exists>m c. read_outputs io m False t = Ok c \<and>
       (\<forall>tx \<in> set txs. known_valid t hf tx \<or>
          (\<exists>ring. ring_member_info hf c tx = Ok ring \<and> check_transaction_contextual (rules V) (tv_tx tx) ring height now hf = Ok ()))) \<and>
    map verified_tx_of txs' = map verified_tx_of txs"
  using full_verify_ok [OF assms(1)] full_verify_honest [OF assms] full_verify_contextual [OF assms(1)] by blast

text \<open>A new transaction that spends the output of the genesis block.\<close>

definition node_tx :: tx_verification_data where
  "node_tx =
     \<lparr>tv_tx =
        TxV1 \<lparr>additional_timelock = TNone, inputs = [ToKey (Some 5) [0] [9]],
              outputs = [\<lparr>amount = Some 2, out_key = [1], view_tag = None\<rparr>], extra = [7]\<rparr> [[9]],
      tv_version = RingSignatures, tv_blob = [7], tv_weight = 1, tv_fee = 3, tv_hash = [10, 7], tv_state = NotVerified\<rparr>"

definition node_outputs :: output_cache where
  "node_outputs =
     \<lparr>cached_outputs = [(5, [(0, \<lparr>ooc_height = 0, ooc_time_lock = TBlock 60, ooc_key = [1], ooc_commitment = [], ooc_txid = None\<rparr>)])],
      number_of_outputs = [(5, 1)], wanted_outputs = [(5, [])]\<rparr>"

definition node_ring :: tx_ring_members_info where
  "node_ring = \<lparr>tx_rings = Legacy [[[1]]], ring_decoy_info = None, youngest_used_out_height = 0, time_locked_outs = [TBlock 60]\<rparr>"

lemma node_read_outputs: "read_outputs node_codecs [(5, [0])] False node_tables = Ok node_outputs"
  by (simp add: read_outputs_def node_tables_def empty_tables_def node_codecs_def node_outputs_def id_to_output_on_chain_def output_to_output_on_chain_def output_txid_def u64_to_timelock_def MAX_BLOCK_HEIGHT_USIZE_def get_output_def tbl_get_def output_time_lock_def amount_of_outs_def)

lemma node_tx_checks:
  "semantic_check node_verifier V1 node_tx = Ok ()" "ring_member_info V1 node_outputs node_tx = Ok node_ring"
  "check_transaction_contextual (rules node_verifier) (tv_tx node_tx) node_ring 100 1000 V1 = Ok ()"
proof -
  show "semantic_check node_verifier V1 node_tx = Ok ()"
    by (simp add: semantic_check_def node_tx_def node_verifier_def sample_eval assert_def)
  show "ring_member_info V1 node_outputs node_tx = Ok node_ring"
    by (simp add: ring_member_info_def node_tx_def node_outputs_def node_ring_def get_ring_members_for_inputs_def get_absolute_offsets_def
        cache_get_output_def new_ring_member_info_def new_rings_def Let_def)
  show "check_transaction_contextual (rules node_verifier) (tv_tx node_tx) node_ring 100 1000 V1 = Ok ()"
    by (simp add: node_tx_def node_ring_def node_verifier_def check_transaction_contextual_def check_inputs_contextual_def check_10_block_lock_def
      check_key_images_def check_tx_version_def check_all_time_locks_def output_unlocked_def check_block_time_lock_def
      legacy_check_input_signatures_def to_key_image_def sample_eval)
qed

lemma node_full_verify:
  "full_verify node_verifier [node_tx] 100 [5] 1000 V1 (store_db (node_codecs, node_tables)) None =
     Some (Ok [node_tx\<lparr>tv_state := ValidAtHashAndHF [5] V1\<rparr>])"
proof -
  have tx: "inputs (prefix (tv_tx node_tx)) = [ToKey (Some 5) [0] [9]]" "tv_state node_tx = NotVerified" "queued_statements (tv_tx node_tx) = []"
    by (simp_all add: node_tx_def queued_statements_def)
  have state: "new_verification_state [5] V1 node_ring = ValidAtHashAndHF [5] V1"
    by (simp add: new_verification_state_def node_ring_def youngest_timebased_lock_def List.map_filter_def)
  have "check_kis_unique [node_tx] (store_db (node_codecs, node_tables)) = cok ()"
    by (simp add: check_kis_unique_def tx ask_def map_request_def cbind_def cok_def cunwrap_def from_transaction_error_def no_panic_def
        key_images_spent_def key_image_exists_def tbl_contains_def tbl_get_def node_tables_def empty_tables_def)
  moreover have "batch_get_ring_member_info [node_tx] V1 (store_db (node_codecs, node_tables)) None = cok [node_ring]"
    using node_read_outputs
    by (simp add: batch_get_ring_member_info_def tx insert_ring_member_ids_def get_absolute_offsets_def ask_def map_request_def cbind_def cok_def
        cunwrap_def from_transaction_error_def no_panic_def as_outputs_def node_tx_checks(2) Let_def)
  ultimately show ?thesis
    using node_tx_checks(1,3)
    by (simp add: full_verify_def hashes_referenced_in_main_chain_def tx List.map_filter_def verification_needed_def verification_needed_of_def
        verify_transactions_def needs_check_def check_one_def batch_verifies_def state cbind_def cok_def from_transaction_error_def no_panic_def
        Let_def del: store_db.simps)
qed

theorem full_verify_sound_witness:
  "semantically_valid node_verifier V1 (node_tx\<lparr>tv_state := ValidAtHashAndHF [5] V1\<rparr>) \<and>
   (\<exists>m c ring. read_outputs node_codecs m False node_tables = Ok c \<and> ring_member_info V1 c node_tx = Ok ring \<and>
      check_transaction_contextual sample_oxide (tv_tx node_tx) ring 100 1000 V1 = Ok ())"
proof -
  have "list_all (honest node_verifier) [node_tx]" "\<not> known_valid node_tables V1 node_tx"
    by (simp_all add: honest_def known_valid_def node_tx_def)
  then show ?thesis
    using full_verify_sound [OF node_full_verify] by (fastforce simp: node_verifier_def)
qed

text \<open>
  C30: transactions given with a block in any order are put into the order of the block, and are refused exactly when their hashes are not those of
  the block, each as often as there.
\<close>

theorem order_transactions_spec:
  "(is_ok (order_transactions blk txs) \<longleftrightarrow> mset (map tv_hash txs) = mset (transactions blk)) \<and>
   (\<forall>txs'. order_transactions blk txs = Ok txs' \<longrightarrow> mset txs' = mset txs \<and> map tv_hash txs' = transactions blk)"
proof (cases "length (transactions blk) = length txs")
  case True
  then show ?thesis
    using order_from_spec [of 0 "transactions blk" txs] by (auto simp: order_transactions_def)
next
  case False
  then have "mset (map tv_hash txs) \<noteq> mset (transactions blk)"
    by (metis length_map size_mset)
  then show ?thesis
    using False by (simp add: order_transactions_def)
qed

theorem order_transactions_spec_witness:
  "order_transactions (node_next\<lparr>transactions := [[1], [2]]\<rparr>) [node_tx\<lparr>tv_hash := [2]\<rparr>, node_tx\<lparr>tv_hash := [1]\<rparr>] =
     Ok [node_tx\<lparr>tv_hash := [1]\<rparr>, node_tx\<lparr>tv_hash := [2]\<rparr>] \<and>
   mset [node_tx\<lparr>tv_hash := [1]\<rparr>, node_tx\<lparr>tv_hash := [2]\<rparr>] = mset [node_tx\<lparr>tv_hash := [2]\<rparr>, node_tx\<lparr>tv_hash := [1]\<rparr>]"
proof -
  have "order_transactions (node_next\<lparr>transactions := [[1], [2]]\<rparr>) [node_tx\<lparr>tv_hash := [2]\<rparr>, node_tx\<lparr>tv_hash := [1]\<rparr>] =
     Ok [node_tx\<lparr>tv_hash := [1]\<rparr>, node_tx\<lparr>tv_hash := [2]\<rparr>]"
    by (simp add: order_transactions_def swap_at_def)
  then show ?thesis
    using order_transactions_spec [of "node_next\<lparr>transactions := [[1], [2]]\<rparr>"] by blast
qed

text \<open>
  The time lock recorded with a verified transaction is the earliest of its time locks. Once it has passed the transaction counts as
  verified at a known block even where the check of all its locks fails.
\<close>

lemma recorded_time_lock_is_earliest:
  assumes "time_locked_outs ring = [TTime s, TTime t]" "output_unlocked (TTime s) h now hf" "\<not> output_unlocked (TTime t) h now hf"
    and "tv_version tx = RingCT" "tv_state tx = new_verification_state tip hf ring" "tip \<in> set hashes"
  shows "verification_needed_of hashes hf h now tx = Ok NoneNeeded \<and>
    check_all_time_locks (time_locked_outs ring) h now hf = Err OneOrMoreRingMembersLocked"
proof -
  have "s \<le> t"
    using assms(2,3) by (auto simp: output_unlocked_def check_timestamp_time_lock_def split: if_splits)
  then show ?thesis
    using assms by (simp add: verification_needed_of_def new_verification_state_def youngest_timebased_lock_def List.map_filter_def
        check_all_time_locks_def)
qed

end
