(* ===== verification/Spec2Isabelle.thy ===== *)
theory Spec2Isabelle
  imports Pruning Medians Block_Rules Node_Properties
begin

text \<open>
  Verification of parts of Cuprate, a Monero node.
\<close>

end
